(* ===== verification/Prelude.thy ===== *)
theory Prelude
  imports Complex_Main "HOL-Library.Word" "HOL-Library.Char_ord" "HOL-Library.List_Lexorder"
    "HOL-Library.Product_Lexorder" "HOL-Library.AList" "HOL-Library.Code_Target_Nat"
begin

text \<open>
  Shared vocabulary of the development: the Python values, strings and exceptions the
  gateway uses, results of fallible and of awaited calls, tables as association lists,
  and the lemma collections the component theories rely on.

  Strings are lists of characters, one per code point, so they range over the Latin-1
  code points (0 to 255); \<open>py_strip\<close>, \<open>py_lower\<close> and \<open>utf8_encode\<close> follow
  Python on exactly that range.
\<close>

section \<open>Lemma collections\<close>

named_theorems result_simps \<open>evaluation of fallible and awaited calls\<close>
named_theorems post_init \<open>what a validated domain object satisfies\<close>
named_theorems frame \<open>fields and parts of the state that an operation leaves alone\<close>

section \<open>Python values\<close>

type_synonym bytes = "8 word list"

text \<open>
  A Python float: a finite value is a rational, and the three special values are kept,
  since comparisons with them decide some of the guards of the code.
\<close>

datatype pyfloat = Fin rat | PosInf | NegInf | NaN

fun float_le :: "pyfloat \<Rightarrow> pyfloat \<Rightarrow> bool" where
  "float_le NaN _ = False"
| "float_le _ NaN = False"
| "float_le NegInf _ = True"
| "float_le _ PosInf = True"
| "float_le (Fin a) (Fin b) = (a \<le> b)"
| "float_le _ _ = False"

text \<open>
  Values of the static type \<^verbatim>\<open>object\<close>: protocol options, raw readings, decoded JSON.
  \<open>POther\<close> is an object of any class not listed, known by its class name.
\<close>

datatype pyval =
    PNone
  | PBool bool
  | PInt int
  | PFloat pyfloat
  | PStr string
  | PBytes bytes
  | PByteArray bytes
  | PTuple "pyval list"
  | PList "pyval list"
  | PDict "(pyval \<times> pyval) list"
  | POther string

text \<open>\<^verbatim>\<open>mapping.get(key)\<close> for a string key.\<close>

definition dict_get :: "(pyval \<times> pyval) list \<Rightarrow> string \<Rightarrow> pyval option" where
  "dict_get d k = map_of d (PStr k)"

text \<open>Arguments of the static type \<^verbatim>\<open>int\<close>; \<^verbatim>\<open>bool\<close> is Python's subclass of it.\<close>

datatype int_arg = AInt int | ABool bool

text \<open>
  \<^verbatim>\<open>float(n)\<close> for an integer: round half to even at 53 bits, and OverflowError from
  \<open>2 ^ 1024\<close> on.
\<close>

fun bit_len :: "nat \<Rightarrow> nat" where
  "bit_len n = (if n = 0 then 0 else Suc (bit_len (n div 2)))"

declare bit_len.simps [simp del]

definition round53 :: "nat \<Rightarrow> nat" where
  "round53 n =
     (let k = bit_len n - 53; q = n div 2 ^ k; r = n mod 2 ^ k
      in if k = 0 then n
         else if 2 * r > 2 ^ k \<or> (2 * r = 2 ^ k \<and> odd q) then (q + 1) * 2 ^ k
         else q * 2 ^ k)"

definition float_of_int :: "int \<Rightarrow> pyfloat option" where
  "float_of_int z =
     (let m = round53 (nat \<bar>z\<bar>)
      in if 2 ^ 1024 \<le> m then None else Some (Fin (of_int (sgn z * int m))))"

lemma round53_0 [simp]: "round53 0 = 0"
  by (simp add: round53_def bit_len.simps)

lemma float_of_int_0 [simp]: "float_of_int 0 = Some (Fin 0)"
  by (simp add: float_of_int_def)

section \<open>Exceptions\<close>

text \<open>
  The classes of domain/exceptions.py, the built-in ones the code raises or tests for,
  and \<open>OtherError\<close> with a class name for any other subclass of \<^verbatim>\<open>Exception\<close>.
\<close>

datatype exn_class =
    GatewayError | ConfigurationError | TransientCommunicationError
  | PermanentProtocolError | StorageError
  | PyTimeoutError | PyValueError | PyTypeError | PyKeyError | PyRuntimeError
  | PyOverflowError | PyOSError | PyIntegrityError
  | OtherError string

fun class_name :: "exn_class \<Rightarrow> string" where
  "class_name GatewayError = ''GatewayError''"
| "class_name ConfigurationError = ''ConfigurationError''"
| "class_name TransientCommunicationError = ''TransientCommunicationError''"
| "class_name PermanentProtocolError = ''PermanentProtocolError''"
| "class_name StorageError = ''StorageError''"
| "class_name PyTimeoutError = ''TimeoutError''"
| "class_name PyValueError = ''ValueError''"
| "class_name PyTypeError = ''TypeError''"
| "class_name PyKeyError = ''KeyError''"
| "class_name PyRuntimeError = ''RuntimeError''"
| "class_name PyOverflowError = ''OverflowError''"
| "class_name PyOSError = ''OSError''"
| "class_name PyIntegrityError = ''IntegrityError''"
| "class_name (OtherError n) = n"

text \<open>
  An exception object: its class, \<^verbatim>\<open>str(error)\<close>, the \<^verbatim>\<open>code\<close> attribute when it is a
  string, and the structured details of a \<^verbatim>\<open>GatewayError\<close>.
\<close>

record pyexn =
  exn_class :: exn_class
  exn_message :: string
  exn_code :: "string option"
  exn_details :: "(string \<times> pyval) list"

definition exn :: "exn_class \<Rightarrow> string \<Rightarrow> pyexn" where
  "exn c m = \<lparr>exn_class = c, exn_message = m, exn_code = None, exn_details = []\<rparr>"

definition exn_coded :: "exn_class \<Rightarrow> string \<Rightarrow> string \<Rightarrow> (string \<times> pyval) list \<Rightarrow> pyexn" where
  "exn_coded c m k ds =
     \<lparr>exn_class = c, exn_message = m, exn_code = Some k, exn_details = ds\<rparr>"

lemma exn_simps [simp]:
  "exn_class (exn c m) = c" "exn_message (exn c m) = m" "exn_code (exn c m) = None"
  "exn_class (exn_coded c m k ds) = c" "exn_message (exn_coded c m k ds) = m"
  "exn_code (exn_coded c m k ds) = Some k" "exn_details (exn_coded c m k ds) = ds"
  by (simp_all add: exn_def exn_coded_def)

section \<open>Results of calls\<close>

text \<open>A synchronous call returns or raises; an awaited one may also be cancelled.\<close>

type_synonym 'a result = "pyexn + 'a"

definition rbind :: "'e + 'a \<Rightarrow> ('a \<Rightarrow> 'e + 'b) \<Rightarrow> 'e + 'b" where
  "rbind m f = (case m of Inl e \<Rightarrow> Inl e | Inr x \<Rightarrow> f x)"

text \<open>Evaluation looks at the second argument only once the first has a value.\<close>

declare rbind_def [code_unfold]

lemma rbind_simps [simp]:
  "rbind (Inl e) f = Inl e" "rbind (Inr x) f = f x"
  by (simp_all add: rbind_def)

lemma rbind_Inr_iff [simp]: "rbind m f = Inr y \<longleftrightarrow> (\<exists>x. m = Inr x \<and> f x = Inr y)"
  by (cases m) auto

lemma rbind_Inl_iff: "rbind m f = Inl e \<longleftrightarrow> m = Inl e \<or> (\<exists>x. m = Inr x \<and> f x = Inl e)"
  by (cases m) auto

text \<open>Python's \<^verbatim>\<open>if guard: raise error\<close>.\<close>

definition raise_if :: "bool \<Rightarrow> 'e \<Rightarrow> 'e + unit" where
  "raise_if b e = (if b then Inl e else Inr ())"

lemma raise_if_Inr [simp]: "raise_if b e = Inr u \<longleftrightarrow> \<not> b"
  by (simp add: raise_if_def)

lemma raise_if_simps [simp]: "raise_if True e = Inl e" "raise_if False e = Inr ()"
  by (simp_all add: raise_if_def)

text \<open>A comprehension whose element expression may raise: the first error wins.\<close>

fun rmap :: "('a \<Rightarrow> 'e + 'b) \<Rightarrow> 'a list \<Rightarrow> 'e + 'b list" where
  "rmap f [] = Inr []"
| "rmap f (x # xs) = rbind (f x) (\<lambda>y. rbind (rmap f xs) (\<lambda>ys. Inr (y # ys)))"

lemma rmap_Inr_all: "rmap f xs = Inr ys \<Longrightarrow> list_all2 (\<lambda>x y. f x = Inr y) xs ys"
  by (induction xs arbitrary: ys) auto

lemma rmap_all_Inr: "(\<And>x. x \<in> set xs \<Longrightarrow> f x = Inr (g x)) \<Longrightarrow> rmap f xs = Inr (map g xs)"
  by (induction xs) auto

lemma rmap_length: "rmap f xs = Inr ys \<Longrightarrow> length ys = length xs"
  by (drule rmap_Inr_all) (simp add: list_all2_lengthD)

lemma rmap_Inr_set: "rmap f xs = Inr ys \<Longrightarrow> y \<in> set ys \<Longrightarrow> \<exists>x \<in> set xs. f x = Inr y"
  by (induction xs arbitrary: ys) auto

datatype 'a outcome = Ret 'a | Raise pyexn | Cancelled

fun outcome_of :: "'a result \<Rightarrow> 'a outcome" where
  "outcome_of (Inl e) = Raise e"
| "outcome_of (Inr x) = Ret x"

lemma outcome_of_Ret [simp]: "outcome_of r = Ret x \<longleftrightarrow> r = Inr x"
  by (cases r) auto

lemma outcome_of_Raise [simp]: "outcome_of r = Raise e \<longleftrightarrow> r = Inl e"
  by (cases r) auto

lemma outcome_of_not_Cancelled [simp]: "outcome_of r \<noteq> Cancelled"
  by (cases r) auto

section \<open>Strings\<close>

definition code_point :: "char \<Rightarrow> nat" where
  "code_point c = of_char c"

definition is_space :: "char \<Rightarrow> bool" where
  "is_space c =
     (let n = code_point c
      in (9 \<le> n \<and> n \<le> 13) \<or> (28 \<le> n \<and> n \<le> 32) \<or> n = 133 \<or> n = 160)"

definition py_strip :: "string \<Rightarrow> string" where
  "py_strip s = rev (dropWhile is_space (rev (dropWhile is_space s)))"

definition lower_char :: "char \<Rightarrow> char" where
  "lower_char c =
     (let n = code_point c
      in if (65 \<le> n \<and> n \<le> 90) \<or> (192 \<le> n \<and> n \<le> 222 \<and> n \<noteq> 215)
         then char_of (n + 32) else c)"

definition py_lower :: "string \<Rightarrow> string" where
  "py_lower s = map lower_char s"

text \<open>A name in single quotes, as the error messages show it.\<close>

definition quoted :: "string \<Rightarrow> string" where
  "quoted s = [char_of (39::nat)] @ s @ [char_of (39::nat)]"

text \<open>\<^verbatim>\<open>x or y\<close> on strings: the empty string is falsy.\<close>

definition str_or :: "string \<Rightarrow> string \<Rightarrow> string" where
  "str_or s t = (if s = [] then t else s)"

text \<open>Encoding to UTF-8: one byte below 128, two from there to 255.\<close>

definition utf8_char :: "char \<Rightarrow> bytes" where
  "utf8_char c =
     (let n = code_point c
      in if n < 128 then [of_nat n] else [of_nat (192 + n div 64), of_nat (128 + n mod 64)])"

definition utf8_encode :: "string \<Rightarrow> bytes" where
  "utf8_encode s = concat (map utf8_char s)"

fun str_join :: "string \<Rightarrow> string list \<Rightarrow> string" where
  "str_join sep [] = []"
| "str_join sep [x] = x"
| "str_join sep (x # y # ys) = x @ sep @ str_join sep (y # ys)"

lemma dropWhile_hd: "dropWhile P xs = [] \<or> \<not> P (hd (dropWhile P xs))"
  by (induction xs) auto

lemma dropWhile_dropWhile [simp]: "dropWhile P (dropWhile P xs) = dropWhile P xs"
  by (induction xs) auto

lemma py_strip_Nil [simp]: "py_strip [] = []"
  by (simp add: py_strip_def)

lemma dropWhile_rev_no_lead:
  assumes "xs \<noteq> []" "\<not> P (hd xs)"
  shows "dropWhile P (rev (dropWhile P (rev xs))) = rev (dropWhile P (rev xs))"
proof -
  obtain y ys where xs: "xs = y # ys" using assms(1) by (cases xs) auto
  with assms(2) have "dropWhile P (rev xs) = dropWhile P (rev ys) @ [y]"
    by (simp add: dropWhile_append3)
  then show ?thesis using assms(2) xs by simp
qed

lemma py_strip_idem [simp]: "py_strip (py_strip s) = py_strip s"
proof (cases "dropWhile is_space s = []")
  case True
  have "py_strip s = []" unfolding py_strip_def True by simp
  then show ?thesis by simp
next
  case False
  then have "\<not> is_space (hd (dropWhile is_space s))"
    using dropWhile_hd by blast
  with False show ?thesis
    by (simp add: py_strip_def dropWhile_rev_no_lead)
qed

lemma py_strip_eq_Nil: "py_strip s = [] \<longleftrightarrow> (\<forall>c \<in> set s. is_space c)"
proof
  assume "py_strip s = []"
  then have "\<forall>c \<in> set (dropWhile is_space s). is_space c"
    by (auto simp: py_strip_def dropWhile_eq_Nil_conv dest: set_dropWhileD)
  then have "dropWhile is_space s = []"
    using dropWhile_hd [of is_space s] by (metis list.set_sel(1))
  then show "\<forall>c \<in> set s. is_space c" by (simp add: dropWhile_eq_Nil_conv)
next
  assume "\<forall>c \<in> set s. is_space c"
  then show "py_strip s = []" by (auto simp: py_strip_def dest: set_dropWhileD)
qed

lemma str_or_Nil [simp]: "str_or [] t = t"
  by (simp add: str_or_def)

lemma str_or_nonempty: "t \<noteq> [] \<Longrightarrow> str_or s t \<noteq> []"
  by (simp add: str_or_def)

section \<open>Decimal numerals\<close>

definition digit :: "nat \<Rightarrow> char" where
  "digit d = char_of (48 + d)"

fun show_nat :: "nat \<Rightarrow> string" where
  "show_nat n = (if n < 10 then [digit n] else show_nat (n div 10) @ [digit (n mod 10)])"

declare show_nat.simps [simp del]

definition digit_val :: "char \<Rightarrow> nat" where
  "digit_val c = code_point c - 48"

definition read_nat :: "string \<Rightarrow> nat" where
  "read_nat s = foldl (\<lambda>n c. 10 * n + digit_val c) 0 s"

lemma code_point_digit: "d < 10 \<Longrightarrow> code_point (digit d) = 48 + d"
  by (simp add: code_point_def digit_def)

lemma digit_val_digit [simp]: "d < 10 \<Longrightarrow> digit_val (digit d) = d"
  by (simp add: digit_val_def code_point_digit)

lemma read_show_nat [simp]: "read_nat (show_nat n) = n"
proof (induction n rule: show_nat.induct)
  case (1 n)
  then show ?case
    by (subst show_nat.simps) (auto simp: read_nat_def)
qed

lemma show_nat_inj: "show_nat a = show_nat b \<Longrightarrow> a = b"
  by (metis read_show_nat)

definition is_digit :: "char \<Rightarrow> bool" where
  "is_digit c = (48 \<le> code_point c \<and> code_point c \<le> 57)"

lemma show_nat_digits: "c \<in> set (show_nat n) \<Longrightarrow> is_digit c"
proof (induction n rule: show_nat.induct)
  case (1 n)
  then show ?case
    by (subst (asm) (2) show_nat.simps)
      (auto simp: is_digit_def code_point_digit split: if_splits)
qed

text \<open>Digits padded with zeros to a fixed width, as in \<^verbatim>\<open>isoformat\<close>.\<close>

fun pad_digits :: "nat \<Rightarrow> nat \<Rightarrow> string" where
  "pad_digits 0 n = []"
| "pad_digits (Suc w) n = pad_digits w (n div 10) @ [digit (n mod 10)]"

lemma length_pad_digits [simp]: "length (pad_digits w n) = w"
  by (induction w arbitrary: n) auto

lemma read_nat_snoc: "read_nat (s @ [c]) = 10 * read_nat s + digit_val c"
  by (simp add: read_nat_def)

lemma read_pad_digits: "n < 10 ^ w \<Longrightarrow> read_nat (pad_digits w n) = n"
proof (induction w arbitrary: n)
  case 0
  then show ?case by (simp add: read_nat_def)
next
  case (Suc w)
  have "read_nat (pad_digits w (n div 10)) = n div 10"
    using Suc by simp
  then show ?case by (simp add: read_nat_snoc)
qed

section \<open>Tables\<close>

text \<open>
  A table keyed by its primary key is an association list in row order, with
  \<open>AList.update\<close> as insert-or-replace. These lemmas are what the stores share.
\<close>

lemma map_of_update [simp]: "map_of (AList.update k v t) = (map_of t)(k \<mapsto> v)"
  by (simp add: update_conv')

lemma update_same [simp]: "map_of t k = Some v \<Longrightarrow> AList.update k v t = t"
  by (induction t) auto

lemma length_update_new: "map_of t k = None \<Longrightarrow> AList.update k v t = t @ [(k, v)]"
  by (induction t) auto

end
