(* ===== verification/Py_Time.thy ===== *)
theory Py_Time
  imports Prelude
begin

text \<open>
  Python datetimes as the gateway uses them: timezone-aware or naive values, conversion
  to UTC, and the ISO-8601 text the spool stores and compares. The main facts are that
  the text determines the instant (\<open>fromisoformat_isoformat\<close>) and that comparing two
  texts, as the spool's SQL does, compares the instants (\<open>isoformat_less_iff\<close>).
\<close>

section \<open>Datetimes\<close>

text \<open>
  The wall clock reading in microseconds since 0001-01-01T00:00:00, and the UTC offset in
  microseconds, \<open>None\<close> for a value whose \<^verbatim>\<open>tzinfo\<close> or \<^verbatim>\<open>utcoffset()\<close> is None. Every
  Python datetime lies between the years 1 and 9999 (\<open>valid_wall\<close>).
\<close>

record datetime =
  dt_wall :: int
  dt_offset :: "int option"

definition max_wall :: int where
  "max_wall = 3652059 * 86400000000"

definition valid_wall :: "int \<Rightarrow> bool" where
  "valid_wall w \<longleftrightarrow> 0 \<le> w \<and> w < max_wall"

definition utc_dt :: "int \<Rightarrow> datetime" where
  "utc_dt t = \<lparr>dt_wall = t, dt_offset = Some 0\<rparr>"

definition utc_ok :: "datetime \<Rightarrow> bool" where
  "utc_ok d \<longleftrightarrow> dt_offset d = Some 0 \<and> valid_wall (dt_wall d)"

text \<open>\<^verbatim>\<open>value.astimezone(UTC)\<close> of an aware value: OverflowError outside the years 1 to 9999.\<close>

definition astimezone_utc :: "int \<Rightarrow> int \<Rightarrow> datetime result" where
  "astimezone_utc w off =
     (if valid_wall (w - off) then Inr (utc_dt (w - off))
      else Inl (exn PyOverflowError ''date value out of range''))"

definition add_micros :: "datetime \<Rightarrow> int \<Rightarrow> datetime result" where
  "add_micros d n =
     (if valid_wall (dt_wall d + n) then Inr (d\<lparr>dt_wall := dt_wall d + n\<rparr>)
      else Inl (exn PyOverflowError ''date value out of range''))"

lemma utc_dt_simps [simp]:
  "dt_wall (utc_dt t) = t" "dt_offset (utc_dt t) = Some 0"
  "utc_ok (utc_dt t) \<longleftrightarrow> valid_wall t" "utc_dt a = utc_dt b \<longleftrightarrow> a = b"
  by (auto simp: utc_dt_def utc_ok_def)

lemma utc_ok_eq: "utc_ok d \<Longrightarrow> utc_dt (dt_wall d) = d"
  by (cases d) (simp add: utc_ok_def utc_dt_def)

lemma astimezone_utc_ok: "astimezone_utc w off = Inr d \<Longrightarrow> utc_ok d"
  by (auto simp: astimezone_utc_def split: if_splits)

lemma astimezone_utc_id: "utc_ok d \<Longrightarrow> astimezone_utc (dt_wall d) 0 = Inr d"
  by (simp add: astimezone_utc_def utc_ok_eq) (simp add: utc_ok_def)

section \<open>The calendar\<close>

definition leap :: "nat \<Rightarrow> bool" where
  "leap y \<longleftrightarrow> y mod 4 = 0 \<and> (y mod 100 \<noteq> 0 \<or> y mod 400 = 0)"

definition year_days :: "nat \<Rightarrow> nat" where
  "year_days y = (if leap y then 366 else 365)"

definition month_days :: "bool \<Rightarrow> nat \<Rightarrow> nat" where
  "month_days lp m =
     (if m = 2 then (if lp then 29 else 28) else if m \<in> {4, 6, 9, 11} then 30 else 31)"

definition days_before_year :: "nat \<Rightarrow> nat" where
  "days_before_year y =
     (y - 1) * 365 + (y - 1) div 4 + (y - 1) div 400 - (y - 1) div 100"

text \<open>Days of the year before month \<open>m\<close>.\<close>

definition days_before_month :: "bool \<Rightarrow> nat \<Rightarrow> nat" where
  "days_before_month lp m =
     ([0, 0, 31, 59, 90, 120, 151, 181, 212, 243, 273, 304, 334] ! m)
       + (if lp \<and> 2 < m then 1 else 0)"

definition ymd2ord :: "nat \<times> nat \<times> nat \<Rightarrow> nat" where
  "ymd2ord p = (case p of (y, m, d) \<Rightarrow>
     days_before_year y + days_before_month (leap y) m + (d - 1))"

text \<open>Month and day from the zero-based day of the year.\<close>

fun find_month :: "bool \<Rightarrow> nat \<Rightarrow> nat list \<Rightarrow> nat \<times> nat" where
  "find_month lp doy [] = (1, doy + 1)"
| "find_month lp doy (m # ms) =
     (if days_before_month lp m \<le> doy then (m, doy - days_before_month lp m + 1)
      else find_month lp doy ms)"

definition month_of_day :: "bool \<Rightarrow> nat \<Rightarrow> nat \<times> nat" where
  "month_of_day lp doy = find_month lp doy [12, 11, 10, 9, 8, 7, 6, 5, 4, 3, 2, 1]"

text \<open>The year and the day of the year, by the 400-, 100-, 4- and 1-year cycles.\<close>

definition year_of_day :: "nat \<Rightarrow> nat \<times> nat" where
  "year_of_day n =
     (let n400 = n div 146097; r = n mod 146097;
          n100 = r div 36524; s = r mod 36524;
          n4 = s div 1461; t = s mod 1461;
          n1 = t div 365; u = t mod 365;
          y = n400 * 400 + n100 * 100 + n4 * 4 + n1 + 1
      in if n1 = 4 \<or> n100 = 4 then (y - 1, 365) else (y, u))"

definition ord2ymd :: "nat \<Rightarrow> nat \<times> nat \<times> nat" where
  "ord2ymd n =
     (let (y, doy) = year_of_day n; (m, d) = month_of_day (leap y) doy in (y, m, d))"

lemma days_before_cycles:
  assumes "y = 400 * a + 100 * b + 4 * c + e + 1" "b \<le> 3" "c \<le> 24" "e \<le> 3"
  shows "days_before_year y = 146097 * a + 36524 * b + 1461 * c + 365 * e"
proof -
  have "(y - 1) div 4 = 100 * a + 25 * b + c" using assms by auto
  moreover have "(y - 1) div 100 = 4 * a + b" using assms by auto
  moreover have "(y - 1) div 400 = a" using assms by auto
  ultimately show ?thesis using assms by (simp add: days_before_year_def)
qed

lemma mod_zero_at_most:
  fixes x k :: nat
  assumes "0 < x" "x \<le> k"
  shows "x mod k = 0 \<longleftrightarrow> x = k"
  using assms by (cases "x = k") auto

lemma leap_cycles:
  assumes y: "y = 400 * a + 100 * b + 4 * c + e + 1" and "b \<le> 3" "c \<le> 24" "e \<le> 3"
  shows "leap y \<longleftrightarrow> e = 3 \<and> (c \<noteq> 24 \<or> b = 3)"
proof -
  have e4: "y = (e + 1) + 4 * (100 * a + 25 * b + c)" using y by simp
  have e100: "y = (4 * c + e + 1) + 100 * (4 * a + b)" using y by simp
  have e400: "y = (100 * b + 4 * c + e + 1) + 400 * a" using y by simp
  have "y mod 4 = (e + 1) mod 4" unfolding e4 by (rule mod_mult_self2)
  then have m4: "y mod 4 = 0 \<longleftrightarrow> e = 3"
    using mod_zero_at_most [of "e + 1" 4] assms by simp
  have "y mod 100 = (4 * c + e + 1) mod 100" unfolding e100 by (rule mod_mult_self2)
  then have m100: "y mod 100 = 0 \<longleftrightarrow> 4 * c + e + 1 = 100"
    using mod_zero_at_most [of "4 * c + e + 1" 100] assms by simp
  have "y mod 400 = (100 * b + 4 * c + e + 1) mod 400" unfolding e400 by (rule mod_mult_self2)
  then have m400: "y mod 400 = 0 \<longleftrightarrow> 100 * b + 4 * c + e + 1 = 400"
    using mod_zero_at_most [of "100 * b + 4 * c + e + 1" 400] assms by simp
  show ?thesis unfolding leap_def m4 m100 m400 using assms by auto
qed

lemma year_of_day:
  assumes "year_of_day n = (y, doy)"
  shows "days_before_year y + doy = n \<and> doy < year_days y \<and> 1 \<le> y"
proof -
  define a r b s c t e u where
    defs: "a = n div 146097" "r = n mod 146097" "b = r div 36524" "s = r mod 36524"
      "c = s div 1461" "t = s mod 1461" "e = t div 365" "u = t mod 365"
  have n0: "n = 146097 * a + r" unfolding defs(1,2) by (rule mult_div_mod_eq [symmetric])
  have r1: "r < 146097" unfolding defs(2) by (rule mod_less_divisor) simp
  have r2: "r = 36524 * b + s" unfolding defs(3,4) by (rule mult_div_mod_eq [symmetric])
  have r3: "s < 36524" unfolding defs(4) by (rule mod_less_divisor) simp
  have s1: "s = 1461 * c + t" unfolding defs(5,6) by (rule mult_div_mod_eq [symmetric])
  have s2: "t < 1461" unfolding defs(6) by (rule mod_less_divisor) simp
  have s3: "t = 365 * e + u" unfolding defs(7,8) by (rule mult_div_mod_eq [symmetric])
  have s4: "u < 365" unfolding defs(8) by (rule mod_less_divisor) simp
  note r = r1 r2 r3 and s = s1 s2 s3 s4
  have n: "n = 146097 * a + 36524 * b + 1461 * c + 365 * e + u"
    using n0 r s by linarith
  have bounds: "b \<le> 4" "c \<le> 24" "e \<le> 4" using r s by linarith+
  have y: "(y, doy) = (if e = 4 \<or> b = 4
      then (a * 400 + b * 100 + c * 4 + e + 1 - 1, 365)
      else (a * 400 + b * 100 + c * 4 + e + 1, u))"
    using assms unfolding year_of_day_def Let_def defs by (simp only: split: if_splits)
  show ?thesis
  proof (cases "b = 4")
    case True
    then have z: "s = 0" using r by linarith
    then have ce: "c = 0" "e = 0" "u = 0" using s by linarith+
    have yy: "y = 400 * a + 100 * 3 + 4 * 24 + 3 + 1" "doy = 365"
      using y True ce by auto
    then show ?thesis
      using days_before_cycles [OF yy(1)] leap_cycles [OF yy(1)] n True ce
      by (simp add: year_days_def)
  next
    case b: False
    show ?thesis
    proof (cases "e = 4")
      case True
      then have tu: "t = 1460" "u = 0" using s by linarith+
      then have "c \<noteq> 24" using r s b bounds by linarith
      then have yy: "y = 400 * a + 100 * b + 4 * c + 3 + 1" "doy = 365" "c \<le> 23"
        using y True bounds by auto
      then show ?thesis
        using days_before_cycles [OF yy(1)] leap_cycles [OF yy(1)] n True tu b bounds
        by (simp add: year_days_def)
    next
      case False
      then have yy: "y = 400 * a + 100 * b + 4 * c + e + 1" "doy = u"
        using y b by auto
      then show ?thesis
        using days_before_cycles [OF yy(1)] n b bounds False s
        by (simp add: year_days_def)
    qed
  qed
qed

definition valid_ymd :: "nat \<times> nat \<times> nat \<Rightarrow> bool" where
  "valid_ymd p \<longleftrightarrow> (case p of (y, m, d) \<Rightarrow>
     1 \<le> y \<and> 1 \<le> m \<and> m \<le> 12 \<and> 1 \<le> d \<and> d \<le> month_days (leap y) m)"

lemma month_of_day:
  assumes "month_of_day lp doy = (m, d)" "doy < (if lp then 366 else 365)"
  shows "1 \<le> m \<and> m \<le> 12 \<and> 1 \<le> d \<and> d \<le> month_days lp m
    \<and> days_before_month lp m + (d - 1) = doy"
  using assms
  by (cases lp)
    (simp_all add: month_of_day_def days_before_month_def month_days_def split: if_splits,
     (elim conjE; hypsubst?; simp)+)

lemma ord2ymd_valid: "valid_ymd (ord2ymd n) \<and> ymd2ord (ord2ymd n) = n"
proof -
  obtain y doy where yd: "year_of_day n = (y, doy)" by fastforce
  obtain m d where md: "month_of_day (leap y) doy = (m, d)" by fastforce
  have o: "ord2ymd n = (y, m, d)" using yd md by (simp add: ord2ymd_def)
  have y: "days_before_year y + doy = n" "doy < year_days y" "1 \<le> y"
    using year_of_day [OF yd] by auto
  then have m: "1 \<le> m" "m \<le> 12" "1 \<le> d" "d \<le> month_days (leap y) m"
    "days_before_month (leap y) m + (d - 1) = doy"
    using month_of_day [OF md] by (auto simp: year_days_def)
  show ?thesis using o y m by (simp add: valid_ymd_def ymd2ord_def)
qed

lemma days_before_year_Suc:
  assumes "1 \<le> y"
  shows "days_before_year (Suc y) = days_before_year y + year_days y"
proof -
  define a r b s c e where
    defs: "a = (y - 1) div 400" "r = (y - 1) mod 400" "b = r div 100" "s = r mod 100"
      "c = s div 4" "e = s mod 4"
  have "y - 1 = 400 * a + r" unfolding defs(1,2) by (rule mult_div_mod_eq [symmetric])
  moreover have r: "r = 100 * b + s" unfolding defs(3,4) by (rule mult_div_mod_eq [symmetric])
  moreover have s: "s = 4 * c + e" unfolding defs(5,6) by (rule mult_div_mod_eq [symmetric])
  ultimately have y: "y = 400 * a + 100 * b + 4 * c + e + 1" using assms by linarith
  have "r < 400" "s < 100" "e < 4"
    unfolding defs(2,4,6) by (rule mod_less_divisor, simp)+
  then have bnd: "b \<le> 3" "c \<le> 24" "e \<le> 3" using r s by linarith+
  note now = days_before_cycles [OF y bnd] leap_cycles [OF y bnd]
  consider "e < 3" | "e = 3" "c < 24" | "e = 3" "c = 24" "b < 3" | "e = 3" "c = 24" "b = 3"
    using bnd by linarith
  then show ?thesis
  proof cases
    case 1
    then have "Suc y = 400 * a + 100 * b + 4 * c + (e + 1) + 1" using y by simp
    from days_before_cycles [OF this] show ?thesis using bnd 1 now by (simp add: year_days_def)
  next
    case 2
    then have "Suc y = 400 * a + 100 * b + 4 * (c + 1) + 0 + 1" using y by simp
    from days_before_cycles [OF this] show ?thesis using bnd 2 now by (simp add: year_days_def)
  next
    case 3
    then have "Suc y = 400 * a + 100 * (b + 1) + 4 * 0 + 0 + 1" using y by simp
    from days_before_cycles [OF this] show ?thesis using bnd 3 now by (simp add: year_days_def)
  next
    case 4
    then have "Suc y = 400 * (a + 1) + 100 * 0 + 4 * 0 + 0 + 1" using y by simp
    from days_before_cycles [OF this] show ?thesis using bnd 4 now by (simp add: year_days_def)
  qed
qed

lemma days_before_year_mono:
  assumes "1 \<le> y" "y < y'"
  shows "days_before_year y + year_days y \<le> days_before_year y'"
proof -
  have "days_before_year (Suc y) \<le> days_before_year (Suc y + k)" for k
  proof (induction k)
    case (Suc k)
    have "days_before_year (Suc (Suc y + k)) = days_before_year (Suc y + k) + year_days (Suc y + k)"
      by (rule days_before_year_Suc) simp
    with Suc show ?case by simp
  qed simp
  from this [of "y' - Suc y"] show ?thesis
    using assms days_before_year_Suc [of y] by simp
qed

lemma days_before_month_mono:
  assumes "1 \<le> m" "m < m'" "m' \<le> 12"
  shows "days_before_month lp m + month_days lp m \<le> days_before_month lp m'"
proof -
  have "m = 1 \<or> m = 2 \<or> m = 3 \<or> m = 4 \<or> m = 5 \<or> m = 6 \<or> m = 7 \<or> m = 8 \<or> m = 9
    \<or> m = 10 \<or> m = 11" using assms by presburger
  moreover have "m' = 2 \<or> m' = 3 \<or> m' = 4 \<or> m' = 5 \<or> m' = 6 \<or> m' = 7 \<or> m' = 8 \<or> m' = 9
    \<or> m' = 10 \<or> m' = 11 \<or> m' = 12" using assms by presburger
  ultimately show ?thesis using assms(2)
    by (cases lp) (elim disjE; simp add: days_before_month_def month_days_def)+
qed

lemma day_of_year_bound:
  assumes "1 \<le> m" "m \<le> 12" "d \<le> month_days lp m"
  shows "days_before_month lp m + d \<le> (if lp then 366 else 365)"
proof -
  have "m = 1 \<or> m = 2 \<or> m = 3 \<or> m = 4 \<or> m = 5 \<or> m = 6 \<or> m = 7 \<or> m = 8 \<or> m = 9
    \<or> m = 10 \<or> m = 11 \<or> m = 12" using assms by presburger
  then show ?thesis using assms(3)
    by (cases lp) (elim disjE; simp add: days_before_month_def month_days_def)+
qed

text \<open>On valid dates the day number is strictly increasing, so dates order as days do.\<close>

lemma ymd2ord_strict:
  assumes p: "valid_ymd (y, m, d)" and q: "valid_ymd (y', m', d')"
    and less: "y < y' \<or> y = y' \<and> (m < m' \<or> m = m' \<and> d < d')"
  shows "ymd2ord (y, m, d) < ymd2ord (y', m', d')"
proof -
  have d: "days_before_month (leap y) m + d \<le> year_days y" "1 \<le> d"
    using day_of_year_bound [of m d "leap y"] p by (auto simp: valid_ymd_def year_days_def)
  consider "y < y'" | "y = y'" "m < m'" | "y = y'" "m = m'" "d < d'" using less by blast
  then show ?thesis
  proof cases
    case 1
    then show ?thesis using days_before_year_mono [of y y'] d p
      by (simp add: ymd2ord_def valid_ymd_def)
  next
    case 2
    then show ?thesis using days_before_month_mono [of m m' "leap y"] p q
      by (auto simp: ymd2ord_def valid_ymd_def)
  next
    case 3
    then show ?thesis using p by (auto simp: ymd2ord_def valid_ymd_def)
  qed
qed

lemma ord2ymd_strict:
  assumes "a < b" "ord2ymd a = (y, m, d)" "ord2ymd b = (y', m', d')"
  shows "y < y' \<or> y = y' \<and> (m < m' \<or> m = m' \<and> d < d')"
proof (rule ccontr)
  assume no: "\<not> ?thesis"
  have v: "valid_ymd (y, m, d)" "ymd2ord (y, m, d) = a"
    "valid_ymd (y', m', d')" "ymd2ord (y', m', d') = b"
    using ord2ymd_valid [of a] ord2ymd_valid [of b] assms by auto
  from no consider "(y, m, d) = (y', m', d')"
    | "y' < y \<or> y' = y \<and> (m' < m \<or> m' = m \<and> d' < d)"
    by fastforce
  then have "ymd2ord (y', m', d') \<le> ymd2ord (y, m, d)"
    using ymd2ord_strict [OF v(3,1)] by cases auto
  with v assms(1) show False by simp
qed

lemma ord2ymd_year_bound:
  assumes "a < 3652059" "ord2ymd a = (y, m, d)"
  shows "y < 10000"
proof (rule ccontr)
  assume "\<not> y < 10000"
  then have "days_before_year 9999 + year_days 9999 \<le> days_before_year y"
    by (intro days_before_year_mono) auto
  moreover have "days_before_year y \<le> a"
    using ord2ymd_valid [of a] assms(2) by (auto simp: ymd2ord_def)
  moreover have "days_before_year 9999 + year_days 9999 = 3652059"
    by (simp add: days_before_year_def year_days_def leap_def)
  ultimately show False using assms(1) by simp
qed

section \<open>ISO-8601 text\<close>

text \<open>\<^verbatim>\<open>isoformat()\<close> of a UTC value: microseconds are written only when not zero.\<close>

definition iso_date :: "nat \<Rightarrow> string" where
  "iso_date day =
     (case ord2ymd day of (y, m, d) \<Rightarrow>
        pad_digits 4 y @ ''-'' @ pad_digits 2 m @ ''-'' @ pad_digits 2 d)"

definition iso_clock :: "nat \<Rightarrow> string" where
  "iso_clock secs =
     pad_digits 2 (secs div 3600) @ '':'' @ pad_digits 2 (secs div 60 mod 60) @ '':''
       @ pad_digits 2 (secs mod 60)"

definition iso_fraction :: "nat \<Rightarrow> string" where
  "iso_fraction us = (if us = 0 then [] else ''.'' @ pad_digits 6 us)"

definition isoformat :: "datetime \<Rightarrow> string" where
  "isoformat d =
     (let n = nat (dt_wall d); secs = n div 1000000
      in iso_date (secs div 86400) @ ''T'' @ iso_clock (secs mod 86400)
           @ iso_fraction (n mod 1000000) @ ''+00:00'')"

subsection \<open>Comparing texts\<close>

lemma div_mod_less_iff:
  fixes a b k :: nat
  assumes "0 < k"
  shows "a < b \<longleftrightarrow> a div k < b div k \<or> a div k = b div k \<and> a mod k < b mod k"
proof -
  have e: "a = k * (a div k) + a mod k" "b = k * (b div k) + b mod k" by simp_all
  have "a div k \<le> b div k" if "a < b" using that by (simp add: div_le_mono)
  moreover have "a < b" if "a div k < b div k"
    using that by (meson div_le_mono leD leI)
  ultimately show ?thesis using e by (metis le_neq_implies_less nat_add_left_cancel_less)
qed

lemma append_less_iff:
  fixes a c :: string
  assumes "length a = length c"
  shows "a @ b < c @ d \<longleftrightarrow> a < c \<or> a = c \<and> b < d"
  using assms by (induction a c rule: list_induct2) auto

lemma digit_less_iff:
  assumes "a < 10" "b < 10"
  shows "digit a < digit b \<longleftrightarrow> a < b"
  using code_point_digit [OF assms(1)] code_point_digit [OF assms(2)]
  by (simp add: less_char_def code_point_def)

lemma digit_eq_iff: "a < 10 \<Longrightarrow> b < 10 \<Longrightarrow> digit a = digit b \<longleftrightarrow> a = b"
  by (metis digit_val_digit)

lemma pad_digits_eq_iff:
  "a < 10 ^ w \<Longrightarrow> b < 10 ^ w \<Longrightarrow> pad_digits w a = pad_digits w b \<longleftrightarrow> a = b"
  by (metis read_pad_digits)

lemma pad_digits_less_iff:
  "a < 10 ^ w \<Longrightarrow> b < 10 ^ w \<Longrightarrow> pad_digits w a < pad_digits w b \<longleftrightarrow> a < b"
proof (induction w arbitrary: a b)
  case 0
  then show ?case by simp
next
  case (Suc w)
  have d: "a div 10 < 10 ^ w" "b div 10 < 10 ^ w" using Suc.prems by auto
  have "pad_digits (Suc w) a < pad_digits (Suc w) b \<longleftrightarrow>
      a div 10 < b div 10 \<or> a div 10 = b div 10 \<and> a mod 10 < b mod 10"
    using Suc.IH [OF d] pad_digits_eq_iff [OF d]
    by (simp add: append_less_iff digit_less_iff)
  also have "\<dots> \<longleftrightarrow> a < b" by (rule div_mod_less_iff [symmetric]) simp
  finally show ?case .
qed

lemma iso_date_length [simp]: "length (iso_date a) = 10"
  by (simp add: iso_date_def split: prod.split)

lemma iso_clock_length [simp]: "length (iso_clock a) = 8"
  by (simp add: iso_clock_def)

lemma iso_date_less:
  assumes "a < b" "b < 3652059"
  shows "iso_date a < iso_date b"
proof -
  obtain y m d where A: "ord2ymd a = (y, m, d)" by (cases "ord2ymd a")
  obtain y' m' d' where B: "ord2ymd b = (y', m', d')" by (cases "ord2ymd b")
  have "month_days lp k \<le> 31" for lp k by (simp add: month_days_def)
  then have "d \<le> 31" "d' \<le> 31"
    using ord2ymd_valid [of a] ord2ymd_valid [of b] A B
    by (auto simp: valid_ymd_def intro: order_trans)
  then have bounds: "y < 10 ^ 4" "y' < 10 ^ 4" "m < 10 ^ 2" "m' < 10 ^ 2" "d < 10 ^ 2" "d' < 10 ^ 2"
    using ord2ymd_valid [of a] ord2ymd_valid [of b] A B assms
      ord2ymd_year_bound [of a y m d] ord2ymd_year_bound [of b y' m' d']
    by (auto simp: valid_ymd_def)
  show ?thesis using ord2ymd_strict [OF assms(1) A B]
    by (auto simp: iso_date_def A B append_less_iff pad_digits_less_iff [OF bounds(1,2)]
        pad_digits_less_iff [OF bounds(3,4)] pad_digits_less_iff [OF bounds(5,6)])
qed

lemma iso_clock_less:
  assumes "a < b" "b < 86400"
  shows "iso_clock a < iso_clock b"
proof -
  have h: "a div 3600 < 10 ^ 2" "b div 3600 < 10 ^ 2" using assms by auto
  have m: "a div 60 mod 60 < 10 ^ 2" "b div 60 mod 60 < 10 ^ 2"
    by (rule less_trans [of _ 60], simp, simp)+
  have s: "a mod 60 < 10 ^ 2" "b mod 60 < 10 ^ 2"
    by (rule less_trans [of _ 60], simp, simp)+
  have hb: "a div 60 div 60 = a div 3600" "b div 60 div 60 = b div 3600"
    by (simp_all add: div_mult2_eq [symmetric])
  have "a div 3600 < b div 3600 \<or> a div 3600 = b div 3600 \<and>
      (a div 60 mod 60 < b div 60 mod 60 \<or> a div 60 mod 60 = b div 60 mod 60 \<and> a mod 60 < b mod 60)"
    using assms(1) div_mod_less_iff [of 60 a b] div_mod_less_iff [of 60 "a div 60" "b div 60"]
      div_mod_less_iff [of 60 "b div 60" "a div 60"] hb
    by (metis less_irrefl zero_less_numeral linorder_neqE_nat mult_div_mod_eq)
  then show ?thesis
    by (auto simp: iso_clock_def append_less_iff pad_digits_less_iff [OF h]
        pad_digits_less_iff [OF m] pad_digits_less_iff [OF s])
qed

lemma iso_fraction_less:
  assumes "a < b" "b < 1000000"
  shows "iso_fraction a @ ''+00:00'' < iso_fraction b @ ''+00:00''"
  using assms
  by (auto simp: iso_fraction_def append_less_iff pad_digits_less_iff [of _ 6] less_char_def)

lemma isoformat_less:
  assumes v: "valid_wall a" "valid_wall b" and less: "a < b"
  shows "isoformat (utc_dt a) < isoformat (utc_dt b)"
proof -
  define m n where mn: "m = nat a" "n = nat b"
  have "m < n" "n < 3652059 * 86400000000"
    using v less unfolding mn valid_wall_def max_wall_def by auto
  define sa sb where s: "sa = m div 1000000" "sb = n div 1000000"
  have "sa \<le> sb" unfolding s using \<open>m < n\<close> by (simp add: div_le_mono)
  have sb: "sb < 3652059 * 86400"
    unfolding s using \<open>n < _\<close> by (simp add: div_less_iff_less_mult)
  consider "sa div 86400 < sb div 86400"
    | "sa div 86400 = sb div 86400" "sa mod 86400 < sb mod 86400"
    | "sa = sb" "m mod 1000000 < n mod 1000000"
  proof -
    have e: "sa = 86400 * (sa div 86400) + sa mod 86400" "sb = 86400 * (sb div 86400) + sb mod 86400"
      "m = 1000000 * sa + m mod 1000000" "n = 1000000 * sb + n mod 1000000"
      unfolding s by (rule mult_div_mod_eq [symmetric])+
    have "sa div 86400 \<le> sb div 86400" using \<open>sa \<le> sb\<close> by (rule div_le_mono)
    then show thesis using that e \<open>m < n\<close> \<open>sa \<le> sb\<close> by linarith
  qed
  then show ?thesis
  proof cases
    case 1
    have "sb div 86400 < 3652059" using sb by (simp add: div_less_iff_less_mult)
    from iso_date_less [OF 1 this] show ?thesis
      by (simp add: isoformat_def Let_def mn [symmetric] s [symmetric] append_less_iff)
  next
    case 2
    have "sb mod 86400 < 86400" by simp
    from iso_clock_less [OF 2(2) this] 2(1) show ?thesis
      by (simp add: isoformat_def Let_def mn [symmetric] s [symmetric] append_less_iff)
  next
    case 3
    have "n mod 1000000 < 1000000" by simp
    from iso_fraction_less [OF 3(2) this] 3(1) show ?thesis
      by (simp add: isoformat_def Let_def mn [symmetric] s [symmetric] append_less_iff)
  qed
qed

lemma isoformat_less_iff:
  assumes "utc_ok a" "utc_ok b"
  shows "isoformat a < isoformat b \<longleftrightarrow> dt_wall a < dt_wall b"
proof -
  have v: "valid_wall (dt_wall a)" "valid_wall (dt_wall b)"
    using assms by (auto simp: utc_ok_def)
  show ?thesis
    using isoformat_less [OF v] isoformat_less [OF v(2,1)]
      utc_ok_eq [OF assms(1)] utc_ok_eq [OF assms(2)]
    by (metis less_asym less_irrefl linorder_cases)
qed

lemma isoformat_le_iff:
  assumes "utc_ok a" "utc_ok b"
  shows "isoformat a \<le> isoformat b \<longleftrightarrow> dt_wall a \<le> dt_wall b"
  using isoformat_less_iff [OF assms(2,1)] by (simp add: not_less [symmetric])

subsection \<open>Reading a text back\<close>

text \<open>
  \<^verbatim>\<open>datetime.fromisoformat\<close> on the extended format \<open>YYYY-MM-DD*HH:MM:SS[.ffffff][offset]\<close>
  (any separator at \<open>*\<close>; the offset is missing, \<open>Z\<close> or \<open>+HH:MM\<close>), which is all
  \<^verbatim>\<open>isoformat\<close> writes for the values of the gateway; the other spellings Python accepts
  are a ValueError here.
\<close>

definition iso_error :: "'a result" where
  "iso_error = Inl (exn PyValueError ''Invalid isoformat string'')"

definition digits_at :: "string \<Rightarrow> nat \<Rightarrow> nat \<Rightarrow> nat option" where
  "digits_at s i n =
     (let x = take n (drop i s)
      in if length x = n \<and> list_all is_digit x then Some (read_nat x) else None)"

definition char_at :: "string \<Rightarrow> nat \<Rightarrow> char option" where
  "char_at s i = (case drop i s of [] \<Rightarrow> None | c # _ \<Rightarrow> Some c)"

definition read_offset :: "string \<Rightarrow> int option result" where
  "read_offset s =
     (if s = [] then Inr None
      else if s = ''Z'' then Inr (Some 0)
      else case (digits_at s 1 2, digits_at s 4 2) of
          (Some h, Some m) \<Rightarrow>
            if length s = 6 \<and> char_at s 3 = Some CHR '':'' \<and> h < 24 \<and> m < 60
               \<and> char_at s 0 \<in> {Some CHR ''+'', Some CHR ''-''}
            then Inr (Some ((if char_at s 0 = Some CHR ''-'' then -1 else 1)
                 * int ((h * 60 + m) * 60000000)))
            else iso_error
        | _ \<Rightarrow> iso_error)"

definition read_fraction :: "string \<Rightarrow> nat \<times> string" where
  "read_fraction s =
     (case (char_at s 0, digits_at s 1 6) of
        (Some c, Some us) \<Rightarrow> if c = CHR ''.'' then (us, drop 7 s) else (0, s)
      | _ \<Rightarrow> (0, s))"

definition read_fields :: "string \<Rightarrow> (nat \<times> nat \<times> nat) option" where
  "read_fields s =
     (case (digits_at s 0 4, digits_at s 5 2, digits_at s 8 2) of
        (Some y, Some m, Some d) \<Rightarrow>
          if valid_ymd (y, m, d) \<and> char_at s 4 = Some CHR ''-'' \<and> char_at s 7 = Some CHR ''-''
          then Some (y, m, d) else None
      | _ \<Rightarrow> None)"

definition read_clock :: "string \<Rightarrow> nat option" where
  "read_clock s =
     (case (digits_at s 0 2, digits_at s 3 2, digits_at s 6 2) of
        (Some h, Some m, Some sec) \<Rightarrow>
          if h < 24 \<and> m < 60 \<and> sec < 60 \<and> char_at s 2 = Some CHR '':'' \<and> char_at s 5 = Some CHR '':''
          then Some (h * 3600 + m * 60 + sec) else None
      | _ \<Rightarrow> None)"

definition fromisoformat :: "string \<Rightarrow> datetime result" where
  "fromisoformat s =
     (case (read_fields (take 10 s), read_clock (take 8 (drop 11 s))) of
        (Some p, Some secs) \<Rightarrow>
          (case read_fraction (drop 19 s) of
             (us, off) \<Rightarrow>
               rbind (read_offset off) (\<lambda>o'.
                 Inr \<lparr>dt_wall = int ((ymd2ord p * 86400 + secs) * 1000000 + us), dt_offset = o'\<rparr>))
      | _ \<Rightarrow> iso_error)"

lemma pad_digits_is_digit: "list_all is_digit (pad_digits w n)"
  by (induction w arbitrary: n) (auto simp: is_digit_def code_point_digit)

lemma digits_at_pad:
  assumes "length pre = i" "n < 10 ^ w"
  shows "digits_at (pre @ pad_digits w n @ post) i w = Some n"
  using assms by (simp add: digits_at_def pad_digits_is_digit read_pad_digits)

lemma char_at_append: "length pre = i \<Longrightarrow> char_at (pre @ c # post) i = Some c"
  by (simp add: char_at_def)

lemma read_fields_iso_date:
  assumes "day < 3652059"
  shows "read_fields (iso_date day) = Some (ord2ymd day)"
proof -
  obtain y m d where o: "ord2ymd day = (y, m, d)" by (cases "ord2ymd day")
  have v: "valid_ymd (y, m, d)" using ord2ymd_valid [of day] o by simp
  have "month_days (leap y) m \<le> 31" by (simp add: month_days_def)
  then have b: "y < 10 ^ 4" "m < 10 ^ 2" "d < 10 ^ 2"
    using v ord2ymd_year_bound [OF assms o] by (auto simp: valid_ymd_def)
  let ?s = "iso_date day"
  have s: "?s = pad_digits 4 y @ ''-'' @ pad_digits 2 m @ ''-'' @ pad_digits 2 d"
    by (simp add: iso_date_def o)
  have "digits_at ?s 0 4 = Some y"
    unfolding s using digits_at_pad [of "[]" 0 y 4] b by simp
  moreover have "digits_at ?s 5 2 = Some m"
    unfolding s using digits_at_pad [of "pad_digits 4 y @ ''-''" 5 m 2] b by simp
  moreover have "digits_at ?s 8 2 = Some d"
    unfolding s
    using digits_at_pad [of "pad_digits 4 y @ ''-'' @ pad_digits 2 m @ ''-''" 8 d 2 "[]"] b by simp
  moreover have "char_at ?s 4 = Some CHR ''-''"
    unfolding s using char_at_append [of "pad_digits 4 y" 4] by simp
  moreover have "char_at ?s 7 = Some CHR ''-''"
    unfolding s using char_at_append [of "pad_digits 4 y @ ''-'' @ pad_digits 2 m" 7] by simp
  ultimately show ?thesis using v o by (simp add: read_fields_def)
qed

lemma read_clock_iso_clock:
  assumes "secs < 86400"
  shows "read_clock (iso_clock secs) = Some secs"
proof -
  let ?h = "secs div 3600" and ?m = "secs div 60 mod 60" and ?s = "secs mod 60"
  let ?t = "iso_clock secs"
  have b: "?h < 24" "?m < 60" "?s < 60" using assms by auto
  then have b2: "?h < 10 ^ 2" "?m < 10 ^ 2" "?s < 10 ^ 2" by auto
  have t: "?t = pad_digits 2 ?h @ '':'' @ pad_digits 2 ?m @ '':'' @ pad_digits 2 ?s"
    by (simp add: iso_clock_def)
  have "digits_at ?t 0 2 = Some ?h"
    unfolding t using digits_at_pad [of "[]" 0 ?h 2] b2 by simp
  moreover have "digits_at ?t 3 2 = Some ?m"
    unfolding t using digits_at_pad [of "pad_digits 2 ?h @ '':''" 3 ?m 2] b2 by simp
  moreover have "digits_at ?t 6 2 = Some ?s"
    unfolding t
    using digits_at_pad [of "pad_digits 2 ?h @ '':'' @ pad_digits 2 ?m @ '':''" 6 ?s 2 "[]"] b2
    by simp
  moreover have "char_at ?t 2 = Some CHR '':''"
    unfolding t using char_at_append [of "pad_digits 2 ?h" 2] by simp
  moreover have "char_at ?t 5 = Some CHR '':''"
    unfolding t using char_at_append [of "pad_digits 2 ?h @ '':'' @ pad_digits 2 ?m" 5] by simp
  moreover have "?h * 3600 + ?m * 60 + ?s = secs"
  proof -
    have "secs div 60 div 60 = secs div 3600" by (simp add: div_mult2_eq [symmetric])
    then have "secs div 60 = 60 * (secs div 3600) + ?m"
      using mult_div_mod_eq [of 60 "secs div 60"] by simp
    moreover have "secs = 60 * (secs div 60) + ?s" by (rule mult_div_mod_eq [symmetric])
    ultimately show ?thesis by linarith
  qed
  ultimately show ?thesis using b by (simp add: read_clock_def)
qed

lemma read_fraction_iso:
  assumes "us < 1000000"
  shows "read_fraction (iso_fraction us @ ''+00:00'') = (us, ''+00:00'')"
proof (cases "us = 0")
  case True
  then show ?thesis
    by (simp add: read_fraction_def iso_fraction_def char_at_def split: option.splits)
next
  case False
  have "digits_at (''.'' @ pad_digits 6 us @ ''+00:00'') 1 6 = Some us"
    using digits_at_pad [of "''.''" 1 us 6] assms by simp
  with False show ?thesis
    by (simp add: read_fraction_def iso_fraction_def char_at_def)
qed

lemma read_offset_utc: "read_offset ''+00:00'' = Inr (Some 0)"
  by (simp add: read_offset_def digits_at_def char_at_def is_digit_def code_point_def
      read_nat_def digit_val_def)

lemma fromisoformat_isoformat:
  assumes "utc_ok d"
  shows "fromisoformat (isoformat d) = Inr d"
proof -
  define n where "n = nat (dt_wall d)"
  define secs where "secs = n div 1000000"
  have w: "dt_wall d = int n" "n < 3652059 * 86400000000"
    using assms by (auto simp: n_def utc_ok_def valid_wall_def max_wall_def)
  then have "secs < 3652059 * 86400" by (simp add: secs_def div_less_iff_less_mult)
  then have day: "secs div 86400 < 3652059" by (simp add: div_less_iff_less_mult)
  have i: "isoformat d = iso_date (secs div 86400) @ ''T'' @ iso_clock (secs mod 86400)
      @ iso_fraction (n mod 1000000) @ ''+00:00''"
    by (simp add: isoformat_def n_def secs_def Let_def)
  have "ymd2ord (ord2ymd (secs div 86400)) = secs div 86400" using ord2ymd_valid by blast
  then have total: "(ymd2ord (ord2ymd (secs div 86400)) * 86400 + secs mod 86400) * 1000000
      + n mod 1000000 = n"
    by (simp add: secs_def)
  have "fromisoformat (isoformat d) = Inr \<lparr>dt_wall = int n, dt_offset = Some 0\<rparr>"
    unfolding fromisoformat_def i
    using read_fields_iso_date [OF day] read_clock_iso_clock [of "secs mod 86400"]
      read_fraction_iso [of "n mod 1000000"] total
    by (simp add: read_offset_utc)
  then show ?thesis using assms w(1) by (cases d) (simp add: utc_ok_def)
qed

lemma isoformat_inj: "utc_ok a \<Longrightarrow> utc_ok b \<Longrightarrow> isoformat a = isoformat b \<Longrightarrow> a = b"
  by (metis fromisoformat_isoformat sum.inject(2))

section \<open>Properties\<close>

text \<open>
  The stored timestamp texts sort as the instants do: the text of one UTC datetime is
  lexicographically before that of another exactly if it is earlier, with or without a
  fraction of a second.
\<close>

lemma iso_text_order:
  assumes "utc_ok a" "utc_ok b"
  shows "(isoformat a < isoformat b \<longleftrightarrow> dt_wall a < dt_wall b) \<and>
    (isoformat a \<le> isoformat b \<longleftrightarrow> dt_wall a \<le> dt_wall b)"
  using isoformat_less_iff [OF assms] isoformat_le_iff [OF assms] by simp

text \<open>
  Reading back the ISO text of a UTC datetime gives the datetime, for every microsecond
  of the years 1 to 9999.
\<close>

lemma iso_round_trip:
  assumes "utc_ok d"
  shows "fromisoformat (isoformat d) = Inr d"
  using fromisoformat_isoformat [OF assms] .

end
