(* ===== verification/Domain.thy ===== *)
theory Domain
  imports Py_Time
begin

text \<open>
  The domain models of src/plc_gateway/domain/models.py: the enumerations, the frozen
  dataclasses as records, and one constructor per dataclass that performs its
  \<^verbatim>\<open>__post_init__\<close>. A predicate \<open>..._ok\<close> states what a validated object satisfies; each
  constructor establishes it (collection \<open>post_init\<close>) and is the identity on the fields
  of an object that satisfies it.
\<close>

section \<open>Enumerations\<close>

datatype quality = Q_Good | Q_Uncertain | Q_Bad

datatype value_type = VT_Numeric | VT_Integer | VT_Boolean | VT_Text | VT_Binary

datatype worker_state =
  WS_Stopped | WS_Starting | WS_Running | WS_Degraded | WS_Stopping | WS_Failed

datatype overlap_policy = OP_Skip

datatype poll_status =
  PS_Running | PS_Success | PS_Partial_Failure | PS_Failed | PS_Skipped | PS_Cancelled

fun quality_value :: "quality \<Rightarrow> string" where
  "quality_value Q_Good = ''good''"
| "quality_value Q_Uncertain = ''uncertain''"
| "quality_value Q_Bad = ''bad''"

fun value_type_value :: "value_type \<Rightarrow> string" where
  "value_type_value VT_Numeric = ''numeric''"
| "value_type_value VT_Integer = ''integer''"
| "value_type_value VT_Boolean = ''boolean''"
| "value_type_value VT_Text = ''text''"
| "value_type_value VT_Binary = ''binary''"

fun worker_state_value :: "worker_state \<Rightarrow> string" where
  "worker_state_value WS_Stopped = ''stopped''"
| "worker_state_value WS_Starting = ''starting''"
| "worker_state_value WS_Running = ''running''"
| "worker_state_value WS_Degraded = ''degraded''"
| "worker_state_value WS_Stopping = ''stopping''"
| "worker_state_value WS_Failed = ''failed''"

fun overlap_policy_value :: "overlap_policy \<Rightarrow> string" where
  "overlap_policy_value OP_Skip = ''skip''"

fun poll_status_value :: "poll_status \<Rightarrow> string" where
  "poll_status_value PS_Running = ''running''"
| "poll_status_value PS_Success = ''success''"
| "poll_status_value PS_Partial_Failure = ''partial_failure''"
| "poll_status_value PS_Failed = ''failed''"
| "poll_status_value PS_Skipped = ''skipped''"
| "poll_status_value PS_Cancelled = ''cancelled''"

text \<open>Calling the enumeration with a value, \<^verbatim>\<open>Quality("good")\<close>: ValueError if there is none.\<close>

definition enum_of :: "string \<Rightarrow> ('a \<Rightarrow> string) \<Rightarrow> 'a list \<Rightarrow> string \<Rightarrow> 'a result" where
  "enum_of cls value members s =
     (case find (\<lambda>x. value x = s) members of
        None \<Rightarrow> Inl (exn PyValueError (quoted s @ '' is not a valid '' @ cls))
      | Some x \<Rightarrow> Inr x)"

definition quality_of :: "string \<Rightarrow> quality result" where
  "quality_of = enum_of ''Quality'' quality_value [Q_Good, Q_Uncertain, Q_Bad]"

definition value_type_of :: "string \<Rightarrow> value_type result" where
  "value_type_of =
     enum_of ''ValueType'' value_type_value [VT_Numeric, VT_Integer, VT_Boolean, VT_Text, VT_Binary]"

definition poll_status_of :: "string \<Rightarrow> poll_status result" where
  "poll_status_of = enum_of ''PollStatus'' poll_status_value
     [PS_Running, PS_Success, PS_Partial_Failure, PS_Failed, PS_Skipped, PS_Cancelled]"

lemma enum_round_trips [simp]:
  "quality_of (quality_value q) = Inr q"
  "value_type_of (value_type_value v) = Inr v"
  "poll_status_of (poll_status_value p) = Inr p"
proof -
  show "quality_of (quality_value q) = Inr q"
    by (cases q) (simp_all add: quality_of_def enum_of_def)
  show "value_type_of (value_type_value v) = Inr v"
    by (cases v) (simp_all add: value_type_of_def enum_of_def)
  show "poll_status_of (poll_status_value p) = Inr p"
    by (cases p) (simp_all add: poll_status_of_def enum_of_def)
qed

section \<open>Field validators\<close>

definition config_error :: "string \<Rightarrow> 'a result" where
  "config_error m = Inl (exn ConfigurationError m)"

definition set_stripped :: "string \<Rightarrow> string \<Rightarrow> string result" where
  "set_stripped field v =
     (let stripped = py_strip v
      in if stripped = [] then config_error (field @ '' cannot be empty.'') else Inr stripped)"

definition set_optional_stripped :: "string option \<Rightarrow> string option" where
  "set_optional_stripped v =
     (case v of None \<Rightarrow> None
      | Some s \<Rightarrow> (let stripped = py_strip s in if stripped = [] then None else Some stripped))"

fun require_positive_int :: "int_arg \<Rightarrow> string \<Rightarrow> int result" where
  "require_positive_int (ABool b) field = config_error (field @ '' must be a positive integer.'')"
| "require_positive_int (AInt n) field =
     (if n \<le> 0 then config_error (field @ '' must be a positive integer.'') else Inr n)"

fun require_non_negative_int :: "int_arg \<Rightarrow> string \<Rightarrow> int result" where
  "require_non_negative_int (ABool b) field =
     config_error (field @ '' must be a non-negative integer.'')"
| "require_non_negative_int (AInt n) field =
     (if n < 0 then config_error (field @ '' must be a non-negative integer.'') else Inr n)"

definition require_utc :: "datetime \<Rightarrow> string \<Rightarrow> datetime result" where
  "require_utc d field =
     (case dt_offset d of
        None \<Rightarrow> config_error (field @ '' must be timezone-aware.'')
      | Some off \<Rightarrow> astimezone_utc (dt_wall d) off)"

fun require_utc_option :: "datetime option \<Rightarrow> string \<Rightarrow> datetime option result" where
  "require_utc_option None field = Inr None"
| "require_utc_option (Some d) field = rbind (require_utc d field) (\<lambda>d'. Inr (Some d'))"

definition stripped :: "string \<Rightarrow> bool" where
  "stripped s \<longleftrightarrow> s \<noteq> [] \<and> py_strip s = s"

definition stripped_option :: "string option \<Rightarrow> bool" where
  "stripped_option v \<longleftrightarrow> (case v of None \<Rightarrow> True | Some s \<Rightarrow> stripped s)"

definition utc_option :: "datetime option \<Rightarrow> bool" where
  "utc_option v \<longleftrightarrow> (case v of None \<Rightarrow> True | Some d \<Rightarrow> utc_ok d)"

lemma set_stripped_ok [post_init]: "set_stripped field v = Inr s \<Longrightarrow> stripped s"
  by (auto simp: set_stripped_def stripped_def Let_def config_error_def split: if_splits)

lemma set_stripped_id [simp]: "stripped s \<Longrightarrow> set_stripped field s = Inr s"
  by (simp add: set_stripped_def stripped_def Let_def)

lemma set_stripped_Inr: "set_stripped field v = Inr s \<longleftrightarrow> s = py_strip v \<and> s \<noteq> []"
  by (auto simp: set_stripped_def Let_def config_error_def)

lemma stripped_py_strip [simp]: "stripped (py_strip v) \<longleftrightarrow> py_strip v \<noteq> []"
  by (simp add: stripped_def)

lemma set_optional_stripped_ok [simp, post_init]: "stripped_option (set_optional_stripped v)"
  by (auto simp: set_optional_stripped_def stripped_option_def stripped_def Let_def
      split: option.splits if_splits)

lemma set_optional_stripped_Some [post_init]: "set_optional_stripped v = Some s \<Longrightarrow> stripped s"
  using set_optional_stripped_ok [of v] by (simp add: stripped_option_def)

lemma stripped_option_simps [simp]:
  "stripped_option None" "stripped_option (Some s) \<longleftrightarrow> stripped s"
  by (simp_all add: stripped_option_def)

lemma utc_option_simps [simp]:
  "utc_option None" "utc_option (Some d) \<longleftrightarrow> utc_ok d"
  by (simp_all add: utc_option_def)

lemma set_optional_stripped_id [simp]: "stripped_option v \<Longrightarrow> set_optional_stripped v = v"
  by (auto simp: set_optional_stripped_def stripped_option_def stripped_def Let_def
      split: option.splits)

lemma require_positive_int_Inr [simp]:
  "require_positive_int a field = Inr n \<longleftrightarrow> a = AInt n \<and> 0 < n"
  by (cases a) (auto simp: config_error_def)

lemma require_non_negative_int_Inr [simp]:
  "require_non_negative_int a field = Inr n \<longleftrightarrow> a = AInt n \<and> 0 \<le> n"
  by (cases a) (auto simp: config_error_def)

lemma require_utc_ok [post_init]: "require_utc d field = Inr d' \<Longrightarrow> utc_ok d'"
  by (auto simp: require_utc_def config_error_def dest: astimezone_utc_ok split: option.splits)

lemma require_utc_id [simp]: "utc_ok d \<Longrightarrow> require_utc d field = Inr d"
  using astimezone_utc_id by (auto simp: require_utc_def utc_ok_def)

lemma require_utc_option_ok [post_init]: "require_utc_option v field = Inr v' \<Longrightarrow> utc_option v'"
  by (cases v) (auto simp: utc_option_def dest: require_utc_ok)

lemma require_utc_option_id [simp]: "utc_option v \<Longrightarrow> require_utc_option v field = Inr v"
  by (cases v) (auto simp: utc_option_def)

section \<open>TagValue\<close>

record tag_value =
  tv_type :: value_type
  tv_numeric :: "pyfloat option"
  tv_integer :: "int option"
  tv_boolean :: "bool option"
  tv_text :: "string option"
  tv_binary :: "bytes option"

definition no_payload :: "value_type \<Rightarrow> tag_value" where
  "no_payload vt = \<lparr>tv_type = vt, tv_numeric = None, tv_integer = None, tv_boolean = None,
     tv_text = None, tv_binary = None\<rparr>"

text \<open>\<^verbatim>\<open>float(value)\<close> for arguments of the static type \<^verbatim>\<open>float | int\<close>.\<close>

fun py_float :: "pyval \<Rightarrow> pyfloat result" where
  "py_float (PFloat f) = Inr f"
| "py_float (PInt n) =
     (case float_of_int n of
        None \<Rightarrow> Inl (exn PyOverflowError ''int too large to convert to float'')
      | Some f \<Rightarrow> Inr f)"
| "py_float (PBool b) = Inr (Fin (if b then 1 else 0))"
| "py_float _ = Inl (exn PyTypeError ''float() argument must be a string or a real number'')"

text \<open>
  \<^verbatim>\<open>TagValue(...)\<close> with \<^verbatim>\<open>__post_init__\<close>: the five payload arguments are any objects,
  \<open>PNone\<close> when not given.
\<close>

definition tag_value_new ::
  "value_type \<Rightarrow> pyval \<Rightarrow> pyval \<Rightarrow> pyval \<Rightarrow> pyval \<Rightarrow> pyval \<Rightarrow> tag_value result" where
  "tag_value_new vt n i b t bin =
     (let populated_count = length (filter (\<lambda>v. v \<noteq> PNone) [n, i, b, t, bin]);
          value = (case vt of VT_Numeric \<Rightarrow> n | VT_Integer \<Rightarrow> i | VT_Boolean \<Rightarrow> b
                   | VT_Text \<Rightarrow> t | VT_Binary \<Rightarrow> bin)
      in if populated_count \<noteq> 1 then config_error ''TagValue requires exactly one payload.''
         else if value = PNone then config_error ''TagValue payload must match value_type.''
         else case vt of
           VT_Numeric \<Rightarrow>
             (case value of
                PFloat f \<Rightarrow> Inr ((no_payload vt)\<lparr>tv_numeric := Some f\<rparr>)
              | PInt z \<Rightarrow> rbind (py_float (PInt z)) (\<lambda>f.
                  Inr ((no_payload vt)\<lparr>tv_numeric := Some f\<rparr>))
              | _ \<Rightarrow> config_error ''Numeric tag value must be int or float.'')
         | VT_Integer \<Rightarrow>
             (case value of
                PInt z \<Rightarrow> Inr ((no_payload vt)\<lparr>tv_integer := Some z\<rparr>)
              | _ \<Rightarrow> config_error ''Integer tag value must be int.'')
         | VT_Boolean \<Rightarrow>
             (case value of
                PBool x \<Rightarrow> Inr ((no_payload vt)\<lparr>tv_boolean := Some x\<rparr>)
              | _ \<Rightarrow> config_error ''Boolean tag value must be bool.'')
         | VT_Text \<Rightarrow>
             (case value of
                PStr s \<Rightarrow> Inr ((no_payload vt)\<lparr>tv_text := Some s\<rparr>)
              | _ \<Rightarrow> config_error ''Text tag value must be str.'')
         | VT_Binary \<Rightarrow>
             (case value of
                PBytes x \<Rightarrow> Inr ((no_payload vt)\<lparr>tv_binary := Some x\<rparr>)
              | _ \<Rightarrow> config_error ''Binary tag value must be bytes.''))"

definition is_bool :: "pyval \<Rightarrow> bool" where
  "is_bool v = (case v of PBool _ \<Rightarrow> True | _ \<Rightarrow> False)"

definition tag_value_numeric :: "pyval \<Rightarrow> tag_value result" where
  "tag_value_numeric v =
     (if is_bool v then config_error ''Numeric tag values cannot be booleans.''
      else rbind (py_float v) (\<lambda>f. tag_value_new VT_Numeric (PFloat f) PNone PNone PNone PNone))"

definition tag_value_integer :: "pyval \<Rightarrow> tag_value result" where
  "tag_value_integer v =
     (if is_bool v then config_error ''Integer tag values cannot be booleans.''
      else tag_value_new VT_Integer PNone v PNone PNone PNone)"

definition tag_value_boolean :: "pyval \<Rightarrow> tag_value result" where
  "tag_value_boolean v = tag_value_new VT_Boolean PNone PNone v PNone PNone"

definition tag_value_text :: "pyval \<Rightarrow> tag_value result" where
  "tag_value_text v = tag_value_new VT_Text PNone PNone PNone v PNone"

definition tag_value_binary :: "pyval \<Rightarrow> tag_value result" where
  "tag_value_binary v = tag_value_new VT_Binary PNone PNone PNone PNone v"

text \<open>The property \<^verbatim>\<open>raw\<close>.\<close>

definition tag_value_raw :: "tag_value \<Rightarrow> pyval result" where
  "tag_value_raw v =
     (case (tv_type v, tv_numeric v, tv_integer v, tv_boolean v, tv_text v, tv_binary v) of
        (VT_Numeric, Some f, _) \<Rightarrow> Inr (PFloat f)
      | (VT_Integer, _, Some z, _) \<Rightarrow> Inr (PInt z)
      | (VT_Boolean, _, _, Some b, _) \<Rightarrow> Inr (PBool b)
      | (VT_Text, _, _, _, Some s, _) \<Rightarrow> Inr (PStr s)
      | (VT_Binary, _, _, _, _, Some x) \<Rightarrow> Inr (PBytes x)
      | _ \<Rightarrow> config_error ''Tag value does not contain a matching payload.'')"

text \<open>Exactly the payload of the value's type is populated.\<close>

definition tag_value_ok :: "tag_value \<Rightarrow> bool" where
  "tag_value_ok v \<longleftrightarrow>
     (tv_numeric v \<noteq> None \<longleftrightarrow> tv_type v = VT_Numeric) \<and>
     (tv_integer v \<noteq> None \<longleftrightarrow> tv_type v = VT_Integer) \<and>
     (tv_boolean v \<noteq> None \<longleftrightarrow> tv_type v = VT_Boolean) \<and>
     (tv_text v \<noteq> None \<longleftrightarrow> tv_type v = VT_Text) \<and>
     (tv_binary v \<noteq> None \<longleftrightarrow> tv_type v = VT_Binary)"

lemma no_payload_simps [simp]:
  "tv_type (no_payload vt) = vt" "tv_numeric (no_payload vt) = None"
  "tv_integer (no_payload vt) = None" "tv_boolean (no_payload vt) = None"
  "tv_text (no_payload vt) = None" "tv_binary (no_payload vt) = None"
  by (simp_all add: no_payload_def)

lemma tag_value_new_ok [post_init]:
  "tag_value_new vt n i b t bin = Inr v \<Longrightarrow> tag_value_ok v \<and> tv_type v = vt"
  by (auto simp: tag_value_new_def config_error_def tag_value_ok_def Let_def
      split: if_splits value_type.splits pyval.splits)

lemma tag_value_ctor_simps [simp]:
  "tag_value_numeric (PFloat f) = Inr ((no_payload VT_Numeric)\<lparr>tv_numeric := Some f\<rparr>)"
  "tag_value_integer (PInt z) = Inr ((no_payload VT_Integer)\<lparr>tv_integer := Some z\<rparr>)"
  "tag_value_boolean (PBool x) = Inr ((no_payload VT_Boolean)\<lparr>tv_boolean := Some x\<rparr>)"
  "tag_value_text (PStr s) = Inr ((no_payload VT_Text)\<lparr>tv_text := Some s\<rparr>)"
  "tag_value_binary (PBytes y) = Inr ((no_payload VT_Binary)\<lparr>tv_binary := Some y\<rparr>)"
  by (simp_all add: tag_value_numeric_def tag_value_integer_def tag_value_boolean_def
      tag_value_text_def tag_value_binary_def tag_value_new_def is_bool_def)

lemma tag_value_ctor_ok [post_init]:
  "tag_value_numeric x = Inr v \<Longrightarrow> tag_value_ok v \<and> tv_type v = VT_Numeric"
  "tag_value_integer x = Inr v \<Longrightarrow> tag_value_ok v \<and> tv_type v = VT_Integer"
  "tag_value_boolean x = Inr v \<Longrightarrow> tag_value_ok v \<and> tv_type v = VT_Boolean"
  "tag_value_text x = Inr v \<Longrightarrow> tag_value_ok v \<and> tv_type v = VT_Text"
  "tag_value_binary x = Inr v \<Longrightarrow> tag_value_ok v \<and> tv_type v = VT_Binary"
  by (auto simp: tag_value_numeric_def tag_value_integer_def tag_value_boolean_def
      tag_value_text_def tag_value_binary_def config_error_def dest: tag_value_new_ok
      split: if_splits)

lemma tag_value_ok_cases:
  assumes "tag_value_ok v"
  obtains f where "v = (no_payload VT_Numeric)\<lparr>tv_numeric := Some f\<rparr>"
    | z where "v = (no_payload VT_Integer)\<lparr>tv_integer := Some z\<rparr>"
    | b where "v = (no_payload VT_Boolean)\<lparr>tv_boolean := Some b\<rparr>"
    | s where "v = (no_payload VT_Text)\<lparr>tv_text := Some s\<rparr>"
    | y where "v = (no_payload VT_Binary)\<lparr>tv_binary := Some y\<rparr>"
  using assms
  by (cases v; cases "tv_type v") (auto simp: tag_value_ok_def no_payload_def)

section \<open>Configuration records\<close>

type_synonym pydict = "(pyval \<times> pyval) list"

record connection_config =
  cc_id :: string
  cc_protocol :: string
  cc_endpoint :: string
  cc_enabled :: bool
  cc_timeout_ms :: int
  cc_protocol_options :: pydict

definition connection_config_new ::
  "string \<Rightarrow> string \<Rightarrow> string \<Rightarrow> bool \<Rightarrow> int_arg \<Rightarrow> pydict \<Rightarrow> connection_config result" where
  "connection_config_new i protocol endpoint enabled timeout_ms options =
     rbind (set_stripped ''id'' i) (\<lambda>i'.
     rbind (set_stripped ''protocol'' protocol) (\<lambda>p'.
     rbind (set_stripped ''endpoint'' endpoint) (\<lambda>e'.
     rbind (require_positive_int timeout_ms ''timeout_ms'') (\<lambda>t'.
       Inr \<lparr>cc_id = i', cc_protocol = p', cc_endpoint = e', cc_enabled = enabled,
            cc_timeout_ms = t', cc_protocol_options = options\<rparr>))))"

definition connection_ok :: "connection_config \<Rightarrow> bool" where
  "connection_ok c \<longleftrightarrow> stripped (cc_id c) \<and> stripped (cc_protocol c) \<and>
     stripped (cc_endpoint c) \<and> 0 < cc_timeout_ms c"

record tag_group_config =
  tg_id :: string
  tg_connection_id :: string
  tg_interval_ms :: int
  tg_timeout_ms :: int
  tg_overlap_policy :: overlap_policy
  tg_enabled :: bool

definition tag_group_config_new ::
  "string \<Rightarrow> string \<Rightarrow> int_arg \<Rightarrow> int_arg \<Rightarrow> overlap_policy \<Rightarrow> bool \<Rightarrow> tag_group_config result" where
  "tag_group_config_new i connection_id interval_ms timeout_ms policy enabled =
     rbind (set_stripped ''id'' i) (\<lambda>i'.
     rbind (set_stripped ''connection_id'' connection_id) (\<lambda>c'.
     rbind (require_positive_int interval_ms ''interval_ms'') (\<lambda>n'.
     rbind (require_positive_int timeout_ms ''timeout_ms'') (\<lambda>t'.
       Inr \<lparr>tg_id = i', tg_connection_id = c', tg_interval_ms = n', tg_timeout_ms = t',
            tg_overlap_policy = policy, tg_enabled = enabled\<rparr>))))"

definition tag_group_ok :: "tag_group_config \<Rightarrow> bool" where
  "tag_group_ok g \<longleftrightarrow> stripped (tg_id g) \<and> stripped (tg_connection_id g) \<and>
     0 < tg_interval_ms g \<and> 0 < tg_timeout_ms g"

record tag_config =
  tc_id :: string
  tc_tag_group_id :: string
  tc_name :: string
  tc_address :: string
  tc_value_type :: value_type
  tc_enabled :: bool
  tc_metadata :: pydict

definition tag_config_new ::
  "string \<Rightarrow> string \<Rightarrow> string \<Rightarrow> string \<Rightarrow> value_type \<Rightarrow> bool \<Rightarrow> pydict \<Rightarrow> tag_config result" where
  "tag_config_new i group_id name address vt enabled metadata =
     rbind (set_stripped ''id'' i) (\<lambda>i'.
     rbind (set_stripped ''tag_group_id'' group_id) (\<lambda>g'.
     rbind (set_stripped ''name'' name) (\<lambda>n'.
     rbind (set_stripped ''address'' address) (\<lambda>a'.
       Inr \<lparr>tc_id = i', tc_tag_group_id = g', tc_name = n', tc_address = a',
            tc_value_type = vt, tc_enabled = enabled, tc_metadata = metadata\<rparr>))))"

definition tag_ok :: "tag_config \<Rightarrow> bool" where
  "tag_ok t \<longleftrightarrow> stripped (tc_id t) \<and> stripped (tc_tag_group_id t) \<and>
     stripped (tc_name t) \<and> stripped (tc_address t)"

lemma connection_config_new_ok [post_init]:
  "connection_config_new i p e b t opts = Inr c \<Longrightarrow> connection_ok c"
  by (auto simp: connection_config_new_def connection_ok_def set_stripped_Inr)

lemma connection_config_new_id:
  "connection_ok c \<Longrightarrow> connection_config_new (cc_id c) (cc_protocol c) (cc_endpoint c)
     (cc_enabled c) (AInt (cc_timeout_ms c)) (cc_protocol_options c) = Inr c"
  by (simp add: connection_config_new_def connection_ok_def)

lemma tag_group_config_new_ok [post_init]:
  "tag_group_config_new i c n t p b = Inr g \<Longrightarrow> tag_group_ok g"
  by (auto simp: tag_group_config_new_def tag_group_ok_def set_stripped_Inr)

lemma tag_config_new_ok [post_init]:
  "tag_config_new i g n a vt b m = Inr t \<Longrightarrow> tag_ok t"
  by (auto simp: tag_config_new_def tag_ok_def set_stripped_Inr)

section \<open>TagRequest and TagResult\<close>

record tag_request =
  rq_tag_id :: string
  rq_address :: string
  rq_value_type :: value_type
  rq_timeout_ms :: "int option"

definition tag_request_new ::
  "string \<Rightarrow> string \<Rightarrow> value_type \<Rightarrow> int_arg option \<Rightarrow> tag_request result" where
  "tag_request_new i address vt timeout_ms =
     rbind (set_stripped ''tag_id'' i) (\<lambda>i'.
     rbind (set_stripped ''address'' address) (\<lambda>a'.
     case timeout_ms of
       None \<Rightarrow> Inr \<lparr>rq_tag_id = i', rq_address = a', rq_value_type = vt, rq_timeout_ms = None\<rparr>
     | Some t \<Rightarrow> rbind (require_positive_int t ''timeout_ms'') (\<lambda>t'.
         Inr \<lparr>rq_tag_id = i', rq_address = a', rq_value_type = vt, rq_timeout_ms = Some t'\<rparr>)))"

definition request_ok :: "tag_request \<Rightarrow> bool" where
  "request_ok r \<longleftrightarrow> stripped (rq_tag_id r) \<and> stripped (rq_address r) \<and>
     (case rq_timeout_ms r of None \<Rightarrow> True | Some t \<Rightarrow> 0 < t)"

record tag_result =
  tr_tag_id :: string
  tr_quality :: quality
  tr_received_at :: datetime
  tr_source_timestamp :: "datetime option"
  tr_value :: "tag_value option"
  tr_error_code :: "string option"
  tr_error_message :: "string option"

definition tag_result_new ::
  "string \<Rightarrow> quality \<Rightarrow> datetime \<Rightarrow> datetime option \<Rightarrow> tag_value option
     \<Rightarrow> string option \<Rightarrow> string option \<Rightarrow> tag_result result" where
  "tag_result_new i q received_at source_timestamp v error_code error_message =
     rbind (set_stripped ''tag_id'' i) (\<lambda>i'.
     rbind (require_utc received_at ''received_at'') (\<lambda>r'.
     rbind (require_utc_option source_timestamp ''source_timestamp'') (\<lambda>s'.
     case v of
       Some x \<Rightarrow>
         (if q = Q_Bad then config_error ''Successful TagResult cannot be bad quality.''
          else if error_code \<noteq> None \<or> error_message \<noteq> None
            then config_error ''Successful TagResult cannot contain errors.''
          else Inr \<lparr>tr_tag_id = i', tr_quality = q, tr_received_at = r',
                 tr_source_timestamp = s', tr_value = Some x, tr_error_code = None,
                 tr_error_message = None\<rparr>)
     | None \<Rightarrow>
         (let code' = set_optional_stripped error_code;
              message' = set_optional_stripped error_message
          in if q \<noteq> Q_Bad then config_error ''Failed TagResult must have bad quality.''
             else if code' = None \<or> message' = None
               then config_error ''Failed TagResult requires error details.''
             else Inr \<lparr>tr_tag_id = i', tr_quality = q, tr_received_at = r',
                    tr_source_timestamp = s', tr_value = None, tr_error_code = code',
                    tr_error_message = message'\<rparr>))))"

definition tag_result_success ::
  "string \<Rightarrow> tag_value \<Rightarrow> datetime \<Rightarrow> datetime \<Rightarrow> quality \<Rightarrow> tag_result result" where
  "tag_result_success i v source_timestamp received_at q =
     tag_result_new i q received_at (Some source_timestamp) (Some v) None None"

definition tag_result_failure ::
  "string \<Rightarrow> string \<Rightarrow> string \<Rightarrow> datetime \<Rightarrow> datetime option \<Rightarrow> quality \<Rightarrow> tag_result result" where
  "tag_result_failure i error_code error_message received_at source_timestamp q =
     tag_result_new i q received_at source_timestamp None (Some error_code) (Some error_message)"

definition is_success :: "tag_result \<Rightarrow> bool" where
  "is_success r \<longleftrightarrow> tr_value r \<noteq> None"

text \<open>A result is a good or uncertain value with no error, or bad with both error texts.\<close>

definition tag_result_ok :: "tag_result \<Rightarrow> bool" where
  "tag_result_ok r \<longleftrightarrow> stripped (tr_tag_id r) \<and> utc_ok (tr_received_at r) \<and>
     utc_option (tr_source_timestamp r) \<and>
     (if is_success r
      then tr_quality r \<noteq> Q_Bad \<and> tr_error_code r = None \<and> tr_error_message r = None
      else tr_quality r = Q_Bad \<and> tr_error_code r \<noteq> None \<and> stripped_option (tr_error_code r) \<and>
        tr_error_message r \<noteq> None \<and> stripped_option (tr_error_message r))"

lemma tag_request_new_ok [post_init]: "tag_request_new i a vt t = Inr r \<Longrightarrow> request_ok r"
  by (auto simp: tag_request_new_def request_ok_def set_stripped_Inr split: option.splits)

lemma tag_result_new_ok [post_init]:
  "tag_result_new i q ra st v ec em = Inr r \<Longrightarrow> tag_result_ok r \<and> tr_value r = v"
  by (cases v)
    (auto simp: tag_result_new_def tag_result_ok_def is_success_def config_error_def Let_def
      set_stripped_Inr dest!: require_utc_ok require_utc_option_ok dest: set_optional_stripped_Some
      split: if_splits)

lemma tag_result_new_id:
  "tag_result_ok r \<Longrightarrow> tag_result_new (tr_tag_id r) (tr_quality r) (tr_received_at r)
     (tr_source_timestamp r) (tr_value r) (tr_error_code r) (tr_error_message r) = Inr r"
  by (cases r; cases "tr_value r")
    (auto simp: tag_result_new_def tag_result_ok_def is_success_def Let_def)

lemma tag_result_new_tag_id:
  "tag_result_new i q ra st v ec em = Inr r \<Longrightarrow> tr_tag_id r = py_strip i"
  by (cases v)
    (auto simp: tag_result_new_def set_stripped_Inr config_error_def Let_def split: if_splits)

lemma tag_result_success_total:
  assumes "stripped i" "utc_ok s" "utc_ok r" "q \<noteq> Q_Bad"
  shows "tag_result_success i v s r q = Inr \<lparr>tr_tag_id = i, tr_quality = q, tr_received_at = r,
    tr_source_timestamp = Some s, tr_value = Some v, tr_error_code = None,
    tr_error_message = None\<rparr>"
  using assms by (simp add: tag_result_success_def tag_result_new_def)

text \<open>A failed result needs both texts to have a character that is not white space.\<close>

definition blank :: "string \<Rightarrow> bool" where
  "blank s \<longleftrightarrow> py_strip s = []"

lemma tag_result_failure_total:
  assumes "stripped i" "utc_ok r" "\<not> blank code" "\<not> blank message"
  shows "tag_result_failure i code message r None Q_Bad = Inr \<lparr>tr_tag_id = i, tr_quality = Q_Bad,
    tr_received_at = r, tr_source_timestamp = None, tr_value = None,
    tr_error_code = Some (py_strip code), tr_error_message = Some (py_strip message)\<rparr>"
  using assms
  by (simp add: tag_result_failure_def tag_result_new_def set_optional_stripped_def blank_def)

lemma tag_result_failure_blank:
  assumes "stripped i" "utc_ok r" "blank code \<or> blank message"
  shows "tag_result_failure i code message r None Q_Bad =
    config_error ''Failed TagResult requires error details.''"
  using assms
  by (auto simp: tag_result_failure_def tag_result_new_def set_optional_stripped_def blank_def)

section \<open>PollExecution and RuntimeComponentStatus\<close>

record poll_execution =
  pe_execution_id :: string
  pe_connection_id :: string
  pe_tag_group_id :: string
  pe_status :: poll_status
  pe_started_at :: datetime
  pe_finished_at :: "datetime option"
  pe_requested_tags :: int
  pe_successful_tags :: int
  pe_failed_tags :: int
  pe_error_message :: "string option"

definition check_finished ::
  "datetime \<Rightarrow> datetime option \<Rightarrow> poll_status \<Rightarrow> datetime option result" where
  "check_finished started finished status =
     (case finished of
        Some f \<Rightarrow>
          rbind (require_utc f ''finished_at'') (\<lambda>f'.
            if dt_wall f' < dt_wall started
            then config_error ''finished_at cannot be before started_at.'' else Inr (Some f'))
      | None \<Rightarrow>
          if status \<noteq> PS_Running then config_error ''Finished poll statuses require finished_at.''
          else Inr None)"

definition poll_execution_new ::
  "string \<Rightarrow> string \<Rightarrow> string \<Rightarrow> poll_status \<Rightarrow> datetime \<Rightarrow> datetime option
     \<Rightarrow> int_arg \<Rightarrow> int_arg \<Rightarrow> int_arg \<Rightarrow> string option \<Rightarrow> poll_execution result" where
  "poll_execution_new eid cid gid status started finished requested successful failed message =
     rbind (set_stripped ''execution_id'' eid) (\<lambda>e'.
     rbind (set_stripped ''connection_id'' cid) (\<lambda>c'.
     rbind (set_stripped ''tag_group_id'' gid) (\<lambda>g'.
     rbind (require_utc started ''started_at'') (\<lambda>s'.
     rbind (check_finished s' finished status) (\<lambda>f'.
     rbind (require_non_negative_int requested ''requested_tags'') (\<lambda>rq.
     rbind (require_non_negative_int successful ''successful_tags'') (\<lambda>ok.
     rbind (require_non_negative_int failed ''failed_tags'') (\<lambda>bad.
       if rq < ok + bad then config_error ''Poll result counts exceed requested_tags.''
       else Inr \<lparr>pe_execution_id = e', pe_connection_id = c', pe_tag_group_id = g',
              pe_status = status, pe_started_at = s', pe_finished_at = f',
              pe_requested_tags = rq, pe_successful_tags = ok, pe_failed_tags = bad,
              pe_error_message = set_optional_stripped message\<rparr>))))))))"

definition execution_ok :: "poll_execution \<Rightarrow> bool" where
  "execution_ok e \<longleftrightarrow> stripped (pe_execution_id e) \<and> stripped (pe_connection_id e) \<and>
     stripped (pe_tag_group_id e) \<and> utc_ok (pe_started_at e) \<and>
     (case pe_finished_at e of
        Some f \<Rightarrow> utc_ok f \<and> dt_wall (pe_started_at e) \<le> dt_wall f
      | None \<Rightarrow> pe_status e = PS_Running) \<and>
     0 \<le> pe_successful_tags e \<and> 0 \<le> pe_failed_tags e \<and>
     pe_successful_tags e + pe_failed_tags e \<le> pe_requested_tags e \<and>
     stripped_option (pe_error_message e)"

record component_status =
  cs_component_id :: string
  cs_state :: worker_state
  cs_updated_at :: datetime
  cs_message :: "string option"
  cs_error_code :: "string option"
  cs_error_message :: "string option"

definition component_status_new ::
  "string \<Rightarrow> worker_state \<Rightarrow> datetime \<Rightarrow> string option \<Rightarrow> string option \<Rightarrow> string option
     \<Rightarrow> component_status result" where
  "component_status_new i state updated_at message error_code error_message =
     rbind (set_stripped ''component_id'' i) (\<lambda>i'.
     rbind (require_utc updated_at ''updated_at'') (\<lambda>u'.
       Inr \<lparr>cs_component_id = i', cs_state = state, cs_updated_at = u',
            cs_message = set_optional_stripped message,
            cs_error_code = set_optional_stripped error_code,
            cs_error_message = set_optional_stripped error_message\<rparr>))"

lemma check_finished_Inr:
  "check_finished s f st = Inr f' \<Longrightarrow>
     (case f' of Some g \<Rightarrow> utc_ok g \<and> dt_wall s \<le> dt_wall g | None \<Rightarrow> st = PS_Running)"
  by (auto simp: check_finished_def config_error_def dest: require_utc_ok
      split: option.splits if_splits)

lemma poll_execution_new_ok [post_init]:
  assumes "poll_execution_new e c g st s f rq ok bad m = Inr x"
  shows "execution_ok x"
proof -
  obtain s' f' n a b where s': "require_utc s ''started_at'' = Inr s'"
    and f': "check_finished s' f st = Inr f'" and counts: "0 \<le> a" "0 \<le> b" "a + b \<le> n"
    and ids: "py_strip e \<noteq> []" "py_strip c \<noteq> []" "py_strip g \<noteq> []"
    and x: "x = \<lparr>pe_execution_id = py_strip e, pe_connection_id = py_strip c,
        pe_tag_group_id = py_strip g, pe_status = st, pe_started_at = s', pe_finished_at = f',
        pe_requested_tags = n, pe_successful_tags = a, pe_failed_tags = b,
        pe_error_message = set_optional_stripped m\<rparr>"
    using assms
    by (auto simp: poll_execution_new_def config_error_def set_stripped_Inr not_less
        split: if_splits)
  show ?thesis
    using require_utc_ok [OF s'] check_finished_Inr [OF f'] counts ids
    by (cases f') (simp_all add: x execution_ok_def)
qed

lemma poll_execution_new_fields:
  "poll_execution_new e c g st s f rq ok bad m = Inr x \<Longrightarrow>
     pe_execution_id x = py_strip e \<and> pe_connection_id x = py_strip c \<and>
     pe_tag_group_id x = py_strip g \<and> pe_status x = st \<and>
     require_utc s ''started_at'' = Inr (pe_started_at x) \<and>
     AInt (pe_requested_tags x) = rq \<and> AInt (pe_successful_tags x) = ok \<and>
     AInt (pe_failed_tags x) = bad \<and> pe_error_message x = set_optional_stripped m"
  by (auto simp: poll_execution_new_def set_stripped_Inr config_error_def split: if_splits)

lemma poll_execution_new_id:
  assumes "execution_ok x"
  shows "poll_execution_new (pe_execution_id x) (pe_connection_id x) (pe_tag_group_id x)
    (pe_status x) (pe_started_at x) (pe_finished_at x) (AInt (pe_requested_tags x))
    (AInt (pe_successful_tags x)) (AInt (pe_failed_tags x)) (pe_error_message x) = Inr x"
proof -
  have f: "check_finished (pe_started_at x) (pe_finished_at x) (pe_status x) = Inr (pe_finished_at x)"
    using assms by (cases "pe_finished_at x") (auto simp: execution_ok_def check_finished_def)
  have ok: "stripped (pe_execution_id x)" "stripped (pe_connection_id x)"
    "stripped (pe_tag_group_id x)" "utc_ok (pe_started_at x)"
    "0 \<le> pe_requested_tags x" "0 \<le> pe_successful_tags x" "0 \<le> pe_failed_tags x"
    "\<not> pe_requested_tags x < pe_successful_tags x + pe_failed_tags x"
    "stripped_option (pe_error_message x)"
    using assms unfolding execution_ok_def by linarith+
  show ?thesis unfolding poll_execution_new_def using f ok by (cases x) simp
qed

text \<open>What the service passes around: one execution with the results of its tags.\<close>

record worker_poll_result =
  wp_execution :: poll_execution
  wp_results :: "tag_result list"

definition wp_id :: "worker_poll_result \<Rightarrow> string" where
  "wp_id r = pe_execution_id (wp_execution r)"

definition poll_result_ok :: "worker_poll_result \<Rightarrow> bool" where
  "poll_result_ok r \<longleftrightarrow> execution_ok (wp_execution r) \<and> (\<forall>t \<in> set (wp_results r).
     tag_result_ok t \<and> (case tr_value t of None \<Rightarrow> True | Some v \<Rightarrow> tag_value_ok v))"

section \<open>Properties\<close>

text \<open>
  Whatever objects it is called with, a \<open>TagValue\<close> that is constructed has exactly one
  payload, the one of its type, and \<open>raw\<close> returns it.
\<close>

lemma tag_value_valid:
  assumes "tag_value_new vt n i b t bin = Inr v"
  shows "tag_value_ok v \<and> tv_type v = vt \<and>
    (\<exists>x. tag_value_raw v = Inr x \<and> x \<noteq> PNone)"
proof -
  have ok: "tag_value_ok v \<and> tv_type v = vt" using tag_value_new_ok [OF assms] .
  then have "tag_value_ok v" by simp
  then have "\<exists>x. tag_value_raw v = Inr x \<and> x \<noteq> PNone"
    by (rule tag_value_ok_cases) (simp_all add: tag_value_raw_def)
  then show ?thesis using ok by simp
qed

text \<open>
  A \<open>PollExecution\<close> that is constructed ends no earlier than it started, is unfinished
  only while running, and its successes and failures fit into the requested tags;
  constructing it again from its own fields gives the same object.
\<close>

lemma poll_execution_valid:
  assumes "poll_execution_new e c g st s f rq ok bad m = Inr x"
  shows "execution_ok x \<and> poll_execution_new (pe_execution_id x) (pe_connection_id x)
    (pe_tag_group_id x) (pe_status x) (pe_started_at x) (pe_finished_at x)
    (AInt (pe_requested_tags x)) (AInt (pe_successful_tags x)) (AInt (pe_failed_tags x))
    (pe_error_message x) = Inr x"
  using poll_execution_new_ok [OF assms] poll_execution_new_id [of x] by simp

end
