(* ===== verification/Retry.thy ===== *)
theory Retry
  imports Domain
begin

text \<open>
  src/plc_gateway/runtime/retry.py: the backoff policy, the classification of errors and
  the retry loop. Delays are exact rationals (a Python float result is the rounding of
  the value here), so the power of the multiplier never overflows, while a float power beyond the range of
  doubles raises OverflowError (from \<^verbatim>\<open>2.0 ** 1024\<close> on). The operation, the sleeper, the random source and the retry callback
  are the parameters the Python function takes; the operation and the sleeper act on a
  state of any type, so a caller instantiates it with its own.

  Shown: every computed delay is within the configured cap and the jitter span; on a
  scripted operation the loop makes exactly the calls and sleeps of its documentation
  (\<open>run_scripted\<close>); and, in the locales \<open>retry_counter\<close> and \<open>attempt_counter\<close>, the
  counters a caller keeps in its callbacks agree with the reported outcome.
\<close>

section \<open>Policy\<close>

record retry_policy =
  rp_max_attempts :: int
  rp_initial_delay_s :: rat
  rp_max_delay_s :: rat
  rp_multiplier :: rat
  rp_jitter_ratio :: rat

definition value_error :: "string \<Rightarrow> 'a result" where
  "value_error m = Inl (exn PyValueError m)"

definition retry_policy_new :: "int \<Rightarrow> rat \<Rightarrow> rat \<Rightarrow> rat \<Rightarrow> rat \<Rightarrow> retry_policy result" where
  "retry_policy_new max_attempts initial_delay_s max_delay_s multiplier jitter_ratio =
     (if max_attempts \<le> 0 then value_error ''max_attempts must be positive.''
      else if initial_delay_s < 0 then value_error ''initial_delay_s must be non-negative.''
      else if max_delay_s < 0 then value_error ''max_delay_s must be non-negative.''
      else if max_delay_s < initial_delay_s
        then value_error ''max_delay_s must be at least initial_delay_s.''
      else if multiplier < 1 then value_error ''multiplier must be at least 1.''
      else if \<not> (0 \<le> jitter_ratio \<and> jitter_ratio \<le> 1)
        then value_error ''jitter_ratio must be between 0 and 1.''
      else Inr \<lparr>rp_max_attempts = max_attempts, rp_initial_delay_s = initial_delay_s,
             rp_max_delay_s = max_delay_s, rp_multiplier = multiplier,
             rp_jitter_ratio = jitter_ratio\<rparr>)"

definition policy_ok :: "retry_policy \<Rightarrow> bool" where
  "policy_ok p \<longleftrightarrow> 0 < rp_max_attempts p \<and> 0 \<le> rp_initial_delay_s p \<and>
     rp_initial_delay_s p \<le> rp_max_delay_s p \<and> 1 \<le> rp_multiplier p \<and>
     0 \<le> rp_jitter_ratio p \<and> rp_jitter_ratio p \<le> 1"

lemma retry_policy_new_ok [post_init]: "retry_policy_new n i m k j = Inr p \<Longrightarrow> policy_ok p"
  by (auto simp: retry_policy_new_def policy_ok_def value_error_def split: if_splits)

lemma retry_policy_new_id:
  "policy_ok p \<Longrightarrow> retry_policy_new (rp_max_attempts p) (rp_initial_delay_s p) (rp_max_delay_s p)
     (rp_multiplier p) (rp_jitter_ratio p) = Inr p"
  by (auto simp: retry_policy_new_def policy_ok_def)

definition capped_delay :: "retry_policy \<Rightarrow> int \<Rightarrow> rat" where
  "capped_delay p retry_number =
     min (rp_initial_delay_s p * rp_multiplier p ^ nat (retry_number - 1)) (rp_max_delay_s p)"

definition delay_for_retry :: "retry_policy \<Rightarrow> int \<Rightarrow> rat \<Rightarrow> rat result" where
  "delay_for_retry p retry_number random_value =
     (if retry_number \<le> 0 then value_error ''retry_number must be positive.''
      else if \<not> (0 \<le> random_value \<and> random_value \<le> 1)
        then value_error ''random_value must be between 0 and 1.''
      else let capped = capped_delay p retry_number
           in if capped = 0 \<or> rp_jitter_ratio p = 0 then Inr capped
              else let jitter_span = capped * rp_jitter_ratio p;
                       jitter_offset = (random_value * 2 - 1) * jitter_span
                   in Inr (max 0 (min (rp_max_delay_s p) (capped + jitter_offset))))"

lemma capped_delay_bounds:
  assumes "policy_ok p"
  shows "0 \<le> capped_delay p n" "capped_delay p n \<le> rp_max_delay_s p"
  using assms by (auto simp: capped_delay_def policy_ok_def)

lemma capped_delay_mono:
  assumes "policy_ok p" "m \<le> n"
  shows "capped_delay p m \<le> capped_delay p n"
proof -
  have "rp_multiplier p ^ nat (m - 1) \<le> rp_multiplier p ^ nat (n - 1)"
    using assms by (intro power_increasing) (auto simp: policy_ok_def)
  then have "rp_initial_delay_s p * rp_multiplier p ^ nat (m - 1)
      \<le> rp_initial_delay_s p * rp_multiplier p ^ nat (n - 1)"
    using assms by (intro mult_left_mono) (auto simp: policy_ok_def)
  then show ?thesis by (auto simp: capped_delay_def min_def)
qed

lemma delay_for_retry_total:
  assumes "0 < n" "0 \<le> r" "r \<le> 1"
  shows "\<exists>d. delay_for_retry p n r = Inr d"
  using assms by (auto simp: delay_for_retry_def Let_def)

lemma delay_within_cap:
  assumes "policy_ok p" "delay_for_retry p n r = Inr d"
  shows "0 \<le> d \<and> d \<le> rp_max_delay_s p"
  using assms capped_delay_bounds [OF assms(1), of n]
  by (auto simp: delay_for_retry_def value_error_def Let_def policy_ok_def split: if_splits)

lemma delay_within_jitter:
  assumes p: "policy_ok p" and d: "delay_for_retry p n r = Inr d"
  shows "\<bar>d - capped_delay p n\<bar> \<le> capped_delay p n * rp_jitter_ratio p"
proof -
  let ?c = "capped_delay p n" and ?j = "rp_jitter_ratio p"
  have c: "0 \<le> ?c" "?c \<le> rp_max_delay_s p" using capped_delay_bounds [OF p] by auto
  have j: "0 \<le> ?j" "?j \<le> 1" using p by (auto simp: policy_ok_def)
  have span: "0 \<le> ?c * ?j" using c j by simp
  show ?thesis
  proof (cases "?c = 0 \<or> ?j = 0")
    case True
    then show ?thesis using d by (auto simp: delay_for_retry_def value_error_def split: if_splits)
  next
    case False
    have r: "0 \<le> r" "r \<le> 1" and
      deq: "d = max 0 (min (rp_max_delay_s p) (?c + (r * 2 - 1) * (?c * ?j)))"
      using d False by (auto simp: delay_for_retry_def value_error_def Let_def split: if_splits)
    have lo: "- (?c * ?j) \<le> (r * 2 - 1) * (?c * ?j)"
      using mult_right_mono [of "-1" "r * 2 - 1" "?c * ?j"] r span by simp
    have hi: "(r * 2 - 1) * (?c * ?j) \<le> ?c * ?j"
      using mult_right_mono [of "r * 2 - 1" 1 "?c * ?j"] r span by simp
    have "?c * ?j \<le> ?c" using mult_left_mono [of ?j 1 ?c] c j by simp
    then show ?thesis unfolding deq using lo hi c span by (auto simp: min_def max_def abs_le_iff)
  qed
qed

section \<open>Classification of errors\<close>

datatype error_class = EC_Configuration | EC_Permanent | EC_Transient | EC_Unknown

fun error_class_value :: "error_class \<Rightarrow> string" where
  "error_class_value EC_Configuration = ''configuration''"
| "error_class_value EC_Permanent = ''permanent''"
| "error_class_value EC_Transient = ''transient''"
| "error_class_value EC_Unknown = ''unknown''"

definition classify_error :: "pyexn \<Rightarrow> error_class" where
  "classify_error e =
     (if exn_class e = ConfigurationError then EC_Configuration
      else if exn_class e = PermanentProtocolError then EC_Permanent
      else if exn_class e \<in> {TransientCommunicationError, StorageError, PyTimeoutError}
        then EC_Transient
      else EC_Unknown)"

definition is_retryable :: "pyexn \<Rightarrow> bool" where
  "is_retryable e \<longleftrightarrow> classify_error e = EC_Transient"

lemma is_retryable_iff:
  "is_retryable e \<longleftrightarrow>
     exn_class e \<in> {TransientCommunicationError, StorageError, PyTimeoutError}"
  by (auto simp: is_retryable_def classify_error_def)

definition error_code :: "pyexn \<Rightarrow> string" where
  "error_code e =
     (case exn_code e of
        Some c \<Rightarrow> if c \<noteq> [] then c else class_name (exn_class e)
      | None \<Rightarrow> class_name (exn_class e))"

text \<open>\<^verbatim>\<open>str(error) or error.__class__.__name__\<close>\<close>

definition error_text :: "pyexn \<Rightarrow> string" where
  "error_text e = str_or (exn_message e) (class_name (exn_class e))"

section \<open>The retry loop\<close>

record retry_outcome =
  ro_attempts :: nat
  ro_retries :: nat
  ro_exhausted :: bool
  ro_last_error_class :: "error_class option"
  ro_last_error_code :: "string option"
  ro_last_error_message :: "string option"

definition success_outcome :: "nat \<Rightarrow> nat \<Rightarrow> retry_outcome" where
  "success_outcome attempts retries =
     \<lparr>ro_attempts = attempts, ro_retries = retries, ro_exhausted = False,
      ro_last_error_class = None, ro_last_error_code = None, ro_last_error_message = None\<rparr>"

definition failed_outcome :: "pyexn \<Rightarrow> nat \<Rightarrow> nat \<Rightarrow> retry_outcome" where
  "failed_outcome e attempts retries =
     \<lparr>ro_attempts = attempts, ro_retries = retries, ro_exhausted = True,
      ro_last_error_class = Some (classify_error e), ro_last_error_code = Some (error_code e),
      ro_last_error_message = Some (error_text e)\<rparr>"

text \<open>
  What the loop is given: the operation and the sleeper, which act on a state, the random
  source (the value of its \<open>n\<close>-th call, counted from 1) and the retry callback.
\<close>

record ('s, 'a) retry_env =
  re_operation :: "'s \<Rightarrow> 's \<times> 'a outcome"
  re_sleep :: "rat \<Rightarrow> 's \<Rightarrow> 's \<times> unit outcome"
  re_random :: "nat \<Rightarrow> rat"
  re_on_retry :: "pyexn \<Rightarrow> rat \<Rightarrow> nat \<Rightarrow> 's \<Rightarrow> 's"

function retry_loop ::
  "('s, 'a) retry_env \<Rightarrow> retry_policy \<Rightarrow> nat \<Rightarrow> nat \<Rightarrow> 's \<Rightarrow> 's \<times> ('a \<times> retry_outcome) outcome" where
  "retry_loop env p attempts retries s =
     (if int attempts < rp_max_attempts p then
        (case re_operation env s of
           (s1, Ret x) \<Rightarrow> (s1, Ret (x, success_outcome (Suc attempts) retries))
         | (s1, Cancelled) \<Rightarrow> (s1, Cancelled)
         | (s1, Raise e) \<Rightarrow>
             if \<not> is_retryable e \<or> rp_max_attempts p \<le> int (Suc attempts) then (s1, Raise e)
             else (case delay_for_retry p (int (Suc retries)) (re_random env (Suc retries)) of
                 Inl e' \<Rightarrow> (s1, Raise e')
               | Inr d \<Rightarrow>
                   (case re_sleep env d (re_on_retry env e d (Suc retries) s1) of
                      (s2, Ret _) \<Rightarrow> retry_loop env p (Suc attempts) (Suc retries) s2
                    | (s2, Raise e') \<Rightarrow> (s2, Raise e')
                    | (s2, Cancelled) \<Rightarrow> (s2, Cancelled))))
      else (s, Raise (exn PyRuntimeError ''retry loop exited without result'')))"
  by pat_completeness auto
termination
  by (relation "measure (\<lambda>(env, p, attempts, retries, s). nat (rp_max_attempts p - int attempts))")
    auto

declare retry_loop.simps [simp del]

definition run_with_retry ::
  "('s, 'a) retry_env \<Rightarrow> retry_policy \<Rightarrow> 's \<Rightarrow> 's \<times> ('a \<times> retry_outcome) outcome" where
  "run_with_retry env p s = retry_loop env p 0 0 s"

text \<open>The default random source.\<close>

definition default_random :: "nat \<Rightarrow> rat" where
  "default_random n = 1 / 2"

lemma retry_loop_Ret_first:
  assumes "int n < rp_max_attempts p" "re_operation env s = (s1, Ret x)"
  shows "retry_loop env p n r s = (s1, Ret (x, success_outcome (Suc n) r))"
  using assms by (subst retry_loop.simps) simp

lemma retry_loop_Cancelled_first:
  assumes "int n < rp_max_attempts p" "re_operation env s = (s1, Cancelled)"
  shows "retry_loop env p n r s = (s1, Cancelled)"
  using assms by (subst retry_loop.simps) simp

lemma retry_loop_Raise_first:
  assumes "int n < rp_max_attempts p" "re_operation env s = (s1, Raise e)"
    and "\<not> is_retryable e \<or> rp_max_attempts p \<le> int (Suc n)"
  shows "retry_loop env p n r s = (s1, Raise e)"
  using assms by (subst retry_loop.simps) simp

lemma retry_loop_step:
  assumes "int (Suc n) < rp_max_attempts p" "re_operation env s = (s1, Raise e)" "is_retryable e"
    and "delay_for_retry p (int (Suc r)) (re_random env (Suc r)) = Inr d"
    and "re_sleep env d (re_on_retry env e d (Suc r) s1) = (s2, Ret u)"
  shows "retry_loop env p n r s = retry_loop env p (Suc n) (Suc r) s2"
  using assms by (subst retry_loop.simps) simp

text \<open>
  One pass of the loop, as an induction rule for facts about its result: the six ways it
  can stop, and the one way it goes round again.
\<close>

lemma retry_loop_rule [case_names exhausted ret cancelled raise delay sleep_raise sleep_cancel again]:
  assumes exhausted: "\<And>n r s. \<not> int n < rp_max_attempts p \<Longrightarrow>
      P n r s (s, Raise (exn PyRuntimeError ''retry loop exited without result''))"
    and ret: "\<And>n r s s1 x. int n < rp_max_attempts p \<Longrightarrow> re_operation env s = (s1, Ret x) \<Longrightarrow>
      P n r s (s1, Ret (x, success_outcome (Suc n) r))"
    and cancelled: "\<And>n r s s1. int n < rp_max_attempts p \<Longrightarrow> re_operation env s = (s1, Cancelled) \<Longrightarrow>
      P n r s (s1, Cancelled)"
    and raises: "\<And>n r s s1 e. int n < rp_max_attempts p \<Longrightarrow> re_operation env s = (s1, Raise e) \<Longrightarrow>
      \<not> is_retryable e \<or> rp_max_attempts p \<le> int (Suc n) \<Longrightarrow> P n r s (s1, Raise e)"
    and delay: "\<And>n r s s1 e e'. int (Suc n) < rp_max_attempts p \<Longrightarrow>
      re_operation env s = (s1, Raise e) \<Longrightarrow> is_retryable e \<Longrightarrow>
      delay_for_retry p (int (Suc r)) (re_random env (Suc r)) = Inl e' \<Longrightarrow> P n r s (s1, Raise e')"
    and sleep_raise: "\<And>n r s s1 e d s2 e'. int (Suc n) < rp_max_attempts p \<Longrightarrow>
      re_operation env s = (s1, Raise e) \<Longrightarrow> is_retryable e \<Longrightarrow>
      delay_for_retry p (int (Suc r)) (re_random env (Suc r)) = Inr d \<Longrightarrow>
      re_sleep env d (re_on_retry env e d (Suc r) s1) = (s2, Raise e') \<Longrightarrow> P n r s (s2, Raise e')"
    and sleep_cancel: "\<And>n r s s1 e d s2. int (Suc n) < rp_max_attempts p \<Longrightarrow>
      re_operation env s = (s1, Raise e) \<Longrightarrow> is_retryable e \<Longrightarrow>
      delay_for_retry p (int (Suc r)) (re_random env (Suc r)) = Inr d \<Longrightarrow>
      re_sleep env d (re_on_retry env e d (Suc r) s1) = (s2, Cancelled) \<Longrightarrow> P n r s (s2, Cancelled)"
    and again: "\<And>n r s s1 e d s2 u res. int (Suc n) < rp_max_attempts p \<Longrightarrow>
      re_operation env s = (s1, Raise e) \<Longrightarrow> is_retryable e \<Longrightarrow>
      delay_for_retry p (int (Suc r)) (re_random env (Suc r)) = Inr d \<Longrightarrow>
      re_sleep env d (re_on_retry env e d (Suc r) s1) = (s2, Ret u) \<Longrightarrow>
      P (Suc n) (Suc r) s2 res \<Longrightarrow> P n r s res"
  shows "P n r s (retry_loop env p n r s)"
proof (induction "nat (rp_max_attempts p - int n)" arbitrary: n r s rule: less_induct)
  case less
  note unfold = retry_loop.simps [of env p n r s]
  show ?case
  proof (cases "int n < rp_max_attempts p")
    case False
    then show ?thesis using exhausted unfold by simp
  next
    case True
    obtain s1 o1 where op: "re_operation env s = (s1, o1)" by (cases "re_operation env s") auto
    show ?thesis
    proof (cases o1)
      case (Ret x)
      then show ?thesis using ret [OF True] op True unfold by simp
    next
      case Cancelled
      then show ?thesis using cancelled [OF True] op True unfold by simp
    next
      case (Raise e)
      note op' = op [unfolded Raise]
      show ?thesis
      proof (cases "\<not> is_retryable e \<or> rp_max_attempts p \<le> int (Suc n)")
        case stop: True
        then show ?thesis using raises [OF True op'] True op' unfold by simp
      next
        case go: False
        then have more: "int (Suc n) < rp_max_attempts p" "is_retryable e" by auto
        show ?thesis
        proof (cases "delay_for_retry p (int (Suc r)) (re_random env (Suc r))")
          case (Inl e')
          then show ?thesis using delay [OF more(1) op' more(2)] True op' more go unfold by simp
        next
          case (Inr d)
          obtain s2 o2 where sl: "re_sleep env d (re_on_retry env e d (Suc r) s1) = (s2, o2)"
            by (cases "re_sleep env d (re_on_retry env e d (Suc r) s1)") auto
          show ?thesis
          proof (cases o2)
            case (Ret u)
            have "P (Suc n) (Suc r) s2 (retry_loop env p (Suc n) (Suc r) s2)"
              using less.hyps [of "Suc n"] True by simp
            then have "P n r s (retry_loop env p (Suc n) (Suc r) s2)"
              using again [OF more(1) op' more(2) Inr sl [unfolded Ret]] by blast
            then show ?thesis using True op' more go Inr sl Ret unfold by simp
          next
            case (Raise e')
            then show ?thesis
              using sleep_raise [OF more(1) op' more(2) Inr sl [unfolded Raise]]
                True op' more go Inr sl unfold by simp
          next
            case Cancelled
            then show ?thesis
              using sleep_cancel [OF more(1) op' more(2) Inr sl [unfolded Cancelled]]
                True op' more go Inr sl unfold by simp
          qed
        qed
      qed
    qed
  qed
qed

text \<open>
  An invariant of the state that the operation, the callback and the sleeper keep is kept
  by the loop.
\<close>

lemma retry_loop_invariant:
  assumes "I s"
    and op: "\<And>s. I s \<Longrightarrow> I (fst (re_operation env s))"
    and cb: "\<And>s e d n. I s \<Longrightarrow> I (re_on_retry env e d n s)"
    and sl: "\<And>s d. I s \<Longrightarrow> I (fst (re_sleep env d s))"
  shows "I (fst (retry_loop env p n r s))"
proof -
  have opI: "I s1" if "re_operation env s = (s1, x)" "I s" for s s1 x
    using op [OF that(2)] that(1) by simp
  have slI: "I s1" if "re_sleep env d s = (s1, x)" "I s" for d s s1 x
    using sl [OF that(2), of d] that(1) by simp
  have "I s \<longrightarrow> I (fst (retry_loop env p n r s))"
    by (rule retry_loop_rule [where P = "\<lambda>n r s res. I s \<longrightarrow> I (fst res)"])
      (simp_all, (blast intro: opI slI cb)+)
  with assms(1) show ?thesis by simp
qed

text \<open>The error that comes out is one of the four kinds the loop can raise.\<close>

lemma retry_loop_Raise:
  assumes "retry_loop env p n r s = (s', Raise e)" "int n < rp_max_attempts p"
    and delays: "\<And>k. 0 \<le> re_random env k \<and> re_random env k \<le> 1"
    and sleeps: "\<And>d t t' e'. re_sleep env d t \<noteq> (t', Raise e')"
  shows "\<exists>t t'. re_operation env t = (t', Raise e)"
proof -
  have "\<forall>s' e. int n < rp_max_attempts p \<longrightarrow> retry_loop env p n r s = (s', Raise e) \<longrightarrow>
      (\<exists>t t'. re_operation env t = (t', Raise e))"
  proof (rule retry_loop_rule [where P = "\<lambda>n r s res. \<forall>s' e. int n < rp_max_attempts p \<longrightarrow>
        res = (s', Raise e) \<longrightarrow> (\<exists>t t'. re_operation env t = (t', Raise e))"])
    fix n r s s1 e e'
    assume "delay_for_retry p (int (Suc r)) (re_random env (Suc r)) = Inl e'"
    moreover have "\<exists>d. delay_for_retry p (int (Suc r)) (re_random env (Suc r)) = Inr d"
      using delays by (intro delay_for_retry_total) auto
    ultimately show "\<forall>s' e. int n < rp_max_attempts p \<longrightarrow> (s1, Raise e') = (s', Raise e) \<longrightarrow>
        (\<exists>t t'. re_operation env t = (t', Raise e))" by auto
  qed (use sleeps in auto)
  with assms(1,2) show ?thesis by blast
qed

text \<open>A result that comes out is one of the operation, in a state of the invariant.\<close>

lemma retry_loop_Ret:
  assumes "I s"
    and op: "\<And>s. I s \<Longrightarrow> I (fst (re_operation env s))"
    and cb: "\<And>s e d n. I s \<Longrightarrow> I (re_on_retry env e d n s)"
    and sl: "\<And>s d. I s \<Longrightarrow> I (fst (re_sleep env d s))"
    and ret: "retry_loop env p n r s = (s', Ret (x, out))"
  shows "\<exists>t t'. I t \<and> re_operation env t = (t', Ret x)"
proof -
  have opI: "I s1" if "re_operation env s = (s1, x)" "I s" for s s1 x
    using op [OF that(2)] that(1) by simp
  have slI: "I s1" if "re_sleep env d s = (s1, x)" "I s" for d s s1 x
    using sl [OF that(2), of d] that(1) by simp
  have "I s \<longrightarrow> (\<forall>s' x out. retry_loop env p n r s = (s', Ret (x, out)) \<longrightarrow>
      (\<exists>t t'. I t \<and> re_operation env t = (t', Ret x)))"
    by (rule retry_loop_rule [where P = "\<lambda>n r s res. I s \<longrightarrow> (\<forall>s' x out. res = (s', Ret (x, out)) \<longrightarrow>
        (\<exists>t t'. I t \<and> re_operation env t = (t', Ret x)))"])
      (simp_all, (blast intro: opI slI cb)+)
  with assms(1) ret show ?thesis by blast
qed

text \<open>An operation and a sleeper that are never cancelled make a loop that is not.\<close>

lemma retry_loop_not_Cancelled:
  assumes op: "\<And>s. snd (re_operation env s) \<noteq> Cancelled"
    and sl: "\<And>d s. snd (re_sleep env d s) \<noteq> Cancelled"
  shows "snd (retry_loop env p n r s) \<noteq> Cancelled"
proof -
  have opN: "re_operation env s \<noteq> (s1, Cancelled)" for s s1 using op [of s] by auto
  have slN: "re_sleep env d s \<noteq> (s1, Cancelled)" for d s s1 using sl [of d s] by auto
  show ?thesis
    by (rule retry_loop_rule [where P = "\<lambda>n r s res. snd res \<noteq> Cancelled"])
      (simp_all add: opN slN)
qed

lemma retry_loop_outcome:
  "retry_loop env p n n s = (s', Ret (x, out)) \<Longrightarrow>
     ro_attempts out = Suc (ro_retries out) \<and> \<not> ro_exhausted out"
proof -
  assume "retry_loop env p n n s = (s', Ret (x, out))"
  moreover have "n = n \<longrightarrow> (\<forall>s' x out. retry_loop env p n n s = (s', Ret (x, out)) \<longrightarrow>
      ro_attempts out = Suc (ro_retries out) \<and> \<not> ro_exhausted out)"
    by (rule retry_loop_rule [where P = "\<lambda>n r s res. n = r \<longrightarrow> (\<forall>s' x out. res = (s', Ret (x, out)) \<longrightarrow>
        ro_attempts out = Suc (ro_retries out) \<and> \<not> ro_exhausted out)"])
      (auto simp: success_outcome_def)
  ultimately show ?thesis by blast
qed

section \<open>The loop on a scripted operation\<close>

text \<open>
  The abstract specification of the loop: the operation is a script, the outcome of its
  \<open>k\<close>-th call, and the state records the number of calls and the delays slept.
\<close>

definition scripted_env ::
  "(nat \<Rightarrow> 'a outcome) \<Rightarrow> (nat \<Rightarrow> rat) \<Rightarrow> (nat \<times> rat list, 'a) retry_env" where
  "scripted_env f rnd =
     \<lparr>re_operation = (\<lambda>(k, ds). ((Suc k, ds), f k)),
      re_sleep = (\<lambda>d (k, ds). ((k, ds @ [d]), Ret ())),
      re_random = rnd,
      re_on_retry = (\<lambda>e d n s. s)\<rparr>"

definition delay_value :: "retry_policy \<Rightarrow> (nat \<Rightarrow> rat) \<Rightarrow> nat \<Rightarrow> rat" where
  "delay_value p rnd n =
     (case delay_for_retry p (int n) (rnd n) of Inl _ \<Rightarrow> 0 | Inr d \<Rightarrow> d)"

definition transient :: "'a outcome \<Rightarrow> bool" where
  "transient r \<longleftrightarrow> (case r of Raise e \<Rightarrow> is_retryable e | _ \<Rightarrow> False)"

definition scripted_result :: "nat \<Rightarrow> 'a outcome \<Rightarrow> ('a \<times> retry_outcome) outcome" where
  "scripted_result k r =
     (case r of Ret x \<Rightarrow> Ret (x, success_outcome (Suc k) k) | Raise e \<Rightarrow> Raise e
      | Cancelled \<Rightarrow> Cancelled)"

lemma scripted_env_simps [simp]:
  "re_operation (scripted_env f rnd) (k, ds) = ((Suc k, ds), f k)"
  "re_sleep (scripted_env f rnd) d (k, ds) = ((k, ds @ [d]), Ret ())"
  "re_random (scripted_env f rnd) = rnd"
  "re_on_retry (scripted_env f rnd) e d n s = s"
  by (simp_all add: scripted_env_def)

lemma delay_value_eq:
  assumes "0 < n" "0 \<le> rnd n" "rnd n \<le> 1"
  shows "delay_for_retry p (int n) (rnd n) = Inr (delay_value p rnd n)"
  using delay_for_retry_total [of "int n" "rnd n" p] assms by (auto simp: delay_value_def)

lemma retry_loop_scripted:
  assumes rnd: "\<And>n. 0 \<le> rnd n \<and> rnd n \<le> 1" and n: "n \<le> k" "int k < rp_max_attempts p"
    and failing: "\<And>i. n \<le> i \<Longrightarrow> i < k \<Longrightarrow> transient (f i)"
    and last: "\<not> transient (f k) \<or> int (Suc k) = rp_max_attempts p"
  shows "retry_loop (scripted_env f rnd) p n n (n, ds) =
    ((Suc k, ds @ map (delay_value p rnd) [Suc n..<Suc k]), scripted_result k (f k))"
  using n(1) failing
proof (induction "k - n" arbitrary: n ds)
  case 0
  then have nk: "n = k" by simp
  show ?case
  proof (cases "f k")
    case (Ret x)
    then show ?thesis using n(2) by (simp add: nk retry_loop_Ret_first scripted_result_def)
  next
    case (Raise e)
    then show ?thesis using n(2) last
      by (simp add: nk scripted_result_def transient_def retry_loop_Raise_first [where e = e])
  next
    case Cancelled
    then show ?thesis using n(2) by (simp add: nk retry_loop_Cancelled_first scripted_result_def)
  qed
next
  case (Suc m)
  then have less: "n < k" by simp
  obtain e where e: "f n = Raise e" "is_retryable e"
    using Suc.prems(2) [of n] less by (auto simp: transient_def split: outcome.splits)
  have "retry_loop (scripted_env f rnd) p n n (n, ds) =
      retry_loop (scripted_env f rnd) p (Suc n) (Suc n) (Suc n, ds @ [delay_value p rnd (Suc n)])"
    by (rule retry_loop_step [OF _ _ e(2)])
      (use e less n(2) rnd in \<open>auto simp: delay_value_eq simp del: of_nat_Suc\<close>)
  also have "\<dots> = ((Suc k, (ds @ [delay_value p rnd (Suc n)]) @
      map (delay_value p rnd) [Suc (Suc n)..<Suc k]), scripted_result k (f k))"
    by (rule Suc.hyps(1)) (use Suc.hyps(2) less Suc.prems(2) in auto)
  also have "\<dots> = ((Suc k, ds @ map (delay_value p rnd) [Suc n..<Suc k]), scripted_result k (f k))"
    using less by (simp add: upt_conv_Cons del: upt_Suc)
  finally show ?case .
qed

section \<open>Counters kept by the caller\<close>

text \<open>
  What a caller of the loop relies on when it counts in its callbacks: the operation and
  the sleeper leave the retry counter alone and the retry callback adds one. The counter
  then grows by the reported number of retries, and by fewer than \<open>max_attempts\<close>.
\<close>

locale retry_counter =
  fixes env :: "('s, 'a) retry_env"
    and retries_of :: "'s \<Rightarrow> nat"
  assumes operation_keeps_retries: "retries_of (fst (re_operation env s)) = retries_of s"
    and sleep_keeps_retries: "retries_of (fst (re_sleep env d s)) = retries_of s"
    and callback_counts_retry: "retries_of (re_on_retry env e d n s) = Suc (retries_of s)"
begin

lemma operation_retries: "re_operation env s = (s1, x) \<Longrightarrow> retries_of s1 = retries_of s"
  using operation_keeps_retries [of s] by simp

lemma sleep_retries: "re_sleep env d s = (s1, x) \<Longrightarrow> retries_of s1 = retries_of s"
  using sleep_keeps_retries [of d s] by simp

lemma loop_retries:
  "retries_of s \<le> retries_of (fst (retry_loop env p n r s)) \<and>
   (int n < rp_max_attempts p \<longrightarrow>
      int (retries_of (fst (retry_loop env p n r s))) + int n < int (retries_of s) + rp_max_attempts p) \<and>
   (case snd (retry_loop env p n r s) of
      Ret (x, out) \<Rightarrow> ro_retries out + retries_of s = r + retries_of (fst (retry_loop env p n r s))
    | _ \<Rightarrow> True)"
  by (rule retry_loop_rule [where P = "\<lambda>n r s res. retries_of s \<le> retries_of (fst res) \<and>
        (int n < rp_max_attempts p \<longrightarrow>
           int (retries_of (fst res)) + int n < int (retries_of s) + rp_max_attempts p) \<and>
        (case snd res of Ret (x, out) \<Rightarrow> ro_retries out + retries_of s = r + retries_of (fst res)
         | _ \<Rightarrow> True)"])
    (auto simp: success_outcome_def callback_counts_retry
      dest!: operation_retries sleep_retries split: outcome.splits)

lemma run_retries:
  assumes "run_with_retry env p s = (s', res)" "0 < rp_max_attempts p"
  shows "retries_of s \<le> retries_of s'" "int (retries_of s') < int (retries_of s) + rp_max_attempts p"
    "res = Ret (x, out) \<Longrightarrow> retries_of s' = retries_of s + ro_retries out"
  using loop_retries [of s p 0 0] assms by (auto simp: run_with_retry_def)

end

text \<open>When the operation counts its calls too, the calls exceed the retries by at most one.\<close>

locale attempt_counter = retry_counter env retries_of
  for env :: "('s, 'a) retry_env" and retries_of :: "'s \<Rightarrow> nat" +
  fixes attempts_of :: "'s \<Rightarrow> nat"
  assumes operation_counts: "attempts_of (fst (re_operation env s)) = Suc (attempts_of s)"
    and sleep_keeps_attempts: "attempts_of (fst (re_sleep env d s)) = attempts_of s"
    and callback_keeps_attempts: "attempts_of (re_on_retry env e d n s) = attempts_of s"
begin

lemma operation_attempts: "re_operation env s = (s1, x) \<Longrightarrow> attempts_of s1 = Suc (attempts_of s)"
  using operation_counts [of s] by simp

lemma sleep_attempts: "re_sleep env d s = (s1, x) \<Longrightarrow> attempts_of s1 = attempts_of s"
  using sleep_keeps_attempts [of d s] by simp

lemma loop_attempts:
  "(int n < rp_max_attempts p \<longrightarrow>
      attempts_of s < attempts_of (fst (retry_loop env p n r s)) \<and>
      int (attempts_of (fst (retry_loop env p n r s))) + int n \<le> int (attempts_of s) + rp_max_attempts p) \<and>
   (case snd (retry_loop env p n r s) of
      Ret (x, out) \<Rightarrow> ro_attempts out + attempts_of s = n + attempts_of (fst (retry_loop env p n r s))
    | _ \<Rightarrow> True)"
  by (rule retry_loop_rule [where P = "\<lambda>n r s res. (int n < rp_max_attempts p \<longrightarrow>
          attempts_of s < attempts_of (fst res) \<and>
          int (attempts_of (fst res)) + int n \<le> int (attempts_of s) + rp_max_attempts p) \<and>
        (case snd res of Ret (x, out) \<Rightarrow> ro_attempts out + attempts_of s = n + attempts_of (fst res)
         | _ \<Rightarrow> True)"])
    (auto simp: success_outcome_def callback_keeps_attempts
      dest!: operation_attempts sleep_attempts split: outcome.splits)

lemma operation_counters:
  "re_operation env s = (s1, x) \<Longrightarrow> retries_of s1 = retries_of s \<and> attempts_of s1 = Suc (attempts_of s)"
  using operation_retries operation_attempts by blast

lemma sleep_counters:
  "re_sleep env d s = (s1, x) \<Longrightarrow> retries_of s1 = retries_of s \<and> attempts_of s1 = attempts_of s"
  using sleep_retries sleep_attempts by blast

text \<open>Every retry was preceded by an attempt of its own.\<close>

lemma loop_balance:
  "retries_of (fst (retry_loop env p n r s)) + attempts_of s
     \<le> attempts_of (fst (retry_loop env p n r s)) + retries_of s"
  by (rule retry_loop_rule [where P = "\<lambda>n r s res.
        retries_of (fst res) + attempts_of s \<le> attempts_of (fst res) + retries_of s"])
    (auto simp: callback_keeps_attempts callback_counts_retry
      dest!: operation_counters sleep_counters)

lemma run_balance:
  assumes "run_with_retry env p s = (s', res)"
  shows "retries_of s' + attempts_of s \<le> attempts_of s' + retries_of s"
  using loop_balance [of p 0 0 s] assms by (simp add: run_with_retry_def)

lemma run_attempts:
  assumes "run_with_retry env p s = (s', res)" "0 < rp_max_attempts p"
  shows "attempts_of s < attempts_of s'" "int (attempts_of s') \<le> int (attempts_of s) + rp_max_attempts p"
    "res = Ret (x, out) \<Longrightarrow> attempts_of s' = attempts_of s + ro_attempts out"
  using loop_attempts [of 0 p s 0] assms by (auto simp: run_with_retry_def)

end

section \<open>Properties\<close>

text \<open>
  C36: every delay the policy computes, without rounding and overflow, lies between zero and the configured maximum, and
  within the jitter span around the capped exponential delay.
\<close>

theorem retry_delay_bounds:
  assumes "policy_ok p" "delay_for_retry p n r = Inr d"
  shows "0 \<le> d \<and> d \<le> rp_max_delay_s p \<and>
    \<bar>d - capped_delay p n\<bar> \<le> capped_delay p n * rp_jitter_ratio p"
  using delay_within_cap [OF assms] delay_within_jitter [OF assms] by simp

definition ex_retry_policy :: retry_policy where
  "ex_retry_policy = \<lparr>rp_max_attempts = 3, rp_initial_delay_s = 1, rp_max_delay_s = 3,
     rp_multiplier = 2, rp_jitter_ratio = 1 / 2\<rparr>"

theorem retry_delay_bounds_witness:
  "delay_for_retry ex_retry_policy 2 (3 / 4) = Inr (5 / 2) \<and> (5 / 2 :: rat) \<le> rp_max_delay_s ex_retry_policy"
proof -
  have d: "delay_for_retry ex_retry_policy 2 (3 / 4) = Inr (5 / 2)" by code_simp
  have "policy_ok ex_retry_policy" by code_simp
  then show ?thesis using retry_delay_bounds [OF _ d] d by simp
qed

text \<open>
  C13: the retry loop against its specification. If the first \<open>k\<close> calls of the operation
  fail transiently and call \<open>k\<close> does not, or is the last one allowed, the loop makes exactly
  \<open>k + 1\<close> calls, sleeps the \<open>k\<close> delays of the policy in order, and returns the outcome of the
  last call with the numbers of attempts and retries.
\<close>

theorem run_with_retry_scripted:
  assumes "\<forall>n. 0 \<le> rnd n \<and> rnd n \<le> 1" "int k < rp_max_attempts p" "\<forall>i < k. transient (f i)"
    and "\<not> transient (f k) \<or> int (Suc k) = rp_max_attempts p"
  shows "run_with_retry (scripted_env f rnd) p (0, []) =
    ((Suc k, map (delay_value p rnd) [1..<Suc k]), scripted_result k (f k))"
proof -
  have rnd: "0 \<le> rnd n \<and> rnd n \<le> 1" for n using assms(1) by simp
  have f: "transient (f i)" if "i < k" for i using assms(3) that by simp
  show ?thesis
    using retry_loop_scripted [of rnd 0 k p f "[]", OF rnd le0 assms(2) f assms(4)]
    by (simp add: run_with_retry_def)
qed

definition ex_script :: "nat \<Rightarrow> string outcome" where
  "ex_script n = (if n < 2 then Raise (exn PyTimeoutError ''slow'') else Ret ''ok'')"

theorem run_with_retry_scripted_witness:
  "run_with_retry (scripted_env ex_script default_random) ex_retry_policy (0, []) =
    ((3, [1, 2]), Ret (''ok'', success_outcome 3 2))"
proof -
  have t: "\<forall>i < 2. transient (ex_script i)"
    by (simp add: ex_script_def transient_def is_retryable_iff)
  have a: "\<forall>n. 0 \<le> default_random n \<and> default_random n \<le> 1" by (simp add: default_random_def)
  have b: "int 2 < rp_max_attempts ex_retry_policy" by code_simp
  have c: "\<not> transient (ex_script 2)" by (simp add: ex_script_def transient_def)
  have "map (delay_value ex_retry_policy default_random) [1..<Suc 2] = [1, 2]"
    "scripted_result 2 (ex_script 2) = Ret (''ok'', success_outcome 3 2)" by code_simp+
  then show ?thesis using run_with_retry_scripted [OF a b t] c by simp
qed

end
