(* ===== verification/Rounding.thy ===== *)
theory Rounding
  imports Prelude
begin

text \<open>
  The arithmetic of Python floats where rounding matters. An operation on floats gives the exact
  result, rounded; a \<open>rounding\<close> is any such function whose relative error is bounded. There are
  two instances: no rounding, and the rounding of a double to 53 bits, half to even (without the
  bounds of its exponent, which times in seconds do not reach).

  Shown: both are roundings, and how far a sum of rounded steps can drift from the exact sum.
\<close>

section \<open>Rounding to the nearest\<close>

definition round_half_even :: "rat \<Rightarrow> int" where
  "round_half_even r =
     (let f = \<lfloor>r\<rfloor>; d = r - of_int f
      in if d < 1 / 2 then f else if 1 / 2 < d then f + 1 else if even f then f else f + 1)"

lemma round_half_even_error: "\<bar>of_int (round_half_even r) - r\<bar> \<le> 1 / 2"
proof -
  define f where "f = \<lfloor>r\<rfloor>"
  have "of_int f \<le> r" "r < of_int f + 1" unfolding f_def by linarith+
  then show ?thesis unfolding round_half_even_def Let_def f_def [symmetric] by (simp add: abs_if)
qed

function int_bit_length :: "int \<Rightarrow> nat" where
  "int_bit_length n = (if n \<le> 0 then 0 else Suc (int_bit_length (n div 2)))"
  by auto
termination by (relation "measure nat") auto

declare int_bit_length.simps [simp del]

lemma int_bit_length_bounds:
  assumes "0 < n"
  shows "2 ^ (int_bit_length n - 1) \<le> n \<and> n < 2 ^ int_bit_length n \<and> 0 < int_bit_length n"
  using assms
proof (induction n rule: int_bit_length.induct)
  case (1 n)
  show ?case
  proof (cases "n div 2 = 0")
    case True
    then have "n = 1" using 1(2) by simp
    then show ?thesis by (simp add: int_bit_length.simps)
  next
    case False
    then have "0 < n div 2" using 1(2) by linarith
    then have IH: "2 ^ (int_bit_length (n div 2) - 1) \<le> n div 2" "n div 2 < 2 ^ int_bit_length (n div 2)"
      "0 < int_bit_length (n div 2)" using 1 by auto
    have len: "int_bit_length n = Suc (int_bit_length (n div 2))" using 1(2) by (simp add: int_bit_length.simps [of n])
    obtain k where k: "int_bit_length (n div 2) = Suc k" using IH(3) by (cases "int_bit_length (n div 2)") auto
    define p :: int where "p = 2 ^ k"
    have "p \<le> n div 2" "n div 2 < 2 * p" using IH(1,2) unfolding k by (simp_all add: p_def)
    then have "2 * p \<le> n \<and> n < 4 * p" by linarith
    then show ?thesis unfolding len k by (simp add: p_def)
  qed
qed

text \<open>The exponent that leaves 53 bits before the point, and the rounding of a positive number.\<close>

definition double_exponent :: "rat \<Rightarrow> int" where
  "double_exponent x =
     (case quotient_of x of (n, d) \<Rightarrow>
        let e = int (int_bit_length n) - int (int_bit_length d) - 53
        in if 2 ^ 53 \<le> x * 2 powi (- e) then e + 1 else e)"

definition round_positive :: "rat \<Rightarrow> rat" where
  "round_positive x =
     (let e = double_exponent x in of_int (round_half_even (x * 2 powi (- e))) * 2 powi e)"

definition round_double :: "rat \<Rightarrow> rat" where
  "round_double x = (if x = 0 then 0 else if x < 0 then - round_positive (- x) else round_positive x)"

lemma double_exponent_scales:
  assumes "0 < x"
  shows "2 ^ 52 \<le> x * 2 powi (- double_exponent x)"
proof -
  obtain n d where q: "quotient_of x = (n, d)" by fastforce
  then have d: "0 < d" by (rule quotient_of_denom_pos)
  have x: "x = of_int n / of_int d" by (rule quotient_of_div [OF q])
  then have n: "0 < n" using assms d by (simp add: zero_less_divide_iff)
  define bn where "bn = int_bit_length n"
  define bd where "bd = int_bit_length d"
  have bn: "2 ^ (bn - 1) \<le> n" "0 < bn" and bd: "d < 2 ^ bd"
    using int_bit_length_bounds [OF n] int_bit_length_bounds [OF d] by (auto simp: bn_def bd_def)
  define e where "e = int bn - int bd - 53"
  have "(of_int (2 ^ (bn - 1)) :: rat) \<le> of_int n" using bn(1) by (simp only: of_int_le_iff)
  then have "(2 :: rat) ^ (bn - 1) \<le> of_int n" by simp
  moreover have "(of_int d :: rat) < of_int (2 ^ bd)" using bd by (simp only: of_int_less_iff)
  then have "of_int d \<le> (2 :: rat) ^ bd" by simp
  ultimately have low: "2 ^ (bn - 1) / 2 ^ bd \<le> x"
    unfolding x using n d by (intro frac_le) auto
  have "(2 :: rat) ^ 52 = 2 ^ (bn - 1) / 2 ^ bd * 2 powi (- e)"
  proof -
    have "(2 :: rat) ^ (bn - 1) / 2 ^ bd = 2 powi (int (bn - 1) - int bd)"
      by (simp add: power_int_diff power_int_of_nat)
    also have "\<dots> * 2 powi (- e) = 2 powi (int (bn - 1) - int bd + - e)"
      by (simp add: power_int_add [symmetric])
    also have "int (bn - 1) - int bd + - e = int 52" using bn(2) by (simp add: e_def)
    finally show ?thesis by (simp only: power_int_of_nat)
  qed
  also have "\<dots> \<le> x * 2 powi (- e)" by (rule mult_right_mono [OF low]) simp
  finally have base: "2 ^ 52 \<le> x * 2 powi (- e)" .
  have exp: "double_exponent x = (if 2 ^ 53 \<le> x * 2 powi (- e) then e + 1 else e)"
    by (simp add: double_exponent_def q e_def bn_def bd_def)
  have half: "x * 2 powi (- (e + 1)) = x * 2 powi (- e) / 2"
    using power_int_diff [of "2 :: rat" "- e" 1] by simp
  show ?thesis
  proof (cases "2 ^ 53 \<le> x * 2 powi (- e)")
    case True
    then show ?thesis unfolding exp by (simp only: if_True half) simp
  next
    case False
    then show ?thesis using base unfolding exp by simp
  qed
qed

text \<open>The relative error of a double.\<close>

definition double_unit :: rat where
  "double_unit = 1 / 2 ^ 53"

lemma round_positive_error:
  assumes "0 < x"
  shows "\<bar>round_positive x - x\<bar> \<le> double_unit * x"
proof -
  define e where "e = double_exponent x"
  define s where "s = x * 2 powi (- e)"
  have s: "2 ^ 52 \<le> s" using double_exponent_scales [OF assms] by (simp add: s_def e_def)
  have p: "(0 :: rat) < 2 powi e" by simp
  have x: "x = s * 2 powi e" by (simp add: s_def mult.assoc power_int_add [symmetric])
  have "\<bar>round_positive x - x\<bar> = \<bar>of_int (round_half_even s) * 2 powi e - s * 2 powi e\<bar>"
    by (subst (2) x) (simp add: round_positive_def Let_def e_def [symmetric] s_def [symmetric])
  also have "\<dots> = \<bar>of_int (round_half_even s) - s\<bar> * 2 powi e"
    using p by (simp add: left_diff_distrib [symmetric] abs_mult)
  also have "\<dots> \<le> 1 / 2 * 2 powi e" using round_half_even_error [of s] p by (intro mult_right_mono) auto
  also have "1 / 2 \<le> double_unit * s" using s by (simp add: double_unit_def)
  then have "1 / 2 * 2 powi e \<le> double_unit * s * 2 powi e" using p by (intro mult_right_mono) auto
  also have "\<dots> = double_unit * x" by (simp add: x mult.assoc)
  finally show ?thesis .
qed

section \<open>Roundings\<close>

locale rounding =
  fixes fl :: "rat \<Rightarrow> rat"
    and u :: rat
  assumes unit: "0 \<le> u" "u < 1"
    and error: "\<bar>fl x - x\<bar> \<le> u * \<bar>x\<bar>"
begin

lemma rounded_bounds:
  assumes "0 \<le> x"
  shows "(1 - u) * x \<le> fl x" "fl x \<le> (1 + u) * x"
  using error [of x] assms by (simp_all add: abs_le_iff algebra_simps)

lemma rounded_nonneg: "0 \<le> x \<Longrightarrow> 0 \<le> fl x"
  using rounded_bounds(1) [of x] unit mult_nonneg_nonneg [of "1 - u" x] by linarith

lemma rounded_pos: "0 < x \<Longrightarrow> 0 < fl x"
  using rounded_bounds(1) [of x] unit mult_pos_pos [of "1 - u" x] by linarith

lemma rounded_0: "fl 0 = 0"
  using error [of 0] by simp

text \<open>One step of a sum: the steps and the sum are rounded.\<close>

lemma growth_mono: "m \<le> n \<Longrightarrow> (1 + u) ^ m \<le> (1 + u) ^ n"
  using unit by (intro power_increasing) auto

lemma step_drift:
  assumes "0 \<le> a" "0 \<le> b" "\<bar>t - a\<bar> \<le> ((1 + u) ^ m - 1) * a"
  shows "\<bar>fl (t + fl b) - (a + b)\<bar> \<le> ((1 + u) ^ (m + 2) - 1) * (a + b)"
proof -
  let ?c = "(1 + u) ^ Suc m"
  have one: "1 \<le> (1 + u) ^ m" using unit by simp
  have "(1 + u) ^ m \<le> ?c" by (rule growth_mono) simp
  then have "((1 + u) ^ m - 1) * a \<le> (?c - 1) * a" using assms(1) by (intro mult_right_mono) auto
  then have t: "\<bar>t - a\<bar> \<le> (?c - 1) * a" using assms(3) by linarith
  have "1 + u \<le> ?c" using growth_mono [of 1 "Suc m"] by simp
  then have "u * b \<le> (?c - 1) * b" using assms(2) by (intro mult_right_mono) auto
  moreover have "\<bar>fl b - b\<bar> \<le> u * b" using error [of b] assms(2) by simp
  ultimately have "\<bar>(t + fl b) - (a + b)\<bar> \<le> (?c - 1) * a + (?c - 1) * b" using t by linarith
  then have s: "\<bar>(t + fl b) - (a + b)\<bar> \<le> (?c - 1) * (a + b)" by (simp add: distrib_left)
  then have "\<bar>t + fl b\<bar> \<le> ?c * (a + b)" using assms(1,2) by (simp add: left_diff_distrib abs_le_iff)
  then have "u * \<bar>t + fl b\<bar> \<le> u * (?c * (a + b))" using unit(1) by (rule mult_left_mono)
  moreover have "\<bar>fl (t + fl b) - (t + fl b)\<bar> \<le> u * \<bar>t + fl b\<bar>" by (rule error)
  ultimately have "\<bar>fl (t + fl b) - (a + b)\<bar> \<le> u * (?c * (a + b)) + (?c - 1) * (a + b)" using s by linarith
  also have "\<dots> = ((1 + u) ^ (m + 2) - 1) * (a + b)" by (simp add: algebra_simps)
  finally show ?thesis .
qed

end

interpretation exact: rounding "\<lambda>x. x" 0
  by unfold_locales auto

lemma round_double_error: "\<bar>round_double x - x\<bar> \<le> double_unit * \<bar>x\<bar>"
proof -
  consider "x = 0" | "0 < x" | "0 < - x" by linarith
  then show ?thesis
  proof cases
    case 1
    then show ?thesis by (simp add: round_double_def)
  next
    case 2
    then show ?thesis using round_positive_error [OF 2] by (simp add: round_double_def)
  next
    case 3
    then have "round_double x - x = - (round_positive (- x) - (- x))" by (simp add: round_double_def)
    then have "\<bar>round_double x - x\<bar> = \<bar>round_positive (- x) - (- x)\<bar>" by (simp only: abs_minus_cancel)
    moreover have "\<bar>x\<bar> = - x" using 3 by (intro abs_of_neg) simp
    ultimately show ?thesis using round_positive_error [OF 3] by (simp only:)
  qed
qed

lemma double_unit_bounds: "0 \<le> double_unit" "double_unit < 1"
  by (simp_all add: double_unit_def)

interpretation double: rounding round_double double_unit
  by unfold_locales (fact double_unit_bounds round_double_error)+

end
