(* ===== verification/Scheduler.thy ===== *)
theory Scheduler
  imports Retry Rounding
begin

text \<open>
  src/plc_gateway/runtime/scheduler.py: the fixed-interval scheduler. The state is the
  scheduler object together with the asyncio tasks it has created and that are still
  alive. A step is one of the things the event loop can do next: a pass of the \<^verbatim>\<open>run\<close>
  loop, the first step or the end of a cycle task, \<^verbatim>\<open>stop\<close>, \<^verbatim>\<open>cancel_active_cycles\<close>.
  Times are floats: every operation that computes one rounds its result with the function \<open>fl\<close>, a
  parameter of the model; comparisons and the floor of the quotient are exact.

  Shown for every reachable state: with any rounding, a group never has two live cycles, and
  every slot is counted as started or missed while due times drift from the grid of the interval only
  by the rounding; without rounding a pass leaves every due time in the future. A task that is cancelled before its first step
  never runs its \<^verbatim>\<open>finally\<close> block, and its group is never started again
  (\<open>cancelled_before_start_stuck\<close>).
\<close>

section \<open>State\<close>

record group_schedule =
  gs_group :: tag_group_config
  gs_next_due_at :: rat
  gs_active_task :: "nat option"
  gs_started_cycles :: int
  gs_missed_cycles :: int
  gs_failed_cycles :: int
  gs_last_started_at :: "rat option"
  gs_last_finished_at :: "rat option"
  gs_last_error :: "string option"

text \<open>A live asyncio task running \<^verbatim>\<open>_run_cycle\<close>; \<open>tk_entered\<close> after its first step.\<close>

record cycle_task =
  tk_id :: nat
  tk_group :: string
  tk_entered :: bool

record scheduler =
  sc_schedules :: "(string \<times> group_schedule) list"
  sc_running :: bool
  sc_stop_requested :: bool
  sc_tasks :: "cycle_task list"
  sc_next_task :: nat

definition interval_seconds :: "(rat \<Rightarrow> rat) \<Rightarrow> tag_group_config \<Rightarrow> rat" where
  "interval_seconds fl g = fl (of_int (tg_interval_ms g) / 1000)"

definition due_count :: "(rat \<Rightarrow> rat) \<Rightarrow> rat \<Rightarrow> rat \<Rightarrow> rat \<Rightarrow> int" where
  "due_count fl now next_due_at interval =
     (if now < next_due_at then 0 else \<lfloor>fl (now - next_due_at) / interval\<rfloor> + 1)"

section \<open>Operations\<close>

definition new_schedule :: "tag_group_config \<Rightarrow> rat \<Rightarrow> group_schedule" where
  "new_schedule g start =
     \<lparr>gs_group = g, gs_next_due_at = start, gs_active_task = None, gs_started_cycles = 0,
      gs_missed_cycles = 0, gs_failed_cycles = 0, gs_last_started_at = None,
      gs_last_finished_at = None, gs_last_error = None\<rparr>"

fun build_schedules ::
  "rat \<Rightarrow> tag_group_config list \<Rightarrow> (string \<times> group_schedule) list
     \<Rightarrow> (string \<times> group_schedule) list result" where
  "build_schedules start [] acc = Inr acc"
| "build_schedules start (g # gs) acc =
     (if \<not> tg_enabled g then build_schedules start gs acc
      else if tg_overlap_policy g \<noteq> OP_Skip
        then Inl (exn_coded ConfigurationError
          (''Unsupported overlap policy '' @ quoted (overlap_policy_value (tg_overlap_policy g)) @ ''.'')
          ''unsupported_overlap_policy'' [(''tag_group_id'', PStr (tg_id g))])
      else if map_of acc (tg_id g) \<noteq> None
        then Inl (exn_coded ConfigurationError
          (''Duplicate scheduled tag group '' @ quoted (tg_id g) @ ''.'')
          ''duplicate_scheduled_tag_group'' [(''tag_group_id'', PStr (tg_id g))])
      else build_schedules start gs (acc @ [(tg_id g, new_schedule g start)]))"

definition scheduler_new :: "tag_group_config list \<Rightarrow> rat \<Rightarrow> scheduler result" where
  "scheduler_new groups start =
     rbind (build_schedules start groups []) (\<lambda>sch.
       Inr \<lparr>sc_schedules = sch, sc_running = False, sc_stop_requested = False,
            sc_tasks = [], sc_next_task = 0\<rparr>)"

text \<open>\<^verbatim>\<open>next_due_at += due_count * interval\<close>\<close>

definition advance :: "(rat \<Rightarrow> rat) \<Rightarrow> rat \<Rightarrow> int \<Rightarrow> rat \<Rightarrow> rat" where
  "advance fl interval n due = fl (due + fl (of_int n * interval))"

text \<open>The body of the loop of \<^verbatim>\<open>_start_due_cycles\<close>; the flag says that a task was created.\<close>

definition start_schedule :: "(rat \<Rightarrow> rat) \<Rightarrow> rat \<Rightarrow> nat \<Rightarrow> group_schedule \<Rightarrow> group_schedule \<times> bool" where
  "start_schedule fl now tid s =
     (if now < gs_next_due_at s then (s, False)
      else let interval = interval_seconds fl (gs_group s);
               n = due_count fl now (gs_next_due_at s) interval;
               s1 = s\<lparr>gs_next_due_at := advance fl interval n (gs_next_due_at s)\<rparr>
           in if gs_active_task s \<noteq> None
              then (s1\<lparr>gs_missed_cycles := gs_missed_cycles s1 + n\<rparr>, False)
              else (s1\<lparr>gs_started_cycles := gs_started_cycles s1 + 1,
                       gs_last_started_at := Some now,
                       gs_last_error := None,
                       gs_missed_cycles := gs_missed_cycles s1 + (if n > 1 then n - 1 else 0),
                       gs_active_task := Some tid\<rparr>, True))"

fun start_due ::
  "(rat \<Rightarrow> rat) \<Rightarrow> rat \<Rightarrow> nat \<Rightarrow> (string \<times> group_schedule) list
     \<Rightarrow> (string \<times> group_schedule) list \<times> cycle_task list \<times> nat" where
  "start_due fl now tid [] = ([], [], tid)"
| "start_due fl now tid ((k, s) # rest) =
     (let (s', new) = start_schedule fl now tid s;
          (rest', ts, tid') = start_due fl now (if new then Suc tid else tid) rest
      in ((k, s') # rest',
          (if new then [\<lparr>tk_id = tid, tk_group = k, tk_entered = False\<rparr>] else []) @ ts, tid'))"

definition start_due_cycles :: "(rat \<Rightarrow> rat) \<Rightarrow> rat \<Rightarrow> scheduler \<Rightarrow> scheduler" where
  "start_due_cycles fl now w =
     (case start_due fl now (sc_next_task w) (sc_schedules w) of
        (sch, ts, tid) \<Rightarrow>
          w\<lparr>sc_schedules := sch, sc_tasks := sc_tasks w @ ts, sc_next_task := tid\<rparr>)"

definition seconds_until_next_due :: "(rat \<Rightarrow> rat) \<Rightarrow> rat \<Rightarrow> scheduler \<Rightarrow> rat" where
  "seconds_until_next_due fl now w =
     (case map (gs_next_due_at \<circ> snd) (sc_schedules w) of
        [] \<Rightarrow> fl (1 / 10)
      | d # ds \<Rightarrow> max 0 (fl (fold min ds d - now)))"

text \<open>The end of \<^verbatim>\<open>_run_cycle\<close>: the \<^verbatim>\<open>except\<close> clause and the \<^verbatim>\<open>finally\<close> block.\<close>

definition finish_schedule :: "unit outcome \<Rightarrow> rat \<Rightarrow> group_schedule \<Rightarrow> group_schedule" where
  "finish_schedule out now s =
     (let s1 = (case out of
          Raise e \<Rightarrow> s\<lparr>gs_failed_cycles := gs_failed_cycles s + 1,
                       gs_last_error := Some (exn_message e)\<rparr>
        | _ \<Rightarrow> s)
      in s1\<lparr>gs_last_finished_at := Some now, gs_active_task := None\<rparr>)"

definition map_schedule ::
  "string \<Rightarrow> (group_schedule \<Rightarrow> group_schedule) \<Rightarrow> (string \<times> group_schedule) list
     \<Rightarrow> (string \<times> group_schedule) list" where
  "map_schedule k f sch = map (\<lambda>(k', s). (k', if k' = k then f s else s)) sch"

definition finish_cycle :: "cycle_task \<Rightarrow> unit outcome \<Rightarrow> rat \<Rightarrow> scheduler \<Rightarrow> scheduler" where
  "finish_cycle t out now w =
     w\<lparr>sc_schedules := map_schedule (tk_group t) (finish_schedule out now) (sc_schedules w),
       sc_tasks := filter (\<lambda>u. tk_id u \<noteq> tk_id t) (sc_tasks w)\<rparr>"

definition enter_cycle :: "cycle_task \<Rightarrow> scheduler \<Rightarrow> scheduler" where
  "enter_cycle t w =
     w\<lparr>sc_tasks := map (\<lambda>u. if tk_id u = tk_id t then u\<lparr>tk_entered := True\<rparr> else u) (sc_tasks w)\<rparr>"

text \<open>
  \<^verbatim>\<open>cancel_active_cycles\<close> cancels the task of every schedule. A task that has not made
  its first step dies without executing any of its body; one that has will end with a
  cycle step of its own, through the \<^verbatim>\<open>finally\<close> block.
\<close>

definition cancel_active_cycles :: "scheduler \<Rightarrow> scheduler" where
  "cancel_active_cycles w =
     (let cancelled = List.map_filter (gs_active_task \<circ> snd) (sc_schedules w)
      in w\<lparr>sc_tasks := filter (\<lambda>t. tk_entered t \<or> tk_id t \<notin> set cancelled) (sc_tasks w)\<rparr>)"

record schedule_state =
  ss_tag_group_id :: string
  ss_interval_ms :: int
  ss_running :: bool
  ss_started_cycles :: int
  ss_missed_cycles :: int
  ss_failed_cycles :: int
  ss_next_due_at :: rat
  ss_last_started_at :: "rat option"
  ss_last_finished_at :: "rat option"
  ss_last_error :: "string option"

definition schedule_state_of :: "group_schedule \<Rightarrow> schedule_state" where
  "schedule_state_of s =
     \<lparr>ss_tag_group_id = tg_id (gs_group s), ss_interval_ms = tg_interval_ms (gs_group s),
      ss_running = (gs_active_task s \<noteq> None), ss_started_cycles = gs_started_cycles s,
      ss_missed_cycles = gs_missed_cycles s, ss_failed_cycles = gs_failed_cycles s,
      ss_next_due_at = gs_next_due_at s, ss_last_started_at = gs_last_started_at s,
      ss_last_finished_at = gs_last_finished_at s, ss_last_error = gs_last_error s\<rparr>"

definition snapshot :: "scheduler \<Rightarrow> bool \<times> schedule_state list" where
  "snapshot w =
     (sc_running w,
      map schedule_state_of (sort_key (\<lambda>s. tg_id (gs_group s)) (map snd (sc_schedules w))))"

section \<open>Steps\<close>

datatype sched_event =
    Run
  | Tick rat
  | Enter nat
  | Finish nat "unit outcome" rat
  | Stop
  | Cancel_Cycles
  | Run_Exit
  | Run_Cancelled

inductive sched_step :: "(rat \<Rightarrow> rat) \<Rightarrow> scheduler \<Rightarrow> sched_event \<Rightarrow> scheduler \<Rightarrow> bool" for fl where
  run: "\<not> sc_running w \<Longrightarrow>
    sched_step fl w Run (w\<lparr>sc_running := True, sc_stop_requested := False\<rparr>)"
| tick: "sc_running w \<Longrightarrow> \<not> sc_stop_requested w \<Longrightarrow>
    sched_step fl w (Tick now) (start_due_cycles fl now w)"
| enter: "t \<in> set (sc_tasks w) \<Longrightarrow> \<not> tk_entered t \<Longrightarrow>
    sched_step fl w (Enter (tk_id t)) (enter_cycle t w)"
| finish: "t \<in> set (sc_tasks w) \<Longrightarrow> tk_entered t \<Longrightarrow>
    sched_step fl w (Finish (tk_id t) out now) (finish_cycle t out now w)"
| stop: "sched_step fl w Stop (w\<lparr>sc_stop_requested := True\<rparr>)"
| cancel: "sched_step fl w Cancel_Cycles (cancel_active_cycles w)"
| exit: "sc_running w \<Longrightarrow> sc_stop_requested w \<Longrightarrow>
    sched_step fl w Run_Exit (w\<lparr>sc_running := False\<rparr>)"
| cancelled: "sc_running w \<Longrightarrow>
    sched_step fl w Run_Cancelled ((cancel_active_cycles w)\<lparr>sc_running := False\<rparr>)"

inductive_cases sched_step_TickE: "sched_step fl w (Tick now) w'"

inductive sched_reach :: "(rat \<Rightarrow> rat) \<Rightarrow> scheduler \<Rightarrow> scheduler \<Rightarrow> bool" for fl w0 where
  start: "sched_reach fl w0 w0"
| step: "sched_reach fl w0 w \<Longrightarrow> sched_step fl w ev w' \<Longrightarrow> sched_reach fl w0 w'"

section \<open>Due times\<close>

text \<open>Without rounding, the slots of a late pass are those due by now.\<close>

lemma due_count_bounds:
  assumes "0 < i" "next_due \<le> now"
  shows "1 \<le> due_count (\<lambda>x. x) now next_due i"
    "now < next_due + of_int (due_count (\<lambda>x. x) now next_due i) * i"
    "next_due + of_int (due_count (\<lambda>x. x) now next_due i - 1) * i \<le> now"
proof -
  let ?q = "(now - next_due) / i"
  have d: "due_count (\<lambda>x. x) now next_due i = \<lfloor>?q\<rfloor> + 1" using assms by (simp add: due_count_def)
  have "0 \<le> ?q" using assms by simp
  then have "0 \<le> \<lfloor>?q\<rfloor>" by simp
  then show "1 \<le> due_count (\<lambda>x. x) now next_due i" by (simp add: d)
  have q: "?q * i = now - next_due" using assms by simp
  have "?q < of_int (\<lfloor>?q\<rfloor> + 1)" by linarith
  then have "?q * i < of_int (\<lfloor>?q\<rfloor> + 1) * i" using assms by (simp only: mult_less_cancel_right_pos)
  then show "now < next_due + of_int (due_count (\<lambda>x. x) now next_due i) * i" unfolding d q by linarith
  have "of_int \<lfloor>?q\<rfloor> * i \<le> ?q * i" using assms by (intro mult_right_mono) auto
  then show "next_due + of_int (due_count (\<lambda>x. x) now next_due i - 1) * i \<le> now"
    unfolding d q by simp
qed

lemma start_schedule_due:
  assumes "tag_group_ok (gs_group s)" "start_schedule (\<lambda>x. x) now tid s = (s', new)"
  shows "now < gs_next_due_at s'"
proof -
  have "0 < interval_seconds (\<lambda>x. x) (gs_group s)" using assms(1) by (simp add: interval_seconds_def tag_group_ok_def)
  then show ?thesis
    using assms(2) due_count_bounds(2) [of "interval_seconds (\<lambda>x. x) (gs_group s)" "gs_next_due_at s" now]
    by (auto simp: start_schedule_def advance_def Let_def split: if_splits)
qed

text \<open>
  The bookkeeping of one schedule: its due time is the start time advanced by the slots of one
  pass after the other, and every slot was started or missed.
\<close>

definition schedule_inv :: "(rat \<Rightarrow> rat) \<Rightarrow> rat \<Rightarrow> group_schedule \<Rightarrow> bool" where
  "schedule_inv fl start s \<longleftrightarrow> (\<exists>passes. (\<forall>n \<in> set passes. 1 \<le> n) \<and>
     sum_list passes = gs_started_cycles s + gs_missed_cycles s \<and>
     gs_next_due_at s = fold (advance fl (interval_seconds fl (gs_group s))) passes start)"

lemma finish_schedule_inv: "schedule_inv fl start s \<Longrightarrow> schedule_inv fl start (finish_schedule out now s)"
  by (auto simp: schedule_inv_def finish_schedule_def Let_def split: outcome.splits)

context rounding
begin

lemma interval_positive: "tag_group_ok g \<Longrightarrow> 0 < interval_seconds fl g"
  by (simp add: interval_seconds_def tag_group_ok_def rounded_pos)

lemma due_count_positive:
  assumes "0 < i" "next_due \<le> now"
  shows "1 \<le> due_count fl now next_due i"
proof -
  have "0 \<le> fl (now - next_due) / i" using assms by (simp add: rounded_nonneg)
  then show ?thesis using assms(2) by (simp add: due_count_def)
qed

lemma start_schedule_inv:
  assumes "schedule_inv fl start s" "tag_group_ok (gs_group s)" "start_schedule fl now tid s = (s', new)"
  shows "schedule_inv fl start s'"
proof (cases "now < gs_next_due_at s")
  case True
  then show ?thesis using assms by (simp add: start_schedule_def)
next
  case False
  let ?i = "interval_seconds fl (gs_group s)"
  define n where "n = due_count fl now (gs_next_due_at s) ?i"
  have n: "1 \<le> n" using False interval_positive [OF assms(2)] by (simp add: n_def due_count_positive)
  obtain passes where passes: "\<forall>n \<in> set passes. 1 \<le> n"
    "sum_list passes = gs_started_cycles s + gs_missed_cycles s"
    "gs_next_due_at s = fold (advance fl ?i) passes start" using assms(1) by (auto simp: schedule_inv_def)
  have s': "gs_next_due_at s' = advance fl ?i n (gs_next_due_at s)" "gs_group s' = gs_group s"
    "gs_started_cycles s' + gs_missed_cycles s' = gs_started_cycles s + gs_missed_cycles s + n"
    using assms(3) False n by (auto simp: start_schedule_def Let_def n_def [symmetric] split: if_splits)
  show ?thesis unfolding schedule_inv_def
    by (rule exI [of _ "passes @ [n]"]) (use passes n s' in auto)
qed

text \<open>The drift from the grid: one rounding of the step and one of the sum in each pass.\<close>

lemma advance_drift:
  assumes "0 \<le> i" "0 \<le> start" "\<forall>n \<in> set passes. 1 \<le> n"
  shows "\<bar>fold (advance fl i) passes start - (start + of_int (sum_list passes) * i)\<bar>
      \<le> ((1 + u) ^ (2 * length passes) - 1) * (start + of_int (sum_list passes) * i)"
  using assms(3)
proof (induction passes rule: rev_induct)
  case (snoc n passes)
  define a where "a = start + of_int (sum_list passes) * i"
  define b where "b = of_int n * i"
  define t where "t = fold (advance fl i) passes start"
  have "0 \<le> sum_list passes" using snoc.prems by (intro sum_list_nonneg) force
  then have "0 \<le> of_int (sum_list passes) * i" using assms(1) by (intro mult_nonneg_nonneg) simp_all
  then have a: "0 \<le> a" using assms(2) by (simp add: a_def)
  have b: "0 \<le> b" using snoc.prems assms(1) by (simp add: b_def)
  have "\<bar>t - a\<bar> \<le> ((1 + u) ^ (2 * length passes) - 1) * a"
    using snoc.IH snoc.prems unfolding a_def t_def by simp
  then have "\<bar>fl (t + fl b) - (a + b)\<bar> \<le> ((1 + u) ^ (2 * length passes + 2) - 1) * (a + b)"
    by (rule step_drift [OF a b])
  moreover have "fold (advance fl i) (passes @ [n]) start = fl (t + fl b)"
    by (simp add: advance_def t_def b_def)
  moreover have "start + of_int (sum_list (passes @ [n])) * i = a + b"
    by (simp add: a_def b_def distrib_right)
  moreover have "2 * length (passes @ [n]) = 2 * length passes + 2" by simp
  ultimately show ?case by (simp only:)
qed simp

lemma schedule_drift:
  assumes "schedule_inv fl start s" "tag_group_ok (gs_group s)" "0 \<le> start"
  shows "let slots = gs_started_cycles s + gs_missed_cycles s;
      grid = start + of_int slots * interval_seconds fl (gs_group s)
    in 0 \<le> slots \<and> \<bar>gs_next_due_at s - grid\<bar> \<le> ((1 + u) ^ (2 * nat slots) - 1) * grid"
proof -
  let ?i = "interval_seconds fl (gs_group s)"
  have i: "0 \<le> ?i" using interval_positive [OF assms(2)] by simp
  obtain passes where passes: "\<forall>n \<in> set passes. 1 \<le> n"
    "sum_list passes = gs_started_cycles s + gs_missed_cycles s"
    "gs_next_due_at s = fold (advance fl ?i) passes start" using assms(1) by (auto simp: schedule_inv_def)
  define grid where "grid = start + of_int (sum_list passes) * ?i"
  have len: "int (length passes) \<le> sum_list passes" using passes(1)
    by (induction passes) auto
  then have grid: "0 \<le> grid" using i assms(3) by (simp add: grid_def)
  have "(1 + u) ^ (2 * length passes) \<le> (1 + u) ^ (2 * nat (sum_list passes))"
    using len by (intro growth_mono) simp
  then have "((1 + u) ^ (2 * length passes) - 1) * grid \<le> ((1 + u) ^ (2 * nat (sum_list passes)) - 1) * grid"
    using grid by (intro mult_right_mono) auto
  moreover have "\<bar>gs_next_due_at s - grid\<bar> \<le> ((1 + u) ^ (2 * length passes) - 1) * grid"
    using advance_drift [OF i assms(3) passes(1)] unfolding passes(3) grid_def .
  moreover have "0 \<le> sum_list passes" using len by linarith
  ultimately show ?thesis unfolding Let_def passes(2) [symmetric] grid_def [symmetric] by linarith
qed

end

lemma start_schedule_group [frame]:
  "start_schedule fl now tid s = (s', new) \<Longrightarrow> gs_group s' = gs_group s"
  by (auto simp: start_schedule_def Let_def split: if_splits)

lemma start_schedule_active:
  "start_schedule fl now tid s = (s', new) \<Longrightarrow>
     gs_active_task s' = (if new then Some tid else gs_active_task s) \<and>
     (new \<longrightarrow> gs_active_task s = None)"
  by (auto simp: start_schedule_def Let_def split: if_splits)

section \<open>The invariant of reachable states\<close>

definition slot_of :: "scheduler \<Rightarrow> string \<Rightarrow> nat option" where
  "slot_of w k =
     (case map_of (sc_schedules w) k of None \<Rightarrow> None | Some s \<Rightarrow> gs_active_task s)"

definition schedules_ok :: "scheduler \<Rightarrow> bool" where
  "schedules_ok w \<longleftrightarrow> distinct (map fst (sc_schedules w)) \<and>
     (\<forall>(k, s) \<in> set (sc_schedules w). tg_id (gs_group s) = k \<and> tag_group_ok (gs_group s))"

definition slot_below :: "nat \<Rightarrow> group_schedule \<Rightarrow> bool" where
  "slot_below n s \<longleftrightarrow> (case gs_active_task s of None \<Rightarrow> True | Some i \<Rightarrow> i < n)"

text \<open>Every live task is the one its schedule's slot names, and task ids are fresh.\<close>

definition tasks_ok :: "scheduler \<Rightarrow> bool" where
  "tasks_ok w \<longleftrightarrow> distinct (map tk_id (sc_tasks w)) \<and>
     (\<forall>t \<in> set (sc_tasks w). tk_id t < sc_next_task w \<and>
        slot_of w (tk_group t) = Some (tk_id t)) \<and>
     (\<forall>(k, s) \<in> set (sc_schedules w). slot_below (sc_next_task w) s)"

lemma tasks_okD:
  "tasks_ok w \<Longrightarrow> t \<in> set (sc_tasks w) \<Longrightarrow>
     slot_of w (tk_group t) = Some (tk_id t) \<and> tk_id t < sc_next_task w"
  by (simp add: tasks_ok_def)

lemma start_due_keys: "start_due fl now tid sch = (sch', ts, tid') \<Longrightarrow> map fst sch' = map fst sch"
  by (induction fl now tid sch arbitrary: sch' ts tid' rule: start_due.induct)
    (auto split: prod.splits)

lemma start_due_ids:
  "start_due fl now tid sch = (sch', ts, tid') \<Longrightarrow>
     tid \<le> tid' \<and> distinct (map tk_id ts) \<and> (\<forall>t \<in> set ts. tid \<le> tk_id t \<and> tk_id t < tid')"
proof (induction fl now tid sch arbitrary: sch' ts tid' rule: start_due.induct)
  case (1 fl now tid)
  then show ?case by simp
next
  case (2 fl now tid k s rest)
  obtain s' new where n: "start_schedule fl now tid s = (s', new)" by fastforce
  obtain rest' ts' tid'' where r:
    "start_due fl now (if new then Suc tid else tid) rest = (rest', ts', tid'')"
    using prod_cases3 by blast
  have IH: "(if new then Suc tid else tid) \<le> tid'' \<and> distinct (map tk_id ts') \<and>
      (\<forall>t \<in> set ts'. (if new then Suc tid else tid) \<le> tk_id t \<and> tk_id t < tid'')"
    using "2.IH" [OF n [symmetric] refl] r by blast
  then show ?case using "2.prems" n r
    by (auto split: if_splits) (use Suc_le_lessD Suc_leD in fastforce)+
qed

text \<open>Each schedule makes its own pass; a task is created exactly for the ones that start.\<close>

lemma start_due_schedule:
  assumes "start_due fl now tid sch = (sch', ts, tid')" "distinct (map fst sch)" "(k, s') \<in> set sch'"
  obtains s tid0 new where "(k, s) \<in> set sch" "start_schedule fl now tid0 s = (s', new)" "tid \<le> tid0"
    "new \<Longrightarrow> tid0 < tid'"
  using assms
proof (induction fl now tid sch arbitrary: sch' ts tid' thesis rule: start_due.induct)
  case (1 fl now tid)
  then show ?case by simp
next
  case (2 fl now tid k0 s0 rest)
  obtain s1 new where n: "start_schedule fl now tid s0 = (s1, new)" by fastforce
  obtain rest' ts' tid'' where r:
    "start_due fl now (if new then Suc tid else tid) rest = (rest', ts', tid'')"
    using prod_cases3 by blast
  have eq: "sch' = (k0, s1) # rest'" "tid' = tid''" using "2.prems"(2) n r by auto
  show ?case
  proof (cases "(k, s') = (k0, s1)")
    case True
    have "(if new then Suc tid else tid) \<le> tid''" using start_due_ids [OF r] by blast
    then show ?thesis using "2.prems"(1) [of s0 tid new] n True eq by (auto split: if_splits)
  next
    case False
    then have "(k, s') \<in> set rest'" using "2.prems"(4) eq by auto
    then obtain s tid0 new' where "(k, s) \<in> set rest" "start_schedule fl now tid0 s = (s', new')"
      "(if new then Suc tid else tid) \<le> tid0" "new' \<Longrightarrow> tid0 < tid''"
      using "2.IH" [OF n [symmetric] refl _ r] "2.prems"(3) by auto
    then show ?thesis using "2.prems"(1) [of s tid0 new'] eq by (auto split: if_splits)
  qed
qed

lemma start_due_task:
  assumes "start_due fl now tid sch = (sch', ts, tid')" "distinct (map fst sch)" "t \<in> set ts"
  shows "\<exists>s'. (tk_group t, s') \<in> set sch' \<and> gs_active_task s' = Some (tk_id t) \<and> \<not> tk_entered t"
  using assms
proof (induction fl now tid sch arbitrary: sch' ts tid' rule: start_due.induct)
  case (1 fl now tid)
  then show ?case by simp
next
  case (2 fl now tid k0 s0 rest)
  obtain s1 new where n: "start_schedule fl now tid s0 = (s1, new)" by fastforce
  obtain rest' ts' tid'' where r:
    "start_due fl now (if new then Suc tid else tid) rest = (rest', ts', tid'')"
    using prod_cases3 by blast
  have eq: "sch' = (k0, s1) # rest'"
    "ts = (if new then [\<lparr>tk_id = tid, tk_group = k0, tk_entered = False\<rparr>] else []) @ ts'"
    using "2.prems"(1) n r by auto
  show ?case
  proof (cases "t \<in> set ts'")
    case True
    then have "\<exists>s'. (tk_group t, s') \<in> set rest' \<and> gs_active_task s' = Some (tk_id t) \<and> \<not> tk_entered t"
      using "2.IH" [OF n [symmetric] refl r] "2.prems"(2) by simp
    then show ?thesis using eq by auto
  next
    case False
    then have "new" "t = \<lparr>tk_id = tid, tk_group = k0, tk_entered = False\<rparr>"
      using "2.prems"(3) eq by (auto split: if_splits)
    then show ?thesis using start_schedule_active [OF n] eq by auto
  qed
qed

lemma start_due_old_slot:
  assumes "start_due fl now tid sch = (sch', ts, tid')" "distinct (map fst sch)"
    "map_of sch k = Some s" "gs_active_task s = Some i"
  shows "\<exists>s'. map_of sch' k = Some s' \<and> gs_active_task s' = Some i \<and>
    gs_started_cycles s' = gs_started_cycles s"
proof -
  have d: "distinct (map fst sch')" using assms(2) start_due_keys [OF assms(1)] by simp
  have "k \<in> set (map fst sch')"
    using assms(3) start_due_keys [OF assms(1)] by (auto dest: map_of_SomeD intro: rev_image_eqI)
  then obtain s' where s': "(k, s') \<in> set sch'" by auto
  then obtain s0 tid0 new where "(k, s0) \<in> set sch" "start_schedule fl now tid0 s0 = (s', new)"
    using start_due_schedule [OF assms(1,2)] by metis
  moreover have "s0 = s"
    using calculation(1) assms(2,3) by (metis map_of_eq_Some_iff option.inject)
  ultimately have "gs_active_task s' = Some i \<and> gs_started_cycles s' = gs_started_cycles s"
    using assms(4) by (auto simp: start_schedule_def Let_def split: if_splits)
  then show ?thesis using s' d by (metis map_of_eq_Some_iff)
qed

lemma start_due_cycles_schedules_ok:
  assumes "schedules_ok w"
  shows "schedules_ok (start_due_cycles fl now w)"
proof -
  obtain sch' ts tid' where sd: "start_due fl now (sc_next_task w) (sc_schedules w) = (sch', ts, tid')"
    using prod_cases3 by blast
  have d: "distinct (map fst (sc_schedules w))" using assms by (simp add: schedules_ok_def)
  have "tg_id (gs_group s') = k \<and> tag_group_ok (gs_group s')" if ks: "(k, s') \<in> set sch'" for k s'
  proof -
    obtain s tid0 new where "(k, s) \<in> set (sc_schedules w)" "start_schedule fl now tid0 s = (s', new)"
      using start_due_schedule [OF sd d ks] by metis
    then show ?thesis
      using assms start_schedule_group by (fastforce simp: schedules_ok_def)
  qed
  then show ?thesis using sd d start_due_keys [OF sd]
    by (auto simp: schedules_ok_def start_due_cycles_def)
qed

lemma start_due_cycles_due:
  assumes "schedules_ok w" "(k, s') \<in> set (sc_schedules (start_due_cycles (\<lambda>x. x) now w))"
  shows "now < gs_next_due_at s'"
proof -
  obtain sch' ts tid' where sd: "start_due (\<lambda>x. x) now (sc_next_task w) (sc_schedules w) = (sch', ts, tid')"
    using prod_cases3 by blast
  have "(k, s') \<in> set sch'" using assms(2) sd by (simp add: start_due_cycles_def)
  then obtain s tid0 new where "(k, s) \<in> set (sc_schedules w)" "start_schedule (\<lambda>x. x) now tid0 s = (s', new)"
    using start_due_schedule [OF sd] assms(1) by (metis schedules_ok_def)
  moreover from this(1) have "tag_group_ok (gs_group s)"
    using assms(1) by (auto simp: schedules_ok_def)
  ultimately show ?thesis using start_schedule_due by blast
qed

lemma start_due_cycles_tasks_ok:
  assumes s: "schedules_ok w" and t: "tasks_ok w"
  shows "tasks_ok (start_due_cycles fl now w)"
proof -
  obtain sch' ts tid' where sd: "start_due fl now (sc_next_task w) (sc_schedules w) = (sch', ts, tid')"
    using prod_cases3 by blast
  have d: "distinct (map fst (sc_schedules w))" using s by (simp add: schedules_ok_def)
  then have d': "distinct (map fst sch')" using start_due_keys [OF sd] by simp
  have w': "start_due_cycles fl now w =
      w\<lparr>sc_schedules := sch', sc_tasks := sc_tasks w @ ts, sc_next_task := tid'\<rparr>"
    using sd by (simp add: start_due_cycles_def)
  have ids: "sc_next_task w \<le> tid'" "distinct (map tk_id ts)"
    "\<And>u. u \<in> set ts \<Longrightarrow> sc_next_task w \<le> tk_id u \<and> tk_id u < tid'"
    using start_due_ids [OF sd] by auto
  have old: "tk_id u < sc_next_task w \<and> slot_of w (tk_group u) = Some (tk_id u)"
    if "u \<in> set (sc_tasks w)" for u using t that by (auto simp: tasks_ok_def)
  have slot: "slot_of (start_due_cycles fl now w) (tk_group u) = Some (tk_id u)"
    if u: "u \<in> set (sc_tasks w) \<or> u \<in> set ts" for u
  proof (cases "u \<in> set ts")
    case True
    then obtain s' where "(tk_group u, s') \<in> set sch'" "gs_active_task s' = Some (tk_id u)"
      using start_due_task [OF sd d] by blast
    then show ?thesis using d' by (simp add: slot_of_def w')
  next
    case False
    then obtain s0 where "map_of (sc_schedules w) (tk_group u) = Some s0"
      "gs_active_task s0 = Some (tk_id u)"
      using u old [of u] by (auto simp: slot_of_def split: option.splits)
    then show ?thesis using start_due_old_slot [OF sd d] by (fastforce simp: slot_of_def w')
  qed
  have "slot_below tid' s'" if ks: "(k, s') \<in> set sch'" for k s'
  proof -
    obtain s0 tid0 new where *: "(k, s0) \<in> set (sc_schedules w)"
      "start_schedule fl now tid0 s0 = (s', new)" "new \<Longrightarrow> tid0 < tid'"
      using start_due_schedule [OF sd d ks] by metis
    then show ?thesis
      using start_schedule_active [OF *(2)] t ids(1)
      by (cases new) (fastforce simp: tasks_ok_def slot_below_def split: option.splits)+
  qed
  moreover have "distinct (map tk_id (sc_tasks w @ ts))"
    using t ids old by (fastforce simp: tasks_ok_def)
  ultimately show ?thesis unfolding tasks_ok_def
    using slot old ids by (fastforce simp: w')
qed

lemma map_of_map_schedule:
  "map_of (map_schedule k f sch) k' = map_option (if k' = k then f else id) (map_of sch k')"
  by (induction sch) (auto simp: map_schedule_def)

lemma keys_map_schedule [simp]: "map fst (map_schedule k f sch) = map fst sch"
  by (induction sch) (auto simp: map_schedule_def)

lemma set_map_schedule:
  "(k', s') \<in> set (map_schedule k f sch) \<Longrightarrow> \<exists>s. (k', s) \<in> set sch \<and> s' = (if k' = k then f s else s)"
  by (auto simp: map_schedule_def)

lemma finish_schedule_simps [simp]:
  "gs_active_task (finish_schedule out now s) = None"
  "gs_group (finish_schedule out now s) = gs_group s"
  "gs_started_cycles (finish_schedule out now s) = gs_started_cycles s"
  by (auto simp: finish_schedule_def Let_def split: outcome.splits)

lemma finish_cycle_schedules_ok:
  "schedules_ok w \<Longrightarrow> schedules_ok (finish_cycle t out now w)"
  by (fastforce simp: schedules_ok_def finish_cycle_def dest!: set_map_schedule
      split: if_splits)

lemma finish_cycle_slot:
  "slot_of (finish_cycle t out now w) k = (if k = tk_group t then None else slot_of w k)"
  by (auto simp: slot_of_def finish_cycle_def map_of_map_schedule split: option.splits)

lemma finish_cycle_tasks_ok:
  assumes "tasks_ok w" "t \<in> set (sc_tasks w)"
  shows "tasks_ok (finish_cycle t out now w)"
proof -
  let ?w = "finish_cycle t out now w"
  have t: "slot_of w (tk_group t) = Some (tk_id t)" using assms by (auto simp: tasks_ok_def)
  have "distinct (map tk_id (filter (\<lambda>u. tk_id u \<noteq> tk_id t) (sc_tasks w)))"
    using assms(1) by (simp add: tasks_ok_def distinct_map_filter)
  moreover have "tk_id u < sc_next_task w \<and> slot_of ?w (tk_group u) = Some (tk_id u)"
    if "u \<in> set (sc_tasks w)" "tk_id u \<noteq> tk_id t" for u
  proof -
    have u: "tk_id u < sc_next_task w" "slot_of w (tk_group u) = Some (tk_id u)"
      using assms(1) that by (auto simp: tasks_ok_def)
    then have "tk_group u \<noteq> tk_group t" using t that by auto
    then show ?thesis using u by (simp add: finish_cycle_slot)
  qed
  moreover have "slot_below (sc_next_task w) s" if "(k, s) \<in> set (sc_schedules ?w)" for k s
    using that assms(1)
    by (fastforce simp: tasks_ok_def finish_cycle_def slot_below_def dest!: set_map_schedule
        split: if_splits)
  ultimately show ?thesis unfolding tasks_ok_def by (auto simp: finish_cycle_def)
qed

lemma enter_cycle_ok:
  "schedules_ok w \<Longrightarrow> schedules_ok (enter_cycle t w)"
  "tasks_ok w \<Longrightarrow> tasks_ok (enter_cycle t w)"
proof -
  have ids: "tk_id \<circ> (\<lambda>u. if tk_id u = i then u\<lparr>tk_entered := True\<rparr> else u) = tk_id" for i
    by auto
  show "schedules_ok w \<Longrightarrow> schedules_ok (enter_cycle t w)"
    by (simp add: schedules_ok_def enter_cycle_def)
  show "tasks_ok w \<Longrightarrow> tasks_ok (enter_cycle t w)"
    by (auto simp: tasks_ok_def enter_cycle_def slot_of_def ids split: if_splits)
qed

lemma cancel_active_cycles_ok:
  "schedules_ok w \<Longrightarrow> schedules_ok (cancel_active_cycles w)"
  "tasks_ok w \<Longrightarrow> tasks_ok (cancel_active_cycles w)"
  by (auto simp: schedules_ok_def tasks_ok_def cancel_active_cycles_def slot_of_def
      distinct_map_filter Let_def)

lemma flags_ok:
  "schedules_ok (w\<lparr>sc_running := b\<rparr>) = schedules_ok w"
  "schedules_ok (w\<lparr>sc_stop_requested := b\<rparr>) = schedules_ok w"
  "tasks_ok (w\<lparr>sc_running := b\<rparr>) = tasks_ok w"
  "tasks_ok (w\<lparr>sc_stop_requested := b\<rparr>) = tasks_ok w"
  by (simp_all add: schedules_ok_def tasks_ok_def slot_of_def)

lemmas sched_ops_ok =
  flags_ok start_due_cycles_schedules_ok start_due_cycles_tasks_ok finish_cycle_schedules_ok
  finish_cycle_tasks_ok enter_cycle_ok cancel_active_cycles_ok

lemma sched_step_ok:
  assumes "sched_step fl w ev w'" "schedules_ok w" "tasks_ok w"
  shows "schedules_ok w' \<and> tasks_ok w'"
  using assms by (induction rule: sched_step.induct) (simp_all add: sched_ops_ok)

lemma sched_reach_ok:
  assumes "sched_reach fl w0 w" "schedules_ok w0" "tasks_ok w0"
  shows "schedules_ok w \<and> tasks_ok w"
  using assms by (induction rule: sched_reach.induct) (auto dest: sched_step_ok)

lemma build_schedules_inv:
  assumes "build_schedules start gs acc = Inr sch" "\<forall>g \<in> set gs. tag_group_ok g"
    "distinct (map fst acc)"
    "\<forall>(k, s) \<in> set acc. tg_id (gs_group s) = k \<and> tag_group_ok (gs_group s) \<and> s = new_schedule (gs_group s) start"
  shows "distinct (map fst sch) \<and>
    (\<forall>(k, s) \<in> set sch. tg_id (gs_group s) = k \<and> tag_group_ok (gs_group s) \<and> s = new_schedule (gs_group s) start)"
  using assms
proof (induction start gs acc rule: build_schedules.induct)
  case (1 start acc)
  then show ?case by simp
next
  case (2 start g gs acc)
  have new: "tag_group_ok g" "gs_group (new_schedule g start) = g"
    using "2.prems"(2) by (auto simp: new_schedule_def)
  show ?case
  proof (cases "tg_enabled g")
    case False
    then show ?thesis using "2.IH"(1) "2.prems" by auto
  next
    case True
    then have fresh: "map_of acc (tg_id g) = None" and op: "tg_overlap_policy g = OP_Skip"
      and rec: "build_schedules start gs (acc @ [(tg_id g, new_schedule g start)]) = Inr sch"
      using "2.prems"(1) by (auto split: if_splits)
    have "distinct (map fst (acc @ [(tg_id g, new_schedule g start)]))"
      using fresh "2.prems"(3) by (simp add: map_of_eq_None_iff)
    then show ?thesis using "2.IH"(2) True op fresh rec "2.prems"(2,4) new by auto
  qed
qed

definition on_grid :: "(rat \<Rightarrow> rat) \<Rightarrow> rat \<Rightarrow> scheduler \<Rightarrow> bool" where
  "on_grid fl start w \<longleftrightarrow> (\<forall>(k, s) \<in> set (sc_schedules w). schedule_inv fl start s)"

lemma new_schedule_inv: "schedule_inv fl start (new_schedule g start)"
  by (simp add: schedule_inv_def new_schedule_def exI [of _ "[]"])

lemma scheduler_new_ok:
  assumes "scheduler_new gs start = Inr w" "\<forall>g \<in> set gs. tag_group_ok g"
  shows "schedules_ok w \<and> tasks_ok w \<and> on_grid fl start w"
proof -
  obtain sch where sch: "build_schedules start gs [] = Inr sch" "sc_schedules w = sch" "sc_tasks w = []"
    using assms(1) by (auto simp: scheduler_new_def)
  note new = build_schedules_inv [OF sch(1) assms(2), simplified]
  have "gs_active_task s = None \<and> schedule_inv fl start s" if "(k, s) \<in> set sch" for k s
  proof -
    have "s = new_schedule (gs_group s) start" using new that by blast
    then show ?thesis using new_schedule_inv [of fl start "gs_group s"] by (metis group_schedule.select_convs(3) new_schedule_def)
  qed
  then show ?thesis using new sch(2,3)
    by (fastforce simp: schedules_ok_def tasks_ok_def slot_below_def on_grid_def)
qed

context rounding
begin

lemma start_due_cycles_grid:
  assumes "schedules_ok w" "on_grid fl start w"
  shows "on_grid fl start (start_due_cycles fl now w)"
proof -
  obtain sch' ts tid' where sd: "start_due fl now (sc_next_task w) (sc_schedules w) = (sch', ts, tid')"
    using prod_cases3 by blast
  have d: "distinct (map fst (sc_schedules w))" using assms(1) by (simp add: schedules_ok_def)
  have "schedule_inv fl start s'" if ks: "(k, s') \<in> set sch'" for k s'
  proof -
    obtain s tid0 new where s: "(k, s) \<in> set (sc_schedules w)" "start_schedule fl now tid0 s = (s', new)"
      using start_due_schedule [OF sd d ks] by metis
    then have "schedule_inv fl start s" "tag_group_ok (gs_group s)"
      using assms by (auto simp: schedules_ok_def on_grid_def)
    then show ?thesis using start_schedule_inv s(2) by blast
  qed
  then show ?thesis using sd by (auto simp: on_grid_def start_due_cycles_def)
qed

lemma sched_step_grid:
  assumes "sched_step fl w ev w'" "schedules_ok w" "on_grid fl start w"
  shows "on_grid fl start w'"
  using assms
proof (induction rule: sched_step.induct)
  case (tick w now)
  then show ?case using start_due_cycles_grid by blast
next
  case (finish t w out now)
  then show ?case
    by (auto simp: on_grid_def finish_cycle_def finish_schedule_inv split: if_splits dest!: set_map_schedule)
qed (simp_all add: on_grid_def enter_cycle_def cancel_active_cycles_def Let_def)

lemma sched_reach_grid:
  assumes "sched_reach fl w0 w" "schedules_ok w0" "tasks_ok w0" "on_grid fl start w0"
  shows "on_grid fl start w"
  using assms
proof (induction rule: sched_reach.induct)
  case (step w ev w')
  then show ?case using sched_step_grid sched_reach_ok by blast
qed

end

lemma no_overlap:
  assumes "tasks_ok w" "t \<in> set (sc_tasks w)" "u \<in> set (sc_tasks w)" "tk_group t = tk_group u"
  shows "t = u"
proof -
  have "slot_of w (tk_group t) = Some (tk_id t)" "slot_of w (tk_group u) = Some (tk_id u)"
    using tasks_okD [OF assms(1)] assms(2,3) by blast+
  then have "tk_id t = tk_id u" using assms(4) by simp
  moreover have "distinct (map tk_id (sc_tasks w))" using assms(1) by (simp add: tasks_ok_def)
  ultimately show ?thesis using assms(2,3) by (auto simp: distinct_map inj_on_def)
qed

section \<open>A cycle cancelled before its first step\<close>

definition dead_slot :: "scheduler \<Rightarrow> string \<Rightarrow> bool" where
  "dead_slot w k \<longleftrightarrow>
     (case slot_of w k of None \<Rightarrow> False | Some i \<Rightarrow> i \<notin> set (map tk_id (sc_tasks w)))"

definition started_of :: "scheduler \<Rightarrow> string \<Rightarrow> int option" where
  "started_of w k = map_option gs_started_cycles (map_of (sc_schedules w) k)"

lemma cancel_makes_dead_slot:
  assumes "tasks_ok w" "t \<in> set (sc_tasks w)" "\<not> tk_entered t"
  shows "dead_slot (cancel_active_cycles w) (tk_group t)"
proof -
  obtain s where s: "map_of (sc_schedules w) (tk_group t) = Some s" "gs_active_task s = Some (tk_id t)"
    using assms by (fastforce simp: tasks_ok_def slot_of_def split: option.splits)
  have "tk_id t \<in> set (List.map_filter (gs_active_task \<circ> snd) (sc_schedules w))"
    using map_of_SomeD [OF s(1)] s(2) by (force simp: map_filter_def)
  moreover have "u = t" if "u \<in> set (sc_tasks w)" "tk_id u = tk_id t" for u
    using that assms(1,2) by (auto simp: tasks_ok_def distinct_map inj_on_def)
  ultimately have "tk_id t \<notin> set (map tk_id (sc_tasks (cancel_active_cycles w)))"
    using assms(3) by (auto simp: cancel_active_cycles_def Let_def)
  then show ?thesis using s by (simp add: dead_slot_def slot_of_def cancel_active_cycles_def Let_def)
qed

lemma dead_slotE:
  assumes "dead_slot w k"
  obtains s i where "map_of (sc_schedules w) k = Some s" "gs_active_task s = Some i"
    "i \<notin> set (map tk_id (sc_tasks w))"
  using assms by (auto simp: dead_slot_def slot_of_def split: option.splits)

lemma start_due_cycles_stuck:
  assumes "schedules_ok w" "tasks_ok w" "dead_slot w k"
  shows "dead_slot (start_due_cycles fl now w) k \<and>
    started_of (start_due_cycles fl now w) k = started_of w k"
proof -
  obtain s i where s: "map_of (sc_schedules w) k = Some s" "gs_active_task s = Some i"
    "i \<notin> set (map tk_id (sc_tasks w))" using assms(3) by (rule dead_slotE)
  obtain sch' ts tid' where sd: "start_due fl now (sc_next_task w) (sc_schedules w) = (sch', ts, tid')"
    using prod_cases3 by blast
  have d: "distinct (map fst (sc_schedules w))" using assms(1) by (simp add: schedules_ok_def)
  obtain s' where s': "map_of sch' k = Some s'" "gs_active_task s' = Some i"
    "gs_started_cycles s' = gs_started_cycles s"
    using start_due_old_slot [OF sd d s(1,2)] by blast
  have "slot_below (sc_next_task w) s"
    using assms(2) map_of_SomeD [OF s(1)] by (auto simp: tasks_ok_def)
  then have "i < sc_next_task w" using s(2) by (simp add: slot_below_def)
  then have "i \<notin> set (map tk_id ts)" using start_due_ids [OF sd] by fastforce
  then show ?thesis using s s' sd
    by (auto simp: dead_slot_def slot_of_def started_of_def start_due_cycles_def)
qed

lemma sched_step_stuck:
  assumes "sched_step fl w ev w'" "schedules_ok w" "tasks_ok w" "dead_slot w k"
  shows "dead_slot w' k \<and> started_of w' k = started_of w k"
  using assms
proof (induction rule: sched_step.induct)
  case (tick w now)
  then show ?case using start_due_cycles_stuck by blast
next
  case (finish t w out now)
  have "tk_group t \<noteq> k"
    using tasks_okD [OF finish(4,1)] finish(1,5) by (auto simp: dead_slot_def)
  then show ?case using finish(5)
    by (auto simp: dead_slot_def finish_cycle_slot started_of_def finish_cycle_def
        map_of_map_schedule slot_of_def split: option.splits)
qed (auto simp: dead_slot_def slot_of_def started_of_def enter_cycle_def
    cancel_active_cycles_def Let_def split: option.splits if_splits)

lemma sched_reach_stuck:
  assumes "sched_reach fl w w'" "schedules_ok w" "tasks_ok w" "dead_slot w k"
  shows "dead_slot w' k \<and> started_of w' k = started_of w k"
  using assms
proof (induction rule: sched_reach.induct)
  case start
  then show ?case by simp
next
  case (step w1 ev w2)
  have "schedules_ok w1 \<and> tasks_ok w1" using sched_reach_ok [OF step(1)] step.prems by blast
  then show ?case using sched_step_stuck [OF step(2)] step.IH step.prems by metis
qed

section \<open>Waking up\<close>

lemma fold_min:
  fixes d :: rat
  shows "fold min ds d \<le> x \<longleftrightarrow> d \<le> x \<or> (\<exists>y \<in> set ds. y \<le> x)"
    and "fold min ds d \<in> insert d (set ds)"
proof -
  show "fold min ds d \<le> x \<longleftrightarrow> d \<le> x \<or> (\<exists>y \<in> set ds. y \<le> x)"
    by (induction ds arbitrary: d) (auto simp: min_le_iff_disj)
  show "fold min ds d \<in> insert d (set ds)"
  proof (induction ds arbitrary: d)
    case (Cons a ds)
    have "min a d = a \<or> min a d = d" by (auto simp: min_def)
    then show ?case using Cons [of "min a d"] by auto
  qed simp
qed

text \<open>The loop sleeps exactly until the first due time: not later, and never a negative delay.\<close>

lemma seconds_until_next_due_spec:
  assumes "sc_schedules w \<noteq> []"
  shows "0 \<le> seconds_until_next_due (\<lambda>x. x) now w"
    "\<exists>(k, s) \<in> set (sc_schedules w). gs_next_due_at s \<le> now + seconds_until_next_due (\<lambda>x. x) now w"
    "(k, s) \<in> set (sc_schedules w) \<Longrightarrow> now \<le> gs_next_due_at s \<Longrightarrow>
       now + seconds_until_next_due (\<lambda>x. x) now w \<le> max now (gs_next_due_at s)"
proof -
  let ?due = "gs_next_due_at \<circ> snd"
  obtain x xs where w: "sc_schedules w = x # xs" using assms by (cases "sc_schedules w") auto
  define m where "m = fold min (map ?due xs) (?due x)"
  have sec: "seconds_until_next_due (\<lambda>x. x) now w = max 0 (m - now)"
    by (simp add: seconds_until_next_due_def w m_def)
  have mem: "m \<in> ?due ` set (sc_schedules w)"
    using fold_min(2) [of "map ?due xs" "?due x"] by (auto simp: w m_def)
  show "0 \<le> seconds_until_next_due (\<lambda>x. x) now w" by (simp add: sec)
  show "\<exists>(k, s) \<in> set (sc_schedules w). gs_next_due_at s \<le> now + seconds_until_next_due (\<lambda>x. x) now w"
  proof -
    obtain x where x: "x \<in> set (sc_schedules w)" "m = gs_next_due_at (snd x)" using mem by auto
    have "gs_next_due_at (snd x) \<le> now + max 0 (m - now)" using x(2) by simp
    then show ?thesis unfolding sec using x(1) by (intro bexI [of _ x]) (auto split: prod.split)
  qed
  show "now + seconds_until_next_due (\<lambda>x. x) now w \<le> max now (gs_next_due_at s)"
    if "(k, s) \<in> set (sc_schedules w)" "now \<le> gs_next_due_at s"
  proof -
    have "m \<le> gs_next_due_at s"
      using that(1) fold_min(1) [of "map ?due xs" "?due x" "gs_next_due_at s"]
      by (force simp: w m_def)
    then show ?thesis using that(2) unfolding sec by auto
  qed
qed

section \<open>Properties\<close>

text \<open>
  Without rounding the number of slots a late pass accounts for is exact: the last of them is due by
  now and the next one is in the future.
\<close>

lemma due_count_exact:
  assumes "tag_group_ok g" "next_due \<le> now"
  shows "let n = due_count (\<lambda>x. x) now next_due (interval_seconds (\<lambda>x. x) g)
    in 1 \<le> n \<and> next_due + of_int (n - 1) * interval_seconds (\<lambda>x. x) g \<le> now \<and>
       now < next_due + of_int n * interval_seconds (\<lambda>x. x) g"
proof -
  have i: "0 < interval_seconds (\<lambda>x. x) g" by (rule exact.interval_positive [OF assms(1)])
  show ?thesis unfolding Let_def using due_count_bounds [OF i assms(2)] by blast
qed

text \<open>
  C7: overlap protection. In every state reachable from a new scheduler, by any interleaving
  of passes, task steps, stops and cancellations, no tag group has two live cycles.
\<close>

theorem scheduler_no_overlap:
  assumes "scheduler_new gs start = Inr w0" "\<forall>g \<in> set gs. tag_group_ok g" "sched_reach fl w0 w"
    and "t \<in> set (sc_tasks w)" "u \<in> set (sc_tasks w)" "tk_group t = tk_group u"
  shows "t = u"
  using sched_reach_ok [OF assms(3)] scheduler_new_ok [OF assms(1,2)] no_overlap assms(4-6) by blast

text \<open>
  C22: no slot is lost. With any rounding of the float operations, in every reachable state, the
  slots counted as started or missed are exactly those by which the passes have advanced the due
  time of the group. Hence the due time is the start time plus one interval for each slot, up to two
  roundings for each slot: exactly without rounding, and within the error bound of
  doubles as they are.
\<close>

theorem scheduler_accounts_slots:
  assumes "rounding fl u" "scheduler_new gs start = Inr w0" "\<forall>g \<in> set gs. tag_group_ok g" "sched_reach fl w0 w"
    and "(k, s) \<in> set (sc_schedules w)" "0 \<le> start"
  shows "let slots = gs_started_cycles s + gs_missed_cycles s;
      interval = interval_seconds fl (gs_group s);
      grid = start + of_int slots * interval
    in 0 \<le> slots \<and>
       (\<exists>passes. (\<forall>n \<in> set passes. 1 \<le> n) \<and> sum_list passes = slots \<and>
          gs_next_due_at s = fold (advance fl interval) passes start) \<and>
       \<bar>gs_next_due_at s - grid\<bar> \<le> ((1 + u) ^ (2 * nat slots) - 1) * grid"
proof -
  have new: "schedules_ok w0" "tasks_ok w0" "on_grid fl start w0" using scheduler_new_ok [OF assms(2,3)] by blast+
  have "schedules_ok w" using sched_reach_ok [OF assms(4)] new by blast
  moreover have "on_grid fl start w" using rounding.sched_reach_grid [OF assms(1,4) new] .
  ultimately have "schedule_inv fl start s" "tag_group_ok (gs_group s)"
    using assms(5) by (auto simp: on_grid_def schedules_ok_def)
  then show ?thesis
    using rounding.schedule_drift [OF assms(1) _ _ assms(6), of s] by (auto simp: schedule_inv_def Let_def)
qed

text \<open>
  C37: computed without rounding, after a pass of the loop in a reachable state every group is due in the future, and
  the delay until the next pass is not negative and ends exactly at the earliest due time.
\<close>

theorem pass_schedules_future:
  assumes "scheduler_new gs start = Inr w0" "\<forall>g \<in> set gs. tag_group_ok g" "sched_reach (\<lambda>x. x) w0 w"
    and "sc_schedules w \<noteq> []" "w' = start_due_cycles (\<lambda>x. x) now w"
  shows "(\<forall>(k, s) \<in> set (sc_schedules w'). now < gs_next_due_at s \<and>
      now + seconds_until_next_due (\<lambda>x. x) now w' \<le> gs_next_due_at s) \<and>
    (\<exists>(k, s) \<in> set (sc_schedules w'). gs_next_due_at s = now + seconds_until_next_due (\<lambda>x. x) now w')"
proof -
  have ok: "schedules_ok w"
    using sched_reach_ok [OF assms(3)] scheduler_new_ok [OF assms(1,2)] by blast
  have due: "now < gs_next_due_at s" if "(k, s) \<in> set (sc_schedules w')" for k s
    using start_due_cycles_due [OF ok] that assms(5) by blast
  obtain sch' ts tid' where sd: "start_due (\<lambda>x. x) now (sc_next_task w) (sc_schedules w) = (sch', ts, tid')"
    using prod_cases3 by blast
  have "map fst (sc_schedules w') = map fst (sc_schedules w)"
    using start_due_keys [OF sd] sd assms(5) by (simp add: start_due_cycles_def)
  then have ne: "sc_schedules w' \<noteq> []" using assms(4) by auto
  have le: "now + seconds_until_next_due (\<lambda>x. x) now w' \<le> gs_next_due_at s"
    if "(k, s) \<in> set (sc_schedules w')" for k s
    using seconds_until_next_due_spec(3) [OF ne that] due [OF that] by (simp add: max_def split: if_splits)
  obtain k s where ks: "(k, s) \<in> set (sc_schedules w')"
    "gs_next_due_at s \<le> now + seconds_until_next_due (\<lambda>x. x) now w'"
    using seconds_until_next_due_spec(2) [OF ne, where now = now] by auto
  then have "gs_next_due_at s = now + seconds_until_next_due (\<lambda>x. x) now w'" using le by force
  then show ?thesis using ks(1) due le by auto
qed

text \<open>
  C40: a cycle task that is cancelled before its first step leaves its slot taken for ever:
  from then on, whatever happens, the number of started cycles of its group never changes.
\<close>

theorem cancelled_before_start_stuck:
  assumes "scheduler_new gs start = Inr w0" "\<forall>g \<in> set gs. tag_group_ok g" "sched_reach fl w0 w"
    and "t \<in> set (sc_tasks w)" "\<not> tk_entered t" "sched_reach fl (cancel_active_cycles w) w'"
  shows "started_of w' (tk_group t) = started_of w (tk_group t)"
proof -
  have ok: "schedules_ok w" "tasks_ok w"
    using sched_reach_ok [OF assms(3)] scheduler_new_ok [OF assms(1,2)] by blast+
  have ok': "schedules_ok (cancel_active_cycles w)" "tasks_ok (cancel_active_cycles w)"
    using cancel_active_cycles_ok ok by blast+
  have "started_of w' (tk_group t) = started_of (cancel_active_cycles w) (tk_group t)"
    using sched_reach_stuck [OF assms(6) ok'] cancel_makes_dead_slot [OF ok(2) assms(4,5)] by blast
  then show ?thesis by (simp add: started_of_def cancel_active_cycles_def Let_def)
qed

text \<open>A scheduler with one group, started and past its first pass.\<close>

definition ex_sched_group :: tag_group_config where
  "ex_sched_group = \<lparr>tg_id = ''g'', tg_connection_id = ''c'', tg_interval_ms = 500,
     tg_timeout_ms = 100, tg_overlap_policy = OP_Skip, tg_enabled = True\<rparr>"

definition ex_sched_new :: scheduler where
  "ex_sched_new = (case scheduler_new [ex_sched_group] 10 of Inr w \<Rightarrow> w)"

definition ex_sched_running :: scheduler where
  "ex_sched_running = ex_sched_new\<lparr>sc_running := True, sc_stop_requested := False\<rparr>"

definition ex_sched :: scheduler where
  "ex_sched = start_due_cycles (\<lambda>x. x) 12 ex_sched_running"

definition ex_task :: cycle_task where
  "ex_task = \<lparr>tk_id = 0, tk_group = ''g'', tk_entered = False\<rparr>"

lemma ex_sched_facts:
  "scheduler_new [ex_sched_group] 10 = Inr ex_sched_new" "\<forall>g \<in> set [ex_sched_group]. tag_group_ok g"
  "sched_reach (\<lambda>x. x) ex_sched_new ex_sched" "sched_reach (\<lambda>x. x) ex_sched_new ex_sched_running"
  "ex_task \<in> set (sc_tasks ex_sched)"
proof -
  show "scheduler_new [ex_sched_group] 10 = Inr ex_sched_new" unfolding ex_sched_new_def by code_simp
  show "\<forall>g \<in> set [ex_sched_group]. tag_group_ok g" by code_simp
  have "\<not> sc_running ex_sched_new" by code_simp
  then have "sched_step (\<lambda>x. x) ex_sched_new Run ex_sched_running"
    unfolding ex_sched_running_def by (rule sched_step.run)
  then show r: "sched_reach (\<lambda>x. x) ex_sched_new ex_sched_running"
    using sched_reach.step [OF sched_reach.start] by blast
  have "sc_running ex_sched_running" "\<not> sc_stop_requested ex_sched_running" by code_simp+
  then have "sched_step (\<lambda>x. x) ex_sched_running (Tick 12) ex_sched"
    unfolding ex_sched_def by (rule sched_step.tick)
  then show "sched_reach (\<lambda>x. x) ex_sched_new ex_sched" using sched_reach.step [OF r] by blast
  show "ex_task \<in> set (sc_tasks ex_sched)" by code_simp
qed

theorem scheduler_no_overlap_witness:
  "{u \<in> set (sc_tasks ex_sched). tk_group u = ''g''} = {ex_task}"
proof -
  have g: "tk_group ex_task = ''g''" by code_simp
  then have "u = ex_task" if "u \<in> set (sc_tasks ex_sched)" "tk_group u = ''g''" for u
    using scheduler_no_overlap [OF ex_sched_facts(1,2,3) that(1) ex_sched_facts(5)] that(2) by simp
  then show ?thesis using g ex_sched_facts(5) by auto
qed

text \<open>
  The scheduler with the doubles of Python, started at 0 with an interval of 100 ms: after
  three passes the next due time is 0.30000000000000004.
\<close>

definition ex_fast_group :: tag_group_config where
  "ex_fast_group = ex_sched_group\<lparr>tg_interval_ms := 100\<rparr>"

definition ex_fast_new :: scheduler where
  "ex_fast_new = (case scheduler_new [ex_fast_group] 0 of Inr w \<Rightarrow> w)"

definition ex_fast_running :: scheduler where
  "ex_fast_running = ex_fast_new\<lparr>sc_running := True, sc_stop_requested := False\<rparr>"

definition ex_fast_ticks :: "rat list" where
  "ex_fast_ticks = [0, 1 / 8, 1 / 4]"

definition ex_fast :: scheduler where
  "ex_fast = fold (start_due_cycles round_double) ex_fast_ticks ex_fast_running"

lemma start_due_cycles_flags [simp]:
  "sc_running (start_due_cycles fl now w) = sc_running w"
  "sc_stop_requested (start_due_cycles fl now w) = sc_stop_requested w"
  by (simp_all add: start_due_cycles_def split: prod.splits)

lemma fold_ticks_reach:
  assumes "sched_reach fl w0 w" "sc_running w" "\<not> sc_stop_requested w"
  shows "sched_reach fl w0 (fold (start_due_cycles fl) ticks w)"
  using assms
proof (induction ticks arbitrary: w)
  case (Cons now ticks)
  have "sched_step fl w (Tick now) (start_due_cycles fl now w)" using Cons.prems(2,3) by (rule sched_step.tick)
  then have "sched_reach fl w0 (start_due_cycles fl now w)" by (rule sched_reach.step [OF Cons.prems(1)])
  then show ?case using Cons.IH Cons.prems(2,3) by simp
qed simp

lemma ex_fast_reach: "sched_reach round_double ex_fast_new ex_fast"
proof -
  have "\<not> sc_running ex_fast_new" by code_simp
  then have "sched_step round_double ex_fast_new Run ex_fast_running"
    unfolding ex_fast_running_def by (rule sched_step.run)
  then have "sched_reach round_double ex_fast_new ex_fast_running"
    by (rule sched_reach.step [OF sched_reach.start])
  moreover have "sc_running ex_fast_running" "\<not> sc_stop_requested ex_fast_running" by code_simp+
  ultimately show ?thesis unfolding ex_fast_def by (rule fold_ticks_reach)
qed

lemma ex_fast_value:
  "map (\<lambda>(k, s). (k, gs_group s, gs_started_cycles s, gs_missed_cycles s, gs_next_due_at s)) (sc_schedules ex_fast) =
     [(''g'', ex_fast_group, 1, 2, 1351079888211149 / 4503599627370496)]"
  by code_simp

theorem scheduler_accounts_slots_witness:
  "\<exists>(k, s) \<in> set (sc_schedules ex_fast). let grid = 3 * interval_seconds round_double ex_fast_group
   in gs_next_due_at s \<noteq> 3 / 10 \<and> \<bar>gs_next_due_at s - grid\<bar> \<le> ((1 + double_unit) ^ 6 - 1) * grid"
proof -
  have new: "scheduler_new [ex_fast_group] 0 = Inr ex_fast_new" unfolding ex_fast_new_def by code_simp
  have ok: "\<forall>g \<in> set [ex_fast_group]. tag_group_ok g" by code_simp
  obtain k s where s: "(k, s) \<in> set (sc_schedules ex_fast)" "gs_group s = ex_fast_group" "gs_started_cycles s = 1"
    "gs_missed_cycles s = 2" "gs_next_due_at s = 1351079888211149 / 4503599627370496"
    using ex_fast_value by (auto simp: map_eq_Cons_conv)
  have "\<bar>gs_next_due_at s - 3 * interval_seconds round_double ex_fast_group\<bar>
      \<le> ((1 + double_unit) ^ 6 - 1) * (3 * interval_seconds round_double ex_fast_group)"
    using scheduler_accounts_slots [OF double.rounding_axioms new ok ex_fast_reach s(1) order_refl] s(2-4)
    by (simp add: Let_def)
  moreover have "gs_next_due_at s \<noteq> 3 / 10" unfolding s(5) by simp
  ultimately show ?thesis using s(1) unfolding Let_def by blast
qed

theorem pass_schedules_future_witness:
  "12 < gs_next_due_at (snd (hd (sc_schedules ex_sched)))"
proof -
  have "sc_schedules ex_sched_running \<noteq> []" by code_simp
  from pass_schedules_future [OF ex_sched_facts(1,2,4) this ex_sched_def]
  have "\<forall>(k, s) \<in> set (sc_schedules ex_sched). 12 < gs_next_due_at s" by auto
  moreover have "hd (sc_schedules ex_sched) \<in> set (sc_schedules ex_sched)" by code_simp
  ultimately show ?thesis by (auto simp: split_beta)
qed

theorem cancelled_before_start_stuck_witness:
  "started_of (start_due_cycles (\<lambda>x. x) 20 (cancel_active_cycles ex_sched)) ''g'' = Some 1"
proof -
  have "sc_running (cancel_active_cycles ex_sched)" "\<not> sc_stop_requested (cancel_active_cycles ex_sched)"
    by code_simp+
  then have "sched_step (\<lambda>x. x) (cancel_active_cycles ex_sched) (Tick 20)
      (start_due_cycles (\<lambda>x. x) 20 (cancel_active_cycles ex_sched))" by (rule sched_step.tick)
  then have r: "sched_reach (\<lambda>x. x) (cancel_active_cycles ex_sched)
      (start_due_cycles (\<lambda>x. x) 20 (cancel_active_cycles ex_sched))"
    using sched_reach.step [OF sched_reach.start] by blast
  have "\<not> tk_entered ex_task" "tk_group ex_task = ''g''" "started_of ex_sched ''g'' = Some 1" by code_simp+
  then show ?thesis
    using cancelled_before_start_stuck [OF ex_sched_facts(1,2,3,5) _ r] by simp
qed

end
