(* ===== verification/Base64.thy ===== *)
theory Base64
  imports Prelude
begin

text \<open>
  \<^verbatim>\<open>base64.b64encode\<close> and \<^verbatim>\<open>base64.b64decode\<close> of the standard library, which the spool uses
  for binary values. The decoder is the non-strict one of \<^verbatim>\<open>binascii\<close>: it skips characters
  outside the alphabet and stops at the padding. Shown: it inverts the encoder.
\<close>

definition b64_alphabet :: string where
  "b64_alphabet = ''ABCDEFGHIJKLMNOPQRSTUVWXYZabcdefghijklmnopqrstuvwxyz0123456789+/''"

definition b64_char :: "nat \<Rightarrow> char" where
  "b64_char n = b64_alphabet ! n"

fun index_of :: "'a \<Rightarrow> 'a list \<Rightarrow> nat option" where
  "index_of x [] = None"
| "index_of x (y # ys) = (if x = y then Some 0 else map_option Suc (index_of x ys))"

definition b64_value :: "char \<Rightarrow> nat option" where
  "b64_value c = index_of c b64_alphabet"

section \<open>Encoding\<close>

fun b64_groups :: "nat list \<Rightarrow> string" where
  "b64_groups [] = []"
| "b64_groups [a] = [b64_char (a div 4), b64_char (a mod 4 * 16), CHR ''='', CHR ''='']"
| "b64_groups [a, b] =
     [b64_char (a div 4), b64_char (a mod 4 * 16 + b div 16), b64_char (b mod 16 * 4), CHR ''='']"
| "b64_groups (a # b # c # rest) =
     [b64_char (a div 4), b64_char (a mod 4 * 16 + b div 16),
      b64_char (b mod 16 * 4 + c div 64), b64_char (c mod 64)] @ b64_groups rest"

definition b64_encode :: "bytes \<Rightarrow> string" where
  "b64_encode bs = b64_groups (map unat bs)"

section \<open>Decoding\<close>

text \<open>
  The state of the decoder: the position in the group of four, the bits left over from the
  last character, the padding seen, and the characters of data, for the error message.
\<close>

definition binascii_error :: "string \<Rightarrow> 'a result" where
  "binascii_error m = Inl (exn PyValueError m)"

fun b64_decode_from :: "string \<Rightarrow> nat \<Rightarrow> nat \<Rightarrow> nat \<Rightarrow> nat list result" where
  "b64_decode_from [] pos left pads =
     (if pos = 0 then Inr []
      else if pos = 1 then binascii_error
        ''Invalid base64-encoded string: number of data characters cannot be 1 more than a multiple of 4''
      else binascii_error ''Incorrect padding'')"
| "b64_decode_from (c # cs) pos left pads =
     (if c = CHR ''='' then
        (if 2 \<le> pos \<and> 4 \<le> pos + Suc pads then Inr []
         else b64_decode_from cs pos left (if 2 \<le> pos then Suc pads else pads))
      else case b64_value c of
          None \<Rightarrow> b64_decode_from cs pos left pads
        | Some v \<Rightarrow>
            if pos = 0 then b64_decode_from cs 1 v 0
            else if pos = 1 then
              rbind (b64_decode_from cs 2 (v mod 16) 0) (\<lambda>out. Inr ((left * 4 + v div 16) # out))
            else if pos = 2 then
              rbind (b64_decode_from cs 3 (v mod 4) 0) (\<lambda>out. Inr ((left * 16 + v div 4) # out))
            else
              rbind (b64_decode_from cs 0 0 0) (\<lambda>out. Inr ((left * 64 + v) # out)))"

text \<open>\<^verbatim>\<open>b64decode(text.encode("ascii"))\<close>: a character above 127 cannot be encoded.\<close>

definition is_ascii :: "string \<Rightarrow> bool" where
  "is_ascii s \<longleftrightarrow> list_all (\<lambda>c. code_point c < 128) s"

definition b64_decode :: "string \<Rightarrow> bytes result" where
  "b64_decode s =
     (if is_ascii s then rbind (b64_decode_from s 0 0 0) (\<lambda>ns. Inr (map of_nat ns))
      else Inl (exn PyValueError ''ascii codec cannot encode character''))"

section \<open>Round trip\<close>

lemma length_alphabet: "length b64_alphabet = 64"
  by (simp add: b64_alphabet_def)

lemma b64_table:
  "list_all (\<lambda>n. b64_value (b64_char n) = Some n \<and> b64_char n \<noteq> CHR ''='' \<and>
     code_point (b64_char n) < 128) [0..<64]"
  by code_simp

lemma b64_char_simps [simp]:
  assumes "n < 64"
  shows "b64_value (b64_char n) = Some n" "b64_char n \<noteq> CHR ''=''" "code_point (b64_char n) < 128"
proof -
  have "n \<in> set [0..<64]" using assms by simp
  then have "b64_value (b64_char n) = Some n \<and> b64_char n \<noteq> CHR ''='' \<and> code_point (b64_char n) < 128"
    using b64_table unfolding list_all_iff by blast
  then show "b64_value (b64_char n) = Some n" "b64_char n \<noteq> CHR ''=''" "code_point (b64_char n) < 128"
    by blast+
qed

text \<open>The pieces of three bytes, and that they fit together again.\<close>

lemma b64_pieces:
  fixes a b c :: nat
  assumes "a < 256" "b < 256" "c < 256"
  shows "a div 4 < 64" "a mod 4 * 16 + b div 16 < 64" "b mod 16 * 4 + c div 64 < 64" "c mod 64 < 64"
    "a mod 4 * 16 < 64" "b mod 16 * 4 < 64"
    "a div 4 * 4 + (a mod 4 * 16 + b div 16) div 16 = a"
    "(a mod 4 * 16 + b div 16) mod 16 * 16 + (b mod 16 * 4 + c div 64) div 4 = b"
    "(b mod 16 * 4 + c div 64) mod 4 * 64 + c mod 64 = c"
    "a div 4 * 4 + a mod 4 * 16 div 16 = a"
    "(a mod 4 * 16 + b div 16) mod 16 * 16 + b mod 16 * 4 div 4 = b"
proof -
  have b16: "b div 16 < 16" and c64: "c div 64 < 4" and a4: "a div 4 < 64"
    using assms by simp_all
  have m: "a mod 4 < 4" "b mod 16 < 16" by simp_all
  show "a div 4 < 64" by (rule a4)
  show "a mod 4 * 16 + b div 16 < 64" "b mod 16 * 4 + c div 64 < 64" "c mod 64 < 64"
    "a mod 4 * 16 < 64" "b mod 16 * 4 < 64" using m b16 c64 by simp_all
  have q: "(a mod 4 * 16 + b div 16) div 16 = a mod 4" "(a mod 4 * 16 + b div 16) mod 16 = b div 16"
    "(b mod 16 * 4 + c div 64) div 4 = b mod 16" "(b mod 16 * 4 + c div 64) mod 4 = c div 64"
    using b16 c64 by simp_all
  show "a div 4 * 4 + (a mod 4 * 16 + b div 16) div 16 = a"
    "(a mod 4 * 16 + b div 16) mod 16 * 16 + (b mod 16 * 4 + c div 64) div 4 = b"
    "(b mod 16 * 4 + c div 64) mod 4 * 64 + c mod 64 = c"
    "a div 4 * 4 + a mod 4 * 16 div 16 = a"
    "(a mod 4 * 16 + b div 16) mod 16 * 16 + b mod 16 * 4 div 4 = b"
    unfolding q by simp_all
qed

lemma b64_decode_groups: "\<forall>n \<in> set ns. n < 256 \<Longrightarrow> b64_decode_from (b64_groups ns) 0 0 0 = Inr ns"
proof (induction ns rule: b64_groups.induct)
  case 1
  then show ?case by simp
next
  case (2 a)
  then show ?case using b64_pieces [of a 0 0] by simp
next
  case (3 a b)
  then show ?case using b64_pieces [of a b 0] by simp
next
  case (4 a b c rest)
  then show ?case using b64_pieces [of a b c] by simp
qed

lemma pad_ascii: "code_point (CHR ''='') < 128"
  by (simp add: code_point_def)

lemma b64_groups_ascii: "\<forall>n \<in> set ns. n < 256 \<Longrightarrow> is_ascii (b64_groups ns)"
proof (induction ns rule: b64_groups.induct)
  case 1
  then show ?case by (simp add: is_ascii_def)
next
  case (2 a)
  then show ?case using b64_pieces [of a 0 0] by (simp add: is_ascii_def pad_ascii)
next
  case (3 a b)
  then show ?case using b64_pieces [of a b 0] by (simp add: is_ascii_def pad_ascii)
next
  case (4 a b c rest)
  then show ?case using b64_pieces [of a b c] by (simp add: is_ascii_def)
qed

lemma b64_round_trip: "b64_decode (b64_encode bs) = Inr bs"
proof -
  have "unat b < 256" for b :: "8 word" using unsigned_less [of b, where ?'a = nat] by simp
  then have "\<forall>n \<in> set (map unat bs). n < 256" by auto
  from b64_decode_groups [OF this] b64_groups_ascii [OF this] show ?thesis
    by (simp add: b64_decode_def b64_encode_def comp_def)
qed

end
