(* ===== verification/Spool_Codec.thy ===== *)
theory Spool_Codec
  imports Domain Base64
begin

text \<open>
  The payload format of src/plc_gateway/persistence/spool.py: the JSON value written for a
  poll result and the reader that checks it field by field. The text that \<^verbatim>\<open>json.dumps\<close>
  writes is represented by the value it denotes; \<open>json_value\<close> is what \<^verbatim>\<open>json.loads\<close> of it
  gives back (tuples are arrays, keys are sorted).

  Shown: every validated poll result is read back exactly.
\<close>

section \<open>JSON\<close>

lemma rmap_cong [fundef_cong]:
  "xs = ys \<Longrightarrow> (\<And>x. x \<in> set ys \<Longrightarrow> f x = g x) \<Longrightarrow> rmap f xs = rmap g ys"
  by (induction xs arbitrary: ys) auto

text \<open>\<^verbatim>\<open>json.loads(json.dumps(v, sort_keys=True))\<close>: TypeError for what JSON cannot hold.\<close>

definition json_error :: "'a result" where
  "json_error = Inl (exn PyTypeError ''Object is not JSON serializable'')"

fun json_value :: "pyval \<Rightarrow> pyval result" where
  "json_value PNone = Inr PNone"
| "json_value (PBool b) = Inr (PBool b)"
| "json_value (PInt n) = Inr (PInt n)"
| "json_value (PFloat f) = Inr (PFloat f)"
| "json_value (PStr s) = Inr (PStr s)"
| "json_value (PList xs) = rbind (rmap json_value xs) (\<lambda>ys. Inr (PList ys))"
| "json_value (PTuple xs) = rbind (rmap json_value xs) (\<lambda>ys. Inr (PList ys))"
| "json_value (PDict kvs) =
     rbind (rmap (\<lambda>(k, v). case k of PStr s \<Rightarrow> rbind (json_value v) (\<lambda>w. Inr (s, w))
                   | _ \<Rightarrow> json_error) kvs) (\<lambda>items.
       Inr (PDict (map (\<lambda>(s, w). (PStr s, w)) (sort_key fst items))))"
| "json_value v = json_error"

section \<open>Timestamps\<close>

definition storage_error :: "string \<Rightarrow> 'a result" where
  "storage_error m = Inl (exn StorageError m)"

definition normalize_datetime :: "datetime \<Rightarrow> datetime result" where
  "normalize_datetime d =
     (case dt_offset d of
        None \<Rightarrow> storage_error ''Spooled timestamps must be timezone-aware.''
      | Some off \<Rightarrow> astimezone_utc (dt_wall d) off)"

definition datetime_to_json :: "datetime \<Rightarrow> string result" where
  "datetime_to_json d = rbind (normalize_datetime d) (\<lambda>u. Inr (isoformat u))"

definition optional_datetime_to_json :: "datetime option \<Rightarrow> pyval result" where
  "optional_datetime_to_json v =
     (case v of None \<Rightarrow> Inr PNone | Some d \<Rightarrow> rbind (datetime_to_json d) (\<lambda>s. Inr (PStr s)))"

definition datetime_from_json :: "string \<Rightarrow> datetime result" where
  "datetime_from_json s = rbind (fromisoformat s) normalize_datetime"

section \<open>Field readers\<close>

definition invalid_field :: "string \<Rightarrow> 'a result" where
  "invalid_field name = storage_error (''Invalid spooled payload field '' @ quoted name @ ''.'')"

definition require_dict :: "pyval \<Rightarrow> string \<Rightarrow> pydict result" where
  "require_dict v name = (case v of PDict d \<Rightarrow> Inr d | _ \<Rightarrow> invalid_field name)"

definition require_list :: "pyval \<Rightarrow> string \<Rightarrow> pyval list result" where
  "require_list v name = (case v of PList xs \<Rightarrow> Inr xs | _ \<Rightarrow> invalid_field name)"

definition require_str :: "pyval \<Rightarrow> string \<Rightarrow> string result" where
  "require_str v name = (case v of PStr s \<Rightarrow> Inr s | _ \<Rightarrow> invalid_field name)"

definition optional_str :: "pyval \<Rightarrow> string \<Rightarrow> string option result" where
  "optional_str v name =
     (case v of PNone \<Rightarrow> Inr None | _ \<Rightarrow> rbind (require_str v name) (\<lambda>s. Inr (Some s)))"

definition require_int :: "pyval \<Rightarrow> string \<Rightarrow> int result" where
  "require_int v name = (case v of PInt n \<Rightarrow> Inr n | _ \<Rightarrow> invalid_field name)"

definition optional_datetime_from_json :: "pyval \<Rightarrow> datetime option result" where
  "optional_datetime_from_json v =
     (case v of PNone \<Rightarrow> Inr None
      | _ \<Rightarrow> rbind (require_str v ''datetime'') (\<lambda>s.
          rbind (datetime_from_json s) (\<lambda>d. Inr (Some d))))"

text \<open>\<^verbatim>\<open>payload[key]\<close> raises KeyError, \<^verbatim>\<open>payload.get(key)\<close> gives \<^verbatim>\<open>None\<close>.\<close>

definition dict_item :: "pydict \<Rightarrow> string \<Rightarrow> pyval result" where
  "dict_item d k = (case dict_get d k of None \<Rightarrow> Inl (exn PyKeyError k) | Some v \<Rightarrow> Inr v)"

definition dict_get_none :: "pydict \<Rightarrow> string \<Rightarrow> pyval" where
  "dict_get_none d k = (case dict_get d k of None \<Rightarrow> PNone | Some v \<Rightarrow> v)"

section \<open>Tag values\<close>

definition opt_val :: "('a \<Rightarrow> pyval) \<Rightarrow> 'a option \<Rightarrow> pyval" where
  "opt_val f v = (case v of None \<Rightarrow> PNone | Some x \<Rightarrow> f x)"

definition tag_value_to_json :: "tag_value \<Rightarrow> pyval" where
  "tag_value_to_json v = PDict
     [(PStr ''value_type'', PStr (value_type_value (tv_type v))),
      (PStr ''numeric_value'', opt_val PFloat (tv_numeric v)),
      (PStr ''integer_value'', opt_val PInt (tv_integer v)),
      (PStr ''boolean_value'', opt_val PBool (tv_boolean v)),
      (PStr ''text_value'', opt_val PStr (tv_text v)),
      (PStr ''binary_value'', opt_val (\<lambda>b. PStr (b64_encode b)) (tv_binary v))]"

definition tag_value_from_json :: "pydict \<Rightarrow> tag_value result" where
  "tag_value_from_json payload =
     rbind (dict_item payload ''value_type'') (\<lambda>t.
     rbind (require_str t ''value_type'') (\<lambda>t'.
     rbind (value_type_of t') (\<lambda>vt.
       case vt of
         VT_Numeric \<Rightarrow> (case dict_get_none payload ''numeric_value'' of
             PInt n \<Rightarrow> tag_value_numeric (PInt n)
           | PFloat f \<Rightarrow> tag_value_numeric (PFloat f)
           | _ \<Rightarrow> storage_error ''Invalid spooled numeric value.'')
       | VT_Integer \<Rightarrow> (case dict_get_none payload ''integer_value'' of
             PInt n \<Rightarrow> tag_value_integer (PInt n)
           | _ \<Rightarrow> storage_error ''Invalid spooled integer value.'')
       | VT_Boolean \<Rightarrow> (case dict_get_none payload ''boolean_value'' of
             PBool b \<Rightarrow> tag_value_boolean (PBool b)
           | _ \<Rightarrow> storage_error ''Invalid spooled boolean value.'')
       | VT_Text \<Rightarrow> rbind (require_str (dict_get_none payload ''text_value'') ''text_value'')
             (\<lambda>s. tag_value_text (PStr s))
       | VT_Binary \<Rightarrow> rbind (require_str (dict_get_none payload ''binary_value'') ''binary_value'')
             (\<lambda>s. rbind (b64_decode s) (\<lambda>b. tag_value_binary (PBytes b))))))"

section \<open>Tag results\<close>

definition tag_result_to_json :: "tag_result \<Rightarrow> pyval result" where
  "tag_result_to_json r =
     rbind (datetime_to_json (tr_received_at r)) (\<lambda>received.
     rbind (optional_datetime_to_json (tr_source_timestamp r)) (\<lambda>source.
       Inr (PDict
         [(PStr ''tag_id'', PStr (tr_tag_id r)),
          (PStr ''quality'', PStr (quality_value (tr_quality r))),
          (PStr ''received_at'', PStr received),
          (PStr ''source_timestamp'', source),
          (PStr ''value'', opt_val tag_value_to_json (tr_value r)),
          (PStr ''error_code'', opt_val PStr (tr_error_code r)),
          (PStr ''error_message'', opt_val PStr (tr_error_message r))])))"

definition tag_result_from_json :: "pydict \<Rightarrow> tag_result result" where
  "tag_result_from_json payload =
     rbind (dict_item payload ''tag_id'') (\<lambda>i.
     rbind (require_str i ''tag_id'') (\<lambda>i'.
     rbind (dict_item payload ''quality'') (\<lambda>q.
     rbind (require_str q ''quality'') (\<lambda>q'.
     rbind (quality_of q') (\<lambda>quality.
     rbind (dict_item payload ''received_at'') (\<lambda>r.
     rbind (require_str r ''received_at'') (\<lambda>r'.
     rbind (datetime_from_json r') (\<lambda>received.
     rbind (optional_datetime_from_json (dict_get_none payload ''source_timestamp'')) (\<lambda>source.
     rbind (case dict_get_none payload ''value'' of
              PNone \<Rightarrow> Inr None
            | v \<Rightarrow> rbind (require_dict v ''value'') (\<lambda>d.
                rbind (tag_value_from_json d) (\<lambda>x. Inr (Some x)))) (\<lambda>value.
     rbind (optional_str (dict_get_none payload ''error_code'') ''error_code'') (\<lambda>code.
     rbind (optional_str (dict_get_none payload ''error_message'') ''error_message'') (\<lambda>message.
       tag_result_new i' quality received source value code message))))))))))))"

section \<open>Poll results\<close>

definition poll_result_to_json :: "worker_poll_result \<Rightarrow> pyval result" where
  "poll_result_to_json r =
     (let x = wp_execution r
      in rbind (datetime_to_json (pe_started_at x)) (\<lambda>started.
         rbind (optional_datetime_to_json (pe_finished_at x)) (\<lambda>finished.
         rbind (rmap tag_result_to_json (wp_results r)) (\<lambda>results.
           Inr (PDict
             [(PStr ''execution'', PDict
                [(PStr ''execution_id'', PStr (pe_execution_id x)),
                 (PStr ''connection_id'', PStr (pe_connection_id x)),
                 (PStr ''tag_group_id'', PStr (pe_tag_group_id x)),
                 (PStr ''status'', PStr (poll_status_value (pe_status x))),
                 (PStr ''started_at'', PStr started),
                 (PStr ''finished_at'', finished),
                 (PStr ''requested_tags'', PInt (pe_requested_tags x)),
                 (PStr ''successful_tags'', PInt (pe_successful_tags x)),
                 (PStr ''failed_tags'', PInt (pe_failed_tags x)),
                 (PStr ''error_message'', opt_val PStr (pe_error_message x))]),
              (PStr ''results'', PList results)])))))"

definition poll_execution_from_json :: "pydict \<Rightarrow> poll_execution result" where
  "poll_execution_from_json p =
     rbind (rbind (dict_item p ''execution_id'') (\<lambda>v. require_str v ''execution_id'')) (\<lambda>eid.
     rbind (rbind (dict_item p ''connection_id'') (\<lambda>v. require_str v ''connection_id'')) (\<lambda>cid.
     rbind (rbind (dict_item p ''tag_group_id'') (\<lambda>v. require_str v ''tag_group_id'')) (\<lambda>gid.
     rbind (rbind (dict_item p ''status'') (\<lambda>v. require_str v ''status'')) (\<lambda>s.
     rbind (poll_status_of s) (\<lambda>status.
     rbind (rbind (dict_item p ''started_at'') (\<lambda>v. require_str v ''started_at'')) (\<lambda>st.
     rbind (datetime_from_json st) (\<lambda>started.
     rbind (optional_datetime_from_json (dict_get_none p ''finished_at'')) (\<lambda>finished.
     rbind (rbind (dict_item p ''requested_tags'') (\<lambda>v. require_int v ''requested_tags'')) (\<lambda>rq.
     rbind (rbind (dict_item p ''successful_tags'') (\<lambda>v. require_int v ''successful_tags'')) (\<lambda>ok.
     rbind (rbind (dict_item p ''failed_tags'') (\<lambda>v. require_int v ''failed_tags'')) (\<lambda>bad.
     rbind (optional_str (dict_get_none p ''error_message'') ''error_message'') (\<lambda>message.
       poll_execution_new eid cid gid status started finished (AInt rq) (AInt ok) (AInt bad)
         message))))))))))))"

text \<open>The top level of a payload that is not an object has no items: \<^verbatim>\<open>TypeError\<close>.\<close>

definition poll_result_from_json :: "pyval \<Rightarrow> worker_poll_result result" where
  "poll_result_from_json v =
     (case v of
        PDict payload \<Rightarrow>
          rbind (rbind (dict_item payload ''execution'') (\<lambda>e. require_dict e ''execution'')) (\<lambda>ex.
          rbind (rbind (dict_item payload ''results'') (\<lambda>r. require_list r ''results'')) (\<lambda>rs.
          rbind (poll_execution_from_json ex) (\<lambda>execution.
          rbind (rmap (\<lambda>item. rbind (require_dict item ''result'') tag_result_from_json) rs) (\<lambda>results.
            Inr \<lparr>wp_execution = execution, wp_results = results\<rparr>))))
      | _ \<Rightarrow> Inl (exn PyTypeError ''indices must be integers''))"

section \<open>Round trips\<close>

lemma normalize_datetime_id [simp]: "utc_ok d \<Longrightarrow> normalize_datetime d = Inr d"
  using astimezone_utc_id by (auto simp: normalize_datetime_def utc_ok_def)

lemma normalize_datetime_utc: "normalize_datetime d = Inr u \<Longrightarrow> utc_ok u"
  by (auto simp: normalize_datetime_def storage_error_def astimezone_utc_ok split: option.splits)

lemma datetime_to_json_id [simp]: "utc_ok d \<Longrightarrow> datetime_to_json d = Inr (isoformat d)"
  by (simp add: datetime_to_json_def)

lemma datetime_from_json_id [simp]: "utc_ok d \<Longrightarrow> datetime_from_json (isoformat d) = Inr d"
  by (simp add: datetime_from_json_def fromisoformat_isoformat)

lemma optional_datetime_round_trip:
  "utc_option v \<Longrightarrow> \<exists>j. optional_datetime_to_json v = Inr j \<and> json_value j = Inr j \<and>
     optional_datetime_from_json j = Inr v"
  by (cases v)
    (simp_all add: optional_datetime_to_json_def optional_datetime_from_json_def require_str_def)

lemma opt_val_simps [simp]: "opt_val f None = PNone" "opt_val f (Some x) = f x"
  by (simp_all add: opt_val_def)

lemma optional_str_round_trip [simp]: "optional_str (opt_val PStr v) name = Inr v"
  by (cases v) (simp_all add: optional_str_def require_str_def)

lemma opt_val_json [simp]:
  "json_value (opt_val PStr v) = Inr (opt_val PStr v)"
  "json_value (opt_val PFloat f) = Inr (opt_val PFloat f)"
  "json_value (opt_val PInt i) = Inr (opt_val PInt i)"
  "json_value (opt_val PBool b) = Inr (opt_val PBool b)"
  "json_value (opt_val (\<lambda>b. PStr (b64_encode b)) y) = Inr (opt_val (\<lambda>b. PStr (b64_encode b)) y)"
  by (cases v; simp; fail | cases f; simp; fail | cases i; simp; fail | cases b; simp; fail | cases y; simp; fail)+

text \<open>The object a tag value becomes, with its keys in the order in which they are stored.\<close>

definition tag_value_dict :: "tag_value \<Rightarrow> pydict" where
  "tag_value_dict v =
     [(PStr ''binary_value'', opt_val (\<lambda>b. PStr (b64_encode b)) (tv_binary v)),
      (PStr ''boolean_value'', opt_val PBool (tv_boolean v)),
      (PStr ''integer_value'', opt_val PInt (tv_integer v)),
      (PStr ''numeric_value'', opt_val PFloat (tv_numeric v)),
      (PStr ''text_value'', opt_val PStr (tv_text v)),
      (PStr ''value_type'', PStr (value_type_value (tv_type v)))]"

lemma tag_value_to_json_value: "json_value (tag_value_to_json v) = Inr (PDict (tag_value_dict v))"
  by (simp add: tag_value_to_json_def tag_value_dict_def sort_key_def)

lemma tag_value_from_dict:
  assumes "tag_value_ok v"
  shows "tag_value_from_json (tag_value_dict v) = Inr v"
  using assms
  by (rule tag_value_ok_cases)
    (simp_all add: tag_value_from_json_def tag_value_dict_def dict_item_def dict_get_none_def
      dict_get_def require_str_def b64_round_trip del: value_type_value.simps)

definition tag_result_dict :: "tag_result \<Rightarrow> pyval \<Rightarrow> pydict" where
  "tag_result_dict r source =
     [(PStr ''error_code'', opt_val PStr (tr_error_code r)),
      (PStr ''error_message'', opt_val PStr (tr_error_message r)),
      (PStr ''quality'', PStr (quality_value (tr_quality r))),
      (PStr ''received_at'', PStr (isoformat (tr_received_at r))),
      (PStr ''source_timestamp'', source),
      (PStr ''tag_id'', PStr (tr_tag_id r)),
      (PStr ''value'', opt_val (\<lambda>v. PDict (tag_value_dict v)) (tr_value r))]"

lemma opt_tag_value_json:
  "json_value (opt_val tag_value_to_json v) = Inr (opt_val (\<lambda>v. PDict (tag_value_dict v)) v)"
  by (cases v) (simp_all add: tag_value_to_json_value)

lemma tag_result_round_trip:
  assumes "tag_result_ok r" "\<And>v. tr_value r = Some v \<Longrightarrow> tag_value_ok v"
  shows "\<exists>j d. tag_result_to_json r = Inr j \<and> json_value j = Inr (PDict d) \<and>
    tag_result_from_json d = Inr r"
proof -
  have ok: "utc_ok (tr_received_at r)" "utc_option (tr_source_timestamp r)"
    using assms(1) by (simp_all add: tag_result_ok_def)
  obtain s where s: "optional_datetime_to_json (tr_source_timestamp r) = Inr s" "json_value s = Inr s"
      "optional_datetime_from_json s = Inr (tr_source_timestamp r)"
    using optional_datetime_round_trip [OF ok(2)] by blast
  let ?d = "tag_result_dict r s"
  obtain j where j: "tag_result_to_json r = Inr j" "json_value j = Inr (PDict ?d)"
    using ok s by (simp add: tag_result_to_json_def tag_result_dict_def opt_tag_value_json sort_key_def)
  have val: "(case opt_val (\<lambda>v. PDict (tag_value_dict v)) (tr_value r) of PNone \<Rightarrow> Inr None
      | v \<Rightarrow> rbind (require_dict v ''value'') (\<lambda>d. rbind (tag_value_from_json d) (\<lambda>x. Inr (Some x))))
      = Inr (tr_value r)"
    using assms(2) by (cases "tr_value r") (simp_all add: require_dict_def tag_value_from_dict)
  have "tag_result_from_json ?d = Inr r"
    using val s(3) ok tag_result_new_id [OF assms(1)]
    by (simp add: tag_result_from_json_def tag_result_dict_def dict_item_def dict_get_none_def
        dict_get_def require_str_def)
  then show ?thesis using j by blast
qed

lemma tag_results_round_trip:
  assumes "\<forall>r \<in> set rs. tag_result_ok r \<and> (case tr_value r of None \<Rightarrow> True | Some v \<Rightarrow> tag_value_ok v)"
  shows "\<exists>js ds. rmap tag_result_to_json rs = Inr js \<and> rmap json_value js = Inr (map PDict ds) \<and>
    rmap (\<lambda>item. rbind (require_dict item ''result'') tag_result_from_json) (map PDict ds) = Inr rs"
  using assms
proof (induction rs)
  case Nil
  show ?case by (intro exI [of _ "[]"]) simp
next
  case (Cons r rs)
  obtain js ds where IH: "rmap tag_result_to_json rs = Inr js" "rmap json_value js = Inr (map PDict ds)"
    "rmap (\<lambda>item. rbind (require_dict item ''result'') tag_result_from_json) (map PDict ds) = Inr rs"
    using Cons by auto
  obtain j d where j: "tag_result_to_json r = Inr j" "json_value j = Inr (PDict d)"
    "tag_result_from_json d = Inr r"
    using tag_result_round_trip [of r] Cons.prems by (auto split: option.splits)
  have "rmap tag_result_to_json (r # rs) = Inr (j # js) \<and>
      rmap json_value (j # js) = Inr (map PDict (d # ds)) \<and>
      rmap (\<lambda>item. rbind (require_dict item ''result'') tag_result_from_json) (map PDict (d # ds))
        = Inr (r # rs)"
    using IH j by (simp add: require_dict_def)
  then show ?case by blast
qed

definition execution_dict :: "poll_execution \<Rightarrow> pyval \<Rightarrow> pydict" where
  "execution_dict x finished =
     [(PStr ''connection_id'', PStr (pe_connection_id x)),
      (PStr ''error_message'', opt_val PStr (pe_error_message x)),
      (PStr ''execution_id'', PStr (pe_execution_id x)),
      (PStr ''failed_tags'', PInt (pe_failed_tags x)),
      (PStr ''finished_at'', finished),
      (PStr ''requested_tags'', PInt (pe_requested_tags x)),
      (PStr ''started_at'', PStr (isoformat (pe_started_at x))),
      (PStr ''status'', PStr (poll_status_value (pe_status x))),
      (PStr ''successful_tags'', PInt (pe_successful_tags x)),
      (PStr ''tag_group_id'', PStr (pe_tag_group_id x))]"

lemma execution_round_trip:
  assumes "execution_ok x" "optional_datetime_from_json f = Inr (pe_finished_at x)"
  shows "poll_execution_from_json (execution_dict x f) = Inr x"
proof -
  have "utc_ok (pe_started_at x)" using assms(1) by (simp add: execution_ok_def)
  then show ?thesis using assms(2) poll_execution_new_id [OF assms(1)]
    by (simp add: poll_execution_from_json_def execution_dict_def dict_item_def dict_get_none_def
        dict_get_def require_str_def require_int_def)
qed

lemma poll_result_round_trip:
  assumes "poll_result_ok r"
  shows "\<exists>j k. poll_result_to_json r = Inr j \<and> json_value j = Inr k \<and>
    poll_result_from_json k = Inr r"
proof -
  let ?x = "wp_execution r"
  have x: "execution_ok ?x" using assms by (simp add: poll_result_ok_def)
  then have started: "utc_ok (pe_started_at ?x)" and fin: "utc_option (pe_finished_at ?x)"
    by (auto simp: execution_ok_def utc_option_def split: option.splits)
  obtain f where f: "optional_datetime_to_json (pe_finished_at ?x) = Inr f" "json_value f = Inr f"
      "optional_datetime_from_json f = Inr (pe_finished_at ?x)"
    using optional_datetime_round_trip [OF fin] by blast
  obtain js ds where rs: "rmap tag_result_to_json (wp_results r) = Inr js"
    "rmap json_value js = Inr (map PDict ds)"
    "rmap (\<lambda>item. rbind (require_dict item ''result'') tag_result_from_json) (map PDict ds)
      = Inr (wp_results r)"
    using tag_results_round_trip [of "wp_results r"] assms by (auto simp: poll_result_ok_def)
  let ?k = "PDict [(PStr ''execution'', PDict (execution_dict ?x f)),
    (PStr ''results'', PList (map PDict ds))]"
  obtain j where j: "poll_result_to_json r = Inr j" "json_value j = Inr ?k"
    using started f rs by (simp add: poll_result_to_json_def execution_dict_def sort_key_def Let_def)
  have "poll_result_from_json ?k = Inr r"
    using execution_round_trip [OF x f(3)] rs(3)
    by (simp add: poll_result_from_json_def dict_item_def dict_get_def require_dict_def require_list_def)
  then show ?thesis using j by blast
qed

section \<open>Property\<close>

text \<open>
  C16: a validated poll result survives the spool's payload format. Writing it as JSON
  succeeds, and reading back the stored value gives exactly the same execution, results,
  values and timestamps.
\<close>

theorem spool_payload_round_trip:
  assumes "poll_result_ok r"
  shows "\<exists>j k. poll_result_to_json r = Inr j \<and> json_value j = Inr k \<and> poll_result_from_json k = Inr r"
  using poll_result_round_trip [OF assms] .

definition ex_poll_result :: "string \<Rightarrow> worker_poll_result" where
  "ex_poll_result i = \<lparr>wp_execution = \<lparr>pe_execution_id = i, pe_connection_id = ''c'',
       pe_tag_group_id = ''g'', pe_status = PS_Partial_Failure, pe_started_at = utc_dt 5,
       pe_finished_at = Some (utc_dt 70), pe_requested_tags = 2, pe_successful_tags = 1,
       pe_failed_tags = 1, pe_error_message = Some ''bad''\<rparr>,
     wp_results = [\<lparr>tr_tag_id = ''t1'', tr_quality = Q_Good, tr_received_at = utc_dt 60,
         tr_source_timestamp = Some (utc_dt 61), tr_value = Some (no_payload VT_Binary\<lparr>tv_binary := Some [1, 254]\<rparr>),
         tr_error_code = None, tr_error_message = None\<rparr>,
       \<lparr>tr_tag_id = ''t2'', tr_quality = Q_Bad, tr_received_at = utc_dt 62, tr_source_timestamp = None,
         tr_value = None, tr_error_code = Some ''E'', tr_error_message = Some ''bad''\<rparr>]\<rparr>"

lemma ex_poll_result_ok: "i \<in> {''e1'', ''e2'', ''e3''} \<Longrightarrow> poll_result_ok (ex_poll_result i)"
proof -
  have "poll_result_ok (ex_poll_result ''e1'')" "poll_result_ok (ex_poll_result ''e2'')"
    "poll_result_ok (ex_poll_result ''e3'')" by code_simp+
  then show "i \<in> {''e1'', ''e2'', ''e3''} \<Longrightarrow> poll_result_ok (ex_poll_result i)" by auto
qed

theorem spool_payload_round_trip_witness:
  "\<exists>j k. poll_result_to_json (ex_poll_result ''e1'') = Inr j \<and> json_value j = Inr k \<and>
     poll_result_from_json k = Inr (ex_poll_result ''e1'')"
  using spool_payload_round_trip [OF ex_poll_result_ok] by simp

end
