(* ===== verification/Reading_Queue.thy ===== *)
theory Reading_Queue
  imports Retry
begin

text \<open>
  src/plc_gateway/runtime/reading_queue.py: the bounded queue between the pollers and the
  database writer. The wrapped \<^verbatim>\<open>asyncio.Queue\<close> is its list of items, its counter of
  unfinished tasks and the producers suspended in \<^verbatim>\<open>put\<close>; a suspended producer is a step of
  its own, since others run in between.

  Shown for every reachable state: the queue never holds more than its maximum, items leave
  in the order they entered, and every item that entered is queued, taken and unfinished, or
  finished. Also: what a closed queue still lets in. A consumer is taken to finish only what
  it took (\<^verbatim>\<open>task_done\<close> after \<^verbatim>\<open>get\<close>), which is what the database writer does.
\<close>

section \<open>State\<close>

record 'a reading_queue =
  rq_max_size :: nat
  rq_timeout_s :: rat
  rq_items :: "'a list"
  rq_waiting :: "(nat \<times> 'a) list"
  rq_unfinished :: nat
  rq_closed :: bool
  rq_dropped_items :: nat
  rq_put_timeouts :: nat

definition reading_queue_new :: "int \<Rightarrow> rat \<Rightarrow> 'a reading_queue result" where
  "reading_queue_new max_size put_timeout_s =
     (if max_size \<le> 0 then value_error ''max_size must be positive.''
      else if put_timeout_s \<le> 0 then value_error ''put_timeout_s must be positive.''
      else Inr \<lparr>rq_max_size = nat max_size, rq_timeout_s = put_timeout_s, rq_items = [],
             rq_waiting = [], rq_unfinished = 0, rq_closed = False, rq_dropped_items = 0,
             rq_put_timeouts = 0\<rparr>)"

definition rq_size :: "'a reading_queue \<Rightarrow> nat" where
  "rq_size q = length (rq_items q)"

definition rq_full :: "'a reading_queue \<Rightarrow> bool" where
  "rq_full q \<longleftrightarrow> rq_max_size q \<le> rq_size q"

text \<open>\<^verbatim>\<open>put_nowait\<close> of the wrapped queue.\<close>

definition enqueue :: "'a \<Rightarrow> 'a reading_queue \<Rightarrow> 'a reading_queue" where
  "enqueue x q = q\<lparr>rq_items := rq_items q @ [x], rq_unfinished := Suc (rq_unfinished q)\<rparr>"

section \<open>Operations\<close>

text \<open>A call of \<^verbatim>\<open>put\<close> raises, returns, or suspends its producer, here number \<open>p\<close>.\<close>

datatype put_status = Put_Returned | Put_Suspended | Put_Raised pyexn

definition queue_closed_error :: "'a reading_queue \<Rightarrow> pyexn" where
  "queue_closed_error q = exn_coded StorageError ''Reading queue is closed.''
     ''reading_queue_closed'' [(''size'', PInt (int (rq_size q)))]"

definition queue_full_error :: "'a reading_queue \<Rightarrow> pyexn" where
  "queue_full_error q = exn_coded StorageError ''Timed out waiting for space in reading queue.''
     ''reading_queue_full''
     [(''max_size'', PInt (int (rq_max_size q))), (''size'', PInt (int (rq_size q))),
      (''timeout_s'', PFloat (Fin (rq_timeout_s q)))]"

definition rq_put :: "nat \<Rightarrow> 'a \<Rightarrow> 'a reading_queue \<Rightarrow> 'a reading_queue \<times> put_status" where
  "rq_put p x q =
     (if rq_closed q then (q, Put_Raised (queue_closed_error q))
      else if rq_full q then (q\<lparr>rq_waiting := rq_waiting q @ [(p, x)]\<rparr>, Put_Suspended)
      else (enqueue x q, Put_Returned))"

definition drop_waiting :: "nat \<Rightarrow> 'a reading_queue \<Rightarrow> 'a reading_queue" where
  "drop_waiting p q = q\<lparr>rq_waiting := filter (\<lambda>(p', _). p' \<noteq> p) (rq_waiting q)\<rparr>"

text \<open>
  A suspended producer is woken: the wrapped queue tests for space again and either
  enqueues or suspends it anew. The flag \<^verbatim>\<open>_closed\<close> is not looked at again.
\<close>

definition rq_resume :: "nat \<Rightarrow> 'a reading_queue \<Rightarrow> 'a reading_queue \<times> put_status" where
  "rq_resume p q =
     (case map_of (rq_waiting q) p of
        None \<Rightarrow> (q, Put_Suspended)
      | Some x \<Rightarrow> if rq_full q then (q, Put_Suspended)
                  else (enqueue x (drop_waiting p q), Put_Returned))"

definition rq_put_timeout :: "nat \<Rightarrow> 'a reading_queue \<Rightarrow> 'a reading_queue \<times> put_status" where
  "rq_put_timeout p q =
     (let q1 = (drop_waiting p q)\<lparr>rq_put_timeouts := Suc (rq_put_timeouts q)\<rparr>
      in (q1, Put_Raised (queue_full_error q1)))"

text \<open>\<^verbatim>\<open>get\<close> when an item is there; a consumer of an empty queue stays suspended.\<close>

definition rq_get :: "'a reading_queue \<Rightarrow> ('a reading_queue \<times> 'a) option" where
  "rq_get q = (case rq_items q of [] \<Rightarrow> None | x # xs \<Rightarrow> Some (q\<lparr>rq_items := xs\<rparr>, x))"

definition rq_task_done :: "'a reading_queue \<Rightarrow> 'a reading_queue result" where
  "rq_task_done q =
     (if rq_unfinished q = 0 then value_error ''task_done() called too many times''
      else Inr (q\<lparr>rq_unfinished := rq_unfinished q - 1\<rparr>))"

text \<open>\<^verbatim>\<open>join\<close> returns once this holds.\<close>

definition rq_joined :: "'a reading_queue \<Rightarrow> bool" where
  "rq_joined q \<longleftrightarrow> rq_unfinished q = 0"

record queue_shutdown =
  qs_drained :: bool
  qs_pending_items :: nat
  qs_dropped_items :: nat

definition rq_close :: "'a reading_queue \<Rightarrow> 'a reading_queue \<times> queue_shutdown" where
  "rq_close q =
     (let q1 = q\<lparr>rq_closed := True\<rparr>
      in (q1, \<lparr>qs_drained = (rq_size q1 = 0), qs_pending_items = rq_size q1, qs_dropped_items = 0\<rparr>))"

text \<open>The loop of \<^verbatim>\<open>drop_pending\<close>: take and finish items until the queue is empty.\<close>

fun drop_loop :: "'a list \<Rightarrow> nat \<Rightarrow> 'a reading_queue \<Rightarrow> 'a reading_queue \<times> nat result" where
  "drop_loop [] n q = (q, Inr n)"
| "drop_loop (x # xs) n q =
     (let q1 = q\<lparr>rq_items := xs\<rparr>
      in case rq_task_done q1 of Inl e \<Rightarrow> (q1, Inl e) | Inr q2 \<Rightarrow> drop_loop xs (Suc n) q2)"

definition rq_drop_pending :: "'a reading_queue \<Rightarrow> 'a reading_queue \<times> queue_shutdown result" where
  "rq_drop_pending q =
     (case drop_loop (rq_items q) 0 (q\<lparr>rq_closed := True\<rparr>) of
        (q1, Inl e) \<Rightarrow> (q1, Inl e)
      | (q1, Inr n) \<Rightarrow>
          (q1\<lparr>rq_dropped_items := rq_dropped_items q1 + n\<rparr>,
           Inr \<lparr>qs_drained = True, qs_pending_items = 0, qs_dropped_items = n\<rparr>))"

record queue_metrics =
  qm_max_size :: nat
  qm_size :: nat
  qm_occupancy_ratio :: rat
  qm_closed :: bool
  qm_dropped_items :: nat
  qm_put_timeouts :: nat

definition rq_metrics :: "'a reading_queue \<Rightarrow> queue_metrics" where
  "rq_metrics q =
     \<lparr>qm_max_size = rq_max_size q, qm_size = rq_size q,
      qm_occupancy_ratio = of_nat (rq_size q) / of_nat (rq_max_size q),
      qm_closed = rq_closed q, qm_dropped_items = rq_dropped_items q,
      qm_put_timeouts = rq_put_timeouts q\<rparr>"

section \<open>Steps\<close>

text \<open>
  One step of the producers, the consumer or the owner. A step that has no effect in the
  code (waking a producer that is not there, taking from an empty queue) is not a step.
\<close>

datatype 'a queue_event =
    QE_Put nat 'a
  | QE_Resume nat
  | QE_Timeout nat
  | QE_Cancel nat
  | QE_Get 'a
  | QE_Done
  | QE_Close
  | QE_Drop

inductive queue_step :: "'a reading_queue \<Rightarrow> 'a queue_event \<Rightarrow> 'a reading_queue \<Rightarrow> bool" where
  put: "p \<notin> fst ` set (rq_waiting q) \<Longrightarrow> queue_step q (QE_Put p x) (fst (rq_put p x q))"
| resume: "p \<in> fst ` set (rq_waiting q) \<Longrightarrow> queue_step q (QE_Resume p) (fst (rq_resume p q))"
| timeout: "p \<in> fst ` set (rq_waiting q) \<Longrightarrow> queue_step q (QE_Timeout p) (fst (rq_put_timeout p q))"
| cancel: "p \<in> fst ` set (rq_waiting q) \<Longrightarrow> queue_step q (QE_Cancel p) (drop_waiting p q)"
| get: "rq_get q = Some (q', x) \<Longrightarrow> queue_step q (QE_Get x) q'"
| finish: "rq_size q < rq_unfinished q \<Longrightarrow> rq_task_done q = Inr q' \<Longrightarrow> queue_step q QE_Done q'"
| close: "queue_step q QE_Close (fst (rq_close q))"
| drop: "queue_step q QE_Drop (fst (rq_drop_pending q))"

inductive_cases queue_stepE: "queue_step q ev q'"

text \<open>The items that entered, and the items that left, in a step.\<close>

fun entered :: "'a reading_queue \<Rightarrow> 'a queue_event \<Rightarrow> 'a list" where
  "entered q (QE_Put p x) = (if rq_closed q \<or> rq_full q then [] else [x])"
| "entered q (QE_Resume p) =
     (case map_of (rq_waiting q) p of None \<Rightarrow> [] | Some x \<Rightarrow> if rq_full q then [] else [x])"
| "entered q _ = []"

fun left :: "'a reading_queue \<Rightarrow> 'a queue_event \<Rightarrow> 'a list" where
  "left q (QE_Get x) = [x]"
| "left q QE_Drop = rq_items q"
| "left q _ = []"

text \<open>A run with the lists of everything that entered and left it, and the finished tasks.\<close>

inductive queue_run ::
  "'a reading_queue \<Rightarrow> 'a list \<Rightarrow> 'a list \<Rightarrow> nat \<Rightarrow> 'a reading_queue \<Rightarrow> bool" where
  start: "reading_queue_new n t = Inr q \<Longrightarrow> queue_run q [] [] 0 q"
| step: "queue_run q0 ins outs k q \<Longrightarrow> queue_step q ev q' \<Longrightarrow>
     queue_run q0 (ins @ entered q ev) (outs @ left q ev)
       (k + (case ev of QE_Done \<Rightarrow> 1 | QE_Drop \<Rightarrow> rq_size q | _ \<Rightarrow> 0)) q'"

lemma rq_simps [simp]:
  "rq_items (enqueue x q) = rq_items q @ [x]" "rq_unfinished (enqueue x q) = Suc (rq_unfinished q)"
  "rq_max_size (enqueue x q) = rq_max_size q" "rq_closed (enqueue x q) = rq_closed q"
  "rq_waiting (enqueue x q) = rq_waiting q" "rq_timeout_s (enqueue x q) = rq_timeout_s q"
  "rq_items (drop_waiting p q) = rq_items q" "rq_unfinished (drop_waiting p q) = rq_unfinished q"
  "rq_max_size (drop_waiting p q) = rq_max_size q" "rq_closed (drop_waiting p q) = rq_closed q"
  by (simp_all add: enqueue_def drop_waiting_def)

lemma drop_loop_eq:
  "rq_items q = xs \<Longrightarrow> length xs \<le> rq_unfinished q \<Longrightarrow> drop_loop xs n q =
     (q\<lparr>rq_items := [], rq_unfinished := rq_unfinished q - length xs\<rparr>, Inr (n + length xs))"
proof (induction xs arbitrary: n q)
  case Nil
  then show ?case by (cases q) simp
next
  case (Cons x xs)
  let ?q = "q\<lparr>rq_items := xs, rq_unfinished := rq_unfinished q - 1\<rparr>"
  have "rq_task_done (q\<lparr>rq_items := xs\<rparr>) = Inr ?q" using Cons.prems by (auto simp: rq_task_done_def)
  moreover have "drop_loop xs (Suc n) ?q =
      (?q\<lparr>rq_items := [], rq_unfinished := rq_unfinished ?q - length xs\<rparr>, Inr (Suc n + length xs))"
    using Cons.IH [of ?q "Suc n"] Cons.prems by simp
  ultimately show ?case by simp
qed

lemma drop_pending_eq:
  "rq_size q \<le> rq_unfinished q \<Longrightarrow> rq_drop_pending q =
     (q\<lparr>rq_items := [], rq_unfinished := rq_unfinished q - rq_size q, rq_closed := True,
        rq_dropped_items := rq_dropped_items q + rq_size q\<rparr>,
      Inr \<lparr>qs_drained = True, qs_pending_items = 0, qs_dropped_items = rq_size q\<rparr>)"
  using drop_loop_eq [of "q\<lparr>rq_closed := True\<rparr>" "rq_items q" 0]
  by (simp add: rq_drop_pending_def rq_size_def)

text \<open>The accounting of a run.\<close>

definition accounted :: "'a list \<Rightarrow> 'a list \<Rightarrow> nat \<Rightarrow> 'a reading_queue \<Rightarrow> bool" where
  "accounted ins outs k q \<longleftrightarrow> rq_size q \<le> rq_max_size q \<and> 0 < rq_max_size q \<and>
     ins = outs @ rq_items q \<and> k + rq_unfinished q = length ins \<and> rq_size q \<le> rq_unfinished q"

lemma accounted_step:
  assumes "accounted ins outs k q" "queue_step q ev q'"
  shows "accounted (ins @ entered q ev) (outs @ left q ev)
    (k + (case ev of QE_Done \<Rightarrow> 1 | QE_Drop \<Rightarrow> rq_size q | _ \<Rightarrow> 0)) q' \<and> rq_max_size q' = rq_max_size q"
  using assms(2,1)
proof (cases rule: queue_step.cases)
  case drop
  then show ?thesis using assms(1) drop_pending_eq [of q]
    by (auto simp: accounted_def rq_size_def)
qed (auto simp: accounted_def rq_put_def rq_resume_def rq_put_timeout_def rq_get_def
    rq_task_done_def rq_close_def rq_full_def rq_size_def value_error_def Let_def
    split: option.splits list.splits if_splits)

lemma queue_run_accounted: "queue_run q0 ins outs k q \<Longrightarrow> accounted ins outs k q \<and> rq_max_size q = rq_max_size q0"
proof (induction rule: queue_run.induct)
  case (start n t q)
  then show ?case
    by (auto simp: reading_queue_new_def accounted_def rq_size_def value_error_def split: if_splits)
next
  case (step q0 ins outs k q ev q')
  then show ?case using accounted_step by metis
qed

text \<open>
  C29: in every run of producers, consumer and owner, the queue holds at most its maximum
  size, the items leave in the order in which they entered (so far everything that left,
  then everything still queued), and the finished and unfinished tasks add up to the items
  that entered.
\<close>

theorem queue_fifo_bounded:
  assumes "queue_run q0 ins outs k q"
  shows "rq_size q \<le> rq_max_size q0 \<and> ins = outs @ rq_items q \<and>
    k + rq_unfinished q = length ins \<and> rq_size q \<le> rq_unfinished q"
  using queue_run_accounted [OF assms] by (simp add: accounted_def)

text \<open>
  Dropping the pending items reports a drained queue, but a producer suspended in
  \<open>put\<close> at that moment is not turned away: when it is woken its item enters the closed
  queue.
\<close>

lemma closed_queue_admits_waiting_producer:
  assumes "queue_run q0 ins outs k q" "map_of (rq_waiting q) p = Some x"
  shows "case rq_drop_pending q of (q1, r) \<Rightarrow>
    r = Inr \<lparr>qs_drained = True, qs_pending_items = 0, qs_dropped_items = rq_size q\<rparr> \<and>
    rq_closed q1 \<and> rq_size q1 = 0 \<and>
    snd (rq_resume p q1) = Put_Returned \<and> rq_items (fst (rq_resume p q1)) = [x] \<and>
    rq_closed (fst (rq_resume p q1))"
proof -
  have acc: "rq_size q \<le> rq_unfinished q" "0 < rq_max_size q"
    using queue_run_accounted [OF assms(1)] by (simp_all add: accounted_def)
  show ?thesis using assms(2) acc(2) unfolding drop_pending_eq [OF acc(1)]
    by (simp add: rq_resume_def rq_full_def rq_size_def)
qed

text \<open>A queue of one place, filled by producer 1, with producer 2 suspended.\<close>

definition ex_queue :: "string reading_queue" where
  "ex_queue = (case reading_queue_new 1 5 of
     Inr q \<Rightarrow> fst (rq_put 2 ''b'' (fst (rq_put 1 ''a'' q))))"

lemma ex_queue_run: "\<exists>q0. queue_run q0 [''a''] [] 0 ex_queue"
proof -
  define q0 :: "string reading_queue" where "q0 = (case reading_queue_new 1 5 of Inr q \<Rightarrow> q)"
  define q1 where "q1 = fst (rq_put 1 ''a'' q0)"
  have q0: "reading_queue_new 1 5 = Inr q0" unfolding q0_def by code_simp
  have w: "rq_waiting q0 = []" "\<not> rq_closed q0" "\<not> rq_full q0"
    unfolding q0_def by code_simp+
  have q1: "rq_waiting q1 = []" "\<not> rq_closed q1" "rq_full q1"
    unfolding q1_def q0_def by code_simp+
  have "queue_run q0 [''a''] [] 0 q1"
    using queue_run.step [OF queue_run.start [OF q0] queue_step.put [of 1 q0 "''a''"]] w
    by (simp add: q1_def)
  then have "queue_run q0 [''a''] [] 0 (fst (rq_put 2 ''b'' q1))"
    using queue_run.step [OF _ queue_step.put [of 2 q1 "''b''"]] q1 by fastforce
  then show ?thesis by (auto simp: ex_queue_def q1_def q0)
qed

theorem queue_fifo_bounded_witness: "rq_size ex_queue \<le> rq_unfinished ex_queue \<and> rq_items ex_queue = [''a'']"
  using ex_queue_run queue_fifo_bounded by fastforce

end
