(* ===== verification/Spool.thy ===== *)
theory Spool
  imports Spool_Codec Reading_Queue Rounding
begin

text \<open>
  src/plc_gateway/persistence/spool.py: the durable spool. Its SQLite table is an
  association list from execution id to row, in row order; timestamps are the ISO texts the
  code stores, compared as text as the queries do. Each method is one transaction. The
  current time is an argument, the reading of the clock or the \<^verbatim>\<open>now\<close> the caller gave.
  Failures of SQLite itself (a full disk, a locked file) are not modelled here but at the
  caller, in the database writer.

  Shown: appending is all or nothing and within the bound; a due fetch returns the oldest
  due rows, each as it was appended; \<open>mark_replayed\<close> and \<open>mark_failed\<close> change exactly the rows
  named; every reachable spool is well formed.
\<close>

section \<open>State\<close>

record spool_row =
  sr_payload :: pyval
  sr_retry_count :: nat
  sr_next_retry_at :: string
  sr_created_at :: string

type_synonym spool_rows = "(string \<times> spool_row) list"

record spool =
  sp_max_items :: int
  sp_rows :: spool_rows
  sp_rejected_items :: int
  sp_replayed_items :: nat
  sp_failed_replays :: nat

text \<open>Opening the spool on a file: the table that is there is kept.\<close>

definition spool_open :: "spool_rows \<Rightarrow> int \<Rightarrow> spool result" where
  "spool_open rows max_items =
     (if max_items \<le> 0 then value_error ''max_items must be positive.''
      else Inr \<lparr>sp_max_items = max_items, sp_rows = rows, sp_rejected_items = 0,
             sp_replayed_items = 0, sp_failed_replays = 0\<rparr>)"

text \<open>
  A file may not have the table yet; creating it \<^verbatim>\<open>IF NOT EXISTS\<close> gives it no rows and leaves one
  that is there alone. The constructor checks the bound first, then makes the directories above
  the file (the parameter \<open>mkdir\<close>), and only then opens it; \<open>files\<close> are the spool files by path.
\<close>

definition initialize_spool :: "spool_rows option \<Rightarrow> spool_rows" where
  "initialize_spool table = (case table of None \<Rightarrow> [] | Some rows \<Rightarrow> rows)"

definition spool_create ::
  "(string \<Rightarrow> unit result) \<Rightarrow> string \<Rightarrow> int \<Rightarrow> (string \<times> spool_rows) list \<Rightarrow>
     (string \<times> spool_rows) list \<times> spool result" where
  "spool_create mkdir path max_items files =
     (if max_items \<le> 0 then (files, value_error ''max_items must be positive.'')
      else case mkdir path of
          Inl e \<Rightarrow> (files, Inl e)
        | Inr _ \<Rightarrow>
            (let rows = initialize_spool (map_of files path)
             in (AList.update path rows files, spool_open rows max_items)))"

definition count_items :: "spool_rows \<Rightarrow> nat" where
  "count_items rows = length rows"

definition spool_count :: "spool \<Rightarrow> nat" where
  "spool_count s = count_items (sp_rows s)"

lemma spool_count_eq: "spool_count s = length (sp_rows s)"
  by (simp add: spool_count_def count_items_def)

record spool_metrics =
  sm_max_items :: int
  sm_stored_items :: nat
  sm_full :: bool
  sm_rejected_items :: int
  sm_replayed_items :: nat
  sm_failed_replays :: nat

definition spool_metrics_of :: "spool \<Rightarrow> spool_metrics" where
  "spool_metrics_of s =
     \<lparr>sm_max_items = sp_max_items s, sm_stored_items = spool_count s,
      sm_full = (sp_max_items s \<le> int (spool_count s)), sm_rejected_items = sp_rejected_items s,
      sm_replayed_items = sp_replayed_items s, sm_failed_replays = sp_failed_replays s\<rparr>"

section \<open>Appending\<close>

definition integrity_error :: "string \<Rightarrow> 'a result" where
  "integrity_error m = Inl (exn PyIntegrityError m)"

definition insert_item :: "datetime \<Rightarrow> worker_poll_result \<Rightarrow> spool_rows \<Rightarrow> spool_rows result" where
  "insert_item now item rows =
     rbind (poll_result_to_json item) (\<lambda>j.
     rbind (json_value j) (\<lambda>payload.
     rbind (datetime_to_json now) (\<lambda>stamp.
       if map_of rows (wp_id item) \<noteq> None
       then integrity_error ''UNIQUE constraint failed: spooled_poll_results.execution_id''
       else Inr (rows @ [(wp_id item, \<lparr>sr_payload = payload, sr_retry_count = 0,
              sr_next_retry_at = stamp, sr_created_at = stamp\<rparr>)]))))"

fun insert_items :: "datetime \<Rightarrow> worker_poll_result list \<Rightarrow> spool_rows \<Rightarrow> spool_rows result" where
  "insert_items now [] rows = Inr rows"
| "insert_items now (x # xs) rows = rbind (insert_item now x rows) (insert_items now xs)"

text \<open>\<^verbatim>\<open>SELECT execution_id ... WHERE execution_id IN (...)\<close>, without a query for no ids.\<close>

definition existing_ids :: "spool_rows \<Rightarrow> string list \<Rightarrow> string list" where
  "existing_ids rows ids = (if ids = [] then [] else map fst (filter (\<lambda>p. fst p \<in> set ids) rows))"

definition new_items :: "worker_poll_result list \<Rightarrow> spool_rows \<Rightarrow> worker_poll_result list" where
  "new_items items rows =
     (let existing = existing_ids rows (map wp_id items) in filter (\<lambda>x. wp_id x \<notin> set existing) items)"

lemma set_existing_ids: "set (existing_ids rows ids) = fst ` set rows \<inter> set ids"
  by (force simp: existing_ids_def)

lemma new_items_alt: "new_items items rows = filter (\<lambda>x. map_of rows (wp_id x) = None) items"
  unfolding new_items_def Let_def by (rule filter_cong) (auto simp: set_existing_ids map_of_eq_None_iff)

definition spool_append ::
  "worker_poll_result list \<Rightarrow> datetime \<Rightarrow> spool \<Rightarrow> spool \<times> nat result" where
  "spool_append items now s =
     (if items = [] then (s, Inr 0)
      else
        let existing = count_items (sp_rows s);
            fresh = new_items items (sp_rows s);
            available = sp_max_items s - int existing
        in if available < int (length fresh)
           then (s\<lparr>sp_rejected_items := sp_rejected_items s + (int (length fresh) - max available 0)\<rparr>,
                 Inl (exn_coded StorageError ''Durable spool is full.'' ''durable_spool_full''
                   [(''max_items'', PInt (sp_max_items s)), (''stored_items'', PInt (int existing)),
                    (''incoming_items'', PInt (int (length fresh)))]))
           else case insert_items now fresh (sp_rows s) of
               Inl e \<Rightarrow> (s, Inl e)
             | Inr rows \<Rightarrow> (s\<lparr>sp_rows := rows\<rparr>, Inr (length fresh)))"

lemmas spool_append_eq = spool_append_def [folded spool_count_def]

section \<open>Fetching\<close>

record spool_entry =
  se_execution_id :: string
  se_poll_result :: worker_poll_result
  se_retry_count :: nat
  se_next_retry_at :: datetime

definition spool_entry_of :: "string \<times> spool_row \<Rightarrow> spool_entry result" where
  "spool_entry_of p =
     (case p of (k, row) \<Rightarrow>
        rbind (poll_result_from_json (sr_payload row)) (\<lambda>r.
        rbind (datetime_from_json (sr_next_retry_at row)) (\<lambda>stamp.
          Inr \<lparr>se_execution_id = k, se_poll_result = r, se_retry_count = sr_retry_count row,
               se_next_retry_at = stamp\<rparr>)))"

text \<open>\<^verbatim>\<open>WHERE next_retry_at <= ? ORDER BY created_at, execution_id LIMIT ?\<close>\<close>

definition row_order :: "string \<times> spool_row \<Rightarrow> string \<times> string" where
  "row_order p = (sr_created_at (snd p), fst p)"

definition due_rows :: "string \<Rightarrow> spool_rows \<Rightarrow> spool_rows" where
  "due_rows due rows = sort_key row_order (filter (\<lambda>p. sr_next_retry_at (snd p) \<le> due) rows)"

definition fetch_due :: "int \<Rightarrow> datetime \<Rightarrow> spool \<Rightarrow> spool_entry list result" where
  "fetch_due limit now s =
     (if limit \<le> 0 then value_error ''limit must be positive.''
      else rbind (normalize_datetime now) (\<lambda>due_at.
           rbind (datetime_to_json due_at) (\<lambda>due.
             rmap spool_entry_of (take (nat limit) (due_rows due (sp_rows s))))))"

section \<open>Marking\<close>

definition mark_replayed :: "string list \<Rightarrow> spool \<Rightarrow> spool \<times> nat result" where
  "mark_replayed ids s =
     (if ids = [] then (s, Inr 0)
      else
        let kept = filter (\<lambda>p. fst p \<notin> set ids) (sp_rows s);
            deleted = length (sp_rows s) - length kept
        in (s\<lparr>sp_rows := kept, sp_replayed_items := sp_replayed_items s + deleted\<rparr>, Inr deleted))"

text \<open>\<^verbatim>\<open>timedelta(seconds=x)\<close> rounds to microseconds, half to even.\<close>

definition micros_of_seconds :: "rat \<Rightarrow> int" where
  "micros_of_seconds s = round_half_even (s * 1000000)"

definition bump :: "string list \<Rightarrow> string \<Rightarrow> string \<times> spool_row \<Rightarrow> string \<times> spool_row" where
  "bump ids stamp p =
     (if fst p \<in> set ids
      then (fst p, (snd p)\<lparr>sr_retry_count := Suc (sr_retry_count (snd p)), sr_next_retry_at := stamp\<rparr>)
      else p)"

definition mark_failed :: "string list \<Rightarrow> rat \<Rightarrow> datetime \<Rightarrow> spool \<Rightarrow> spool \<times> nat result" where
  "mark_failed ids retry_delay_s now s =
     (if retry_delay_s < 0 then (s, value_error ''retry_delay_s must be non-negative.'')
      else if ids = [] then (s, Inr 0)
      else case rbind (rbind (add_micros now (micros_of_seconds retry_delay_s)) normalize_datetime) datetime_to_json of
          Inl e \<Rightarrow> (s, Inl e)
        | Inr stamp \<Rightarrow>
            (let updated = length (filter (\<lambda>p. fst p \<in> set ids) (sp_rows s))
             in (s\<lparr>sp_rows := map (bump ids stamp) (sp_rows s),
                  sp_failed_replays := sp_failed_replays s + updated\<rparr>, Inr updated)))"

text \<open>What a later start finds on the path are the rows that were there.\<close>

lemma spool_create_reopens:
  "spool_create mkdir path n files = (files', Inr s) \<Longrightarrow>
     sp_rows s = initialize_spool (map_of files path) \<and> files' = AList.update path (sp_rows s) files \<and> 0 < n"
  by (auto simp: spool_create_def spool_open_def value_error_def Let_def split: if_splits sum.splits)

section \<open>Well-formed spools\<close>

definition iso_text :: "string \<Rightarrow> bool" where
  "iso_text x \<longleftrightarrow> (\<exists>t. valid_wall t \<and> x = isoformat (utc_dt t))"

definition row_ok :: "string \<times> spool_row \<Rightarrow> bool" where
  "row_ok p \<longleftrightarrow> (\<exists>r. poll_result_from_json (sr_payload (snd p)) = Inr r \<and> wp_id r = fst p) \<and>
     iso_text (sr_next_retry_at (snd p)) \<and> iso_text (sr_created_at (snd p))"

definition rows_ok :: "spool_rows \<Rightarrow> bool" where
  "rows_ok rows \<longleftrightarrow> distinct (map fst rows) \<and> (\<forall>p \<in> set rows. row_ok p)"

definition spool_ids :: "spool \<Rightarrow> string set" where
  "spool_ids s = fst ` set (sp_rows s)"

text \<open>The spool has the poll result, and gives it back.\<close>

definition spool_holds :: "spool \<Rightarrow> worker_poll_result \<Rightarrow> bool" where
  "spool_holds s r \<longleftrightarrow>
     (\<exists>row. map_of (sp_rows s) (wp_id r) = Some row \<and> poll_result_from_json (sr_payload row) = Inr r)"

lemma insert_item_Inr:
  assumes "insert_item now x rows = Inr rows'" "poll_result_ok x" "utc_ok now"
  obtains row where "rows' = rows @ [(wp_id x, row)]" "row_ok (wp_id x, row)"
    "poll_result_from_json (sr_payload row) = Inr x" "map_of rows (wp_id x) = None"
    "sr_created_at row = isoformat now" "sr_next_retry_at row = isoformat now"
proof -
  obtain j k where jk: "poll_result_to_json x = Inr j" "json_value j = Inr k" "poll_result_from_json k = Inr x"
    using poll_result_round_trip [OF assms(2)] by blast
  have iso: "iso_text (isoformat now)"
    using assms(3) utc_ok_eq [OF assms(3)] unfolding iso_text_def utc_ok_def by metis
  let ?row = "\<lparr>sr_payload = k, sr_retry_count = 0, sr_next_retry_at = isoformat now, sr_created_at = isoformat now\<rparr>"
  have "rows' = rows @ [(wp_id x, ?row)]" "map_of rows (wp_id x) = None"
    using assms jk by (auto simp: insert_item_def integrity_error_def split: if_splits)
  then show thesis using that [of ?row] jk iso by (simp add: row_ok_def)
qed

lemma insert_item_total:
  assumes "poll_result_ok x" "utc_ok now" "map_of rows (wp_id x) = None"
  shows "\<exists>rows'. insert_item now x rows = Inr rows'"
  using poll_result_round_trip [OF assms(1)] assms by (auto simp: insert_item_def)

lemma insert_items_Inr:
  assumes "insert_items now xs rows = Inr rows'" "\<forall>x \<in> set xs. poll_result_ok x" "utc_ok now"
  shows "\<exists>new. rows' = rows @ new \<and> map fst new = map wp_id xs \<and> (\<forall>p \<in> set new. row_ok p) \<and>
    list_all2 (\<lambda>p x. poll_result_from_json (sr_payload (snd p)) = Inr x) new xs \<and>
    distinct (map wp_id xs) \<and> (\<forall>x \<in> set xs. map_of rows (wp_id x) = None)"
  using assms
proof (induction xs arbitrary: rows)
  case Nil
  then show ?case by simp
next
  case (Cons x xs)
  obtain rows1 where r1: "insert_item now x rows = Inr rows1" "insert_items now xs rows1 = Inr rows'"
    using Cons.prems(1) by auto
  have okx: "poll_result_ok x" using Cons.prems(2) by simp
  obtain row where row: "rows1 = rows @ [(wp_id x, row)]" "row_ok (wp_id x, row)"
    "poll_result_from_json (sr_payload row) = Inr x" "map_of rows (wp_id x) = None"
    by (rule insert_item_Inr [OF r1(1) okx Cons.prems(3)])
  obtain new where new: "rows' = rows1 @ new" "map fst new = map wp_id xs" "\<forall>p \<in> set new. row_ok p"
    "list_all2 (\<lambda>p x. poll_result_from_json (sr_payload (snd p)) = Inr x) new xs"
    "distinct (map wp_id xs)" "\<forall>y \<in> set xs. map_of rows1 (wp_id y) = None"
    using Cons.IH [OF r1(2)] Cons.prems by auto
  have fresh: "map_of rows (wp_id y) = None \<and> wp_id y \<noteq> wp_id x" if "y \<in> set xs" for y
    using new(6) that row(1) by (auto simp: map_add_def split: option.splits if_splits)
  have "rows' = rows @ (wp_id x, row) # new" using new(1) row(1) by simp
  moreover have "wp_id x \<notin> set (map wp_id xs)" using fresh by fastforce
  then have "distinct (map wp_id (x # xs))" using new(5) by simp
  ultimately show ?case using new(2-4) row fresh
    by (intro exI [of _ "(wp_id x, row) # new"]) auto
qed

lemma distinct_map_hd: "distinct (map f (x # xs)) \<Longrightarrow> y \<in> set xs \<Longrightarrow> f y \<noteq> f x"
  by auto (metis image_eqI)

lemma insert_items_total:
  assumes "\<forall>x \<in> set xs. poll_result_ok x" "utc_ok now" "distinct (map wp_id xs)"
    and "\<forall>x \<in> set xs. map_of rows (wp_id x) = None"
  shows "\<exists>rows'. insert_items now xs rows = Inr rows'"
  using assms
proof (induction xs arbitrary: rows)
  case Nil
  then show ?case by simp
next
  case (Cons x xs)
  have okx: "poll_result_ok x" "map_of rows (wp_id x) = None" using Cons.prems by simp_all
  obtain rows1 where r1: "insert_item now x rows = Inr rows1"
    using insert_item_total [OF okx(1) Cons.prems(2) okx(2)] by blast
  obtain row where row: "rows1 = rows @ [(wp_id x, row)]"
    by (rule insert_item_Inr [OF r1 okx(1) Cons.prems(2)])
  have "wp_id y \<noteq> wp_id x" if "y \<in> set xs" for y
    using distinct_map_hd [OF Cons.prems(3) that] .
  moreover have "map_of rows (wp_id y) = None" if "y \<in> set xs" for y using Cons.prems(4) that by simp
  moreover have "map_of rows1 k = (if k = wp_id x then Some row else map_of rows k)" for k
    using okx(2) unfolding row by (simp add: map_add_def split: option.splits)
  ultimately have "\<forall>y \<in> set xs. map_of rows1 (wp_id y) = None" by metis
  then show ?case using Cons.IH [of rows1] Cons.prems r1 by auto
qed

lemma rows_ok_append:
  assumes "rows_ok rows" "insert_items now (new_items xs rows) rows = Inr rows'"
    and "\<forall>x \<in> set xs. poll_result_ok x" "utc_ok now"
  shows "rows_ok rows'"
proof -
  have "\<forall>x \<in> set (new_items xs rows). poll_result_ok x" using assms(3) by (simp add: new_items_alt)
  then obtain new where new: "rows' = rows @ new" "map fst new = map wp_id (new_items xs rows)"
    "\<forall>p \<in> set new. row_ok p" "distinct (map wp_id (new_items xs rows))"
    "\<forall>x \<in> set (new_items xs rows). map_of rows (wp_id x) = None"
    using insert_items_Inr [OF assms(2) _ assms(4)] by auto
  have "fst ` set new = wp_id ` set (new_items xs rows)" using new(2) by (metis set_map)
  moreover have "k \<notin> fst ` set rows" if "k \<in> wp_id ` set (new_items xs rows)" for k
    using new(5) that by (auto simp: map_of_eq_None_iff)
  ultimately have "fst ` set rows \<inter> fst ` set new = {}" by (metis disjoint_iff)
  then show ?thesis using assms(1) new by (auto simp: rows_ok_def)
qed

section \<open>What the operations do\<close>

lemma rows_ok_map_of: "rows_ok rows \<Longrightarrow> map_of rows k = Some row \<longleftrightarrow> (k, row) \<in> set rows"
  by (simp add: rows_ok_def)

lemma spool_holds_iff:
  "rows_ok (sp_rows s) \<Longrightarrow> spool_holds s r \<longleftrightarrow>
     (\<exists>row. (wp_id r, row) \<in> set (sp_rows s) \<and> poll_result_from_json (sr_payload row) = Inr r)"
  by (simp add: spool_holds_def rows_ok_map_of)

lemma append_transaction:
  assumes "rows_ok (sp_rows s)" "\<forall>x \<in> set xs. poll_result_ok x" "utc_ok now"
    and "spool_append xs now s = (s', r)"
  shows "rows_ok (sp_rows s') \<and> (case r of
      Inl e \<Rightarrow> sp_rows s' = sp_rows s
    | Inr n \<Rightarrow> (\<exists>new. sp_rows s' = sp_rows s @ new \<and> n = length new \<and>
          map fst new = map wp_id (new_items xs (sp_rows s))) \<and>
        int (spool_count s') \<le> max (sp_max_items s) (int (spool_count s)) \<and>
        (\<forall>x \<in> set xs. wp_id x \<in> spool_ids s') \<and>
        (\<forall>x \<in> set (new_items xs (sp_rows s)). spool_holds s' x))"
proof (cases "xs = []")
  case True
  then show ?thesis using assms by (auto simp: spool_append_eq new_items_alt)
next
  case False
  let ?fresh = "new_items xs (sp_rows s)"
  have okf: "\<forall>x \<in> set ?fresh. poll_result_ok x" using assms(2) by (simp add: new_items_alt)
  show ?thesis
  proof (cases "sp_max_items s - int (spool_count s) < int (length ?fresh)")
    case True
    then show ?thesis using assms(1,4) False by (auto simp: spool_append_eq Let_def)
  next
    case room: False
    show ?thesis
    proof (cases "insert_items now ?fresh (sp_rows s)")
      case (Inl e)
      then show ?thesis using assms(1,4) False room by (auto simp: spool_append_eq Let_def)
    next
      case (Inr rows')
      have s': "s' = s\<lparr>sp_rows := rows'\<rparr>" "r = Inr (length ?fresh)"
        using assms(4) False room Inr by (auto simp: spool_append_eq Let_def)
      obtain new where new: "rows' = sp_rows s @ new" "map fst new = map wp_id ?fresh"
        "list_all2 (\<lambda>p x. poll_result_from_json (sr_payload (snd p)) = Inr x) new ?fresh"
        using insert_items_Inr [OF Inr okf assms(3)] by auto
      have rows': "rows_ok (sp_rows s')" using rows_ok_append [OF assms(1) Inr assms(2,3)] s' by simp
      have len: "length new = length ?fresh" using new(2) by (metis length_map)
      have ids: "wp_id x \<in> spool_ids s'" if "x \<in> set xs" for x
      proof (cases "map_of (sp_rows s) (wp_id x)")
        case None
        then have "wp_id x \<in> set (map wp_id ?fresh)" using that by (simp add: new_items_alt)
        then have "wp_id x \<in> fst ` set new" using new(2) by (metis set_map)
        then show ?thesis using s' new(1) by (auto simp: spool_ids_def)
      next
        case (Some row)
        then show ?thesis using s' new(1) map_of_SomeD by (force simp: spool_ids_def)
      qed
      have holds: "spool_holds s' x" if mem: "x \<in> set ?fresh" for x
      proof -
        obtain i where i: "i < length ?fresh" "?fresh ! i = x" using mem by (auto simp: in_set_conv_nth)
        have "map fst new ! i = map wp_id ?fresh ! i" by (simp only: new(2))
        then have "fst (new ! i) = wp_id x" using i len by simp
        moreover have "poll_result_from_json (sr_payload (snd (new ! i))) = Inr x"
          using list_all2_nthD2 [OF new(3) i(1)] i(2) by simp
        moreover have "new ! i \<in> set (sp_rows s')" using i(1) len s' new(1) by simp
        ultimately show ?thesis unfolding spool_holds_iff [OF rows'] by (metis prod.collapse)
      qed
      have "int (spool_count s') \<le> sp_max_items s"
        using room len s' new(1) by (simp add: spool_count_eq)
      moreover have "sp_rows s' = sp_rows s @ new" "length ?fresh = length new" using s' new(1) len by simp_all
      ultimately show ?thesis using rows' s'(2) new(2) ids holds by (auto intro!: exI [of _ new])
    qed
  qed
qed

text \<open>
  C8: an append is one transaction. It either adds one row for each poll result whose
  execution is not in the spool yet, in order and within the bound, and then every given
  execution is spooled and every new one can be read back; or it fails and leaves the rows
  as they were.
\<close>

theorem spool_append_atomic:
  assumes "rows_ok (sp_rows s)" "\<forall>x \<in> set xs. poll_result_ok x" "utc_ok now"
    and "spool_append xs now s = (s', r)"
  shows "rows_ok (sp_rows s') \<and> (case r of
      Inl e \<Rightarrow> sp_rows s' = sp_rows s
    | Inr n \<Rightarrow> (\<exists>new. sp_rows s' = sp_rows s @ new \<and> n = length new \<and>
          map fst new = map wp_id (new_items xs (sp_rows s))) \<and>
        int (spool_count s') \<le> max (sp_max_items s) (int (spool_count s)) \<and>
        (\<forall>x \<in> set xs. wp_id x \<in> spool_ids s') \<and>
        (\<forall>x \<in> set (new_items xs (sp_rows s)). spool_holds s' x))"
  by (rule append_transaction [OF assms])

text \<open>
  An append of validated poll results with distinct executions succeeds whenever the
  new ones fit.
\<close>

lemma spool_append_succeeds:
  assumes "\<forall>x \<in> set xs. poll_result_ok x" "utc_ok now" "distinct (map wp_id xs)"
    and "int (spool_count s) + int (length (new_items xs (sp_rows s))) \<le> sp_max_items s"
  shows "\<exists>s'. spool_append xs now s = (s', Inr (length (new_items xs (sp_rows s))))"
proof -
  have "\<exists>rows'. insert_items now (new_items xs (sp_rows s)) (sp_rows s) = Inr rows'"
  proof (rule insert_items_total)
    show "distinct (map wp_id (new_items xs (sp_rows s)))"
      unfolding new_items_alt by (rule distinct_map_filter [OF assms(3)])
  qed (use assms in \<open>auto simp: new_items_alt\<close>)
  then show ?thesis using assms(4) by (auto simp: spool_append_eq new_items_alt Let_def)
qed

lemma due_rows_set: "set (due_rows due rows) = {p \<in> set rows. sr_next_retry_at (snd p) \<le> due}"
  by (simp add: due_rows_def)

lemma row_ok_entry:
  assumes "row_ok p" "utc_ok now"
  shows "\<exists>e. spool_entry_of p = Inr e \<and> se_execution_id e = fst p \<and>
    poll_result_from_json (sr_payload (snd p)) = Inr (se_poll_result e) \<and>
    wp_id (se_poll_result e) = fst p \<and>
    (sr_next_retry_at (snd p) \<le> isoformat now \<longleftrightarrow> dt_wall (se_next_retry_at e) \<le> dt_wall now)"
proof -
  obtain t where t: "valid_wall t" "sr_next_retry_at (snd p) = isoformat (utc_dt t)"
    using assms(1) by (auto simp: row_ok_def iso_text_def)
  obtain r where r: "poll_result_from_json (sr_payload (snd p)) = Inr r" "wp_id r = fst p"
    using assms(1) by (auto simp: row_ok_def)
  have "sr_next_retry_at (snd p) \<le> isoformat now \<longleftrightarrow> t \<le> dt_wall now"
    using isoformat_le_iff [of "utc_dt t" now] t assms(2) by simp
  then show ?thesis using r t by (cases p) (simp add: spool_entry_of_def)
qed

lemma sorted_take_drop:
  "sorted (map f xs) \<Longrightarrow> x \<in> set (take n xs) \<Longrightarrow> y \<in> set (drop n xs) \<Longrightarrow> f x \<le> f y"
  using sorted_append [of "map f (take n xs)" "map f (drop n xs)"]
  by (metis append_take_drop_id image_eqI map_append set_map)

lemma fetch_due_entries:
  assumes "rows_ok (sp_rows s)" "utc_ok now" "0 < limit"
  shows "\<exists>es. fetch_due limit now s = Inr es \<and>
    (\<forall>e \<in> set es. spool_holds s (se_poll_result e) \<and> wp_id (se_poll_result e) = se_execution_id e \<and>
       dt_wall (se_next_retry_at e) \<le> dt_wall now) \<and>
    map se_execution_id es = map fst (take (nat limit) (due_rows (isoformat now) (sp_rows s))) \<and>
    (\<forall>p \<in> set (sp_rows s). sr_next_retry_at (snd p) \<le> isoformat now \<longrightarrow>
       fst p \<in> se_execution_id ` set es \<or>
       length es = nat limit \<and>
         (\<forall>q \<in> set (take (nat limit) (due_rows (isoformat now) (sp_rows s))). row_order q \<le> row_order p))"
proof -
  let ?due = "due_rows (isoformat now) (sp_rows s)"
  let ?ps = "take (nat limit) ?due"
  define g where "g p = (SOME e. spool_entry_of p = Inr e)" for p
  have in_rows: "p \<in> set (sp_rows s) \<and> sr_next_retry_at (snd p) \<le> isoformat now" if "p \<in> set ?ps" for p
    using set_take_subset [of "nat limit" ?due] that due_rows_set by blast
  have g: "spool_entry_of p = Inr (g p)" if "p \<in> set ?ps" for p
  proof -
    have "row_ok p" using in_rows [OF that] assms(1) by (simp add: rows_ok_def)
    then have "\<exists>e. spool_entry_of p = Inr e" using row_ok_entry [OF _ assms(2)] by blast
    then show ?thesis unfolding g_def by (rule someI_ex)
  qed
  have es: "fetch_due limit now s = Inr (map g ?ps)"
    using assms(2,3) rmap_all_Inr [OF g] by (simp add: fetch_due_def)
  have each: "spool_holds s (se_poll_result (g p)) \<and> wp_id (se_poll_result (g p)) = se_execution_id (g p) \<and>
      dt_wall (se_next_retry_at (g p)) \<le> dt_wall now \<and> se_execution_id (g p) = fst p"
    if "p \<in> set ?ps" for p
  proof -
    have p: "p \<in> set (sp_rows s)" "sr_next_retry_at (snd p) \<le> isoformat now" using in_rows [OF that] by auto
    have "row_ok p" using p(1) assms(1) by (simp add: rows_ok_def)
    then show ?thesis
      using row_ok_entry [OF _ assms(2), of p] g [OF that] p
      unfolding spool_holds_iff [OF assms(1)] by (metis prod.collapse sum.inject(2))
  qed
  have ids: "map se_execution_id (map g ?ps) = map fst ?ps" using each by simp
  have sorted: "sorted (map row_order ?due)" by (simp add: due_rows_def)
  have left_out: "fst p \<in> se_execution_id ` set (map g ?ps) \<or>
      length (map g ?ps) = nat limit \<and> (\<forall>q \<in> set ?ps. row_order q \<le> row_order p)"
    if "p \<in> set (sp_rows s)" "sr_next_retry_at (snd p) \<le> isoformat now" for p
  proof (cases "p \<in> set ?ps")
    case True
    then have "fst p \<in> set (map se_execution_id (map g ?ps))" unfolding ids by simp
    then show ?thesis by (metis set_map)
  next
    case False
    have "p \<in> set ?due" using that due_rows_set by blast
    then have d: "p \<in> set (drop (nat limit) ?due)" using False by (metis Un_iff append_take_drop_id set_append)
    then have "drop (nat limit) ?due \<noteq> []" by auto
    then show ?thesis using sorted_take_drop [OF sorted _ d] by simp
  qed
  show ?thesis using es each ids left_out by (intro exI [of _ "map g ?ps"]) auto
qed

text \<open>
  C23: a fetch from a well-formed spool returns. The entries are the due rows, no more than
  the limit, oldest first; each is due at the given time and carries the poll result that
  was appended under its id; a due row is left out only when the limit is reached, and then
  it is not older than any row returned.
\<close>

theorem fetch_due_oldest:
  assumes "rows_ok (sp_rows s)" "utc_ok now" "0 < limit"
  shows "\<exists>es. fetch_due limit now s = Inr es \<and>
    (\<forall>e \<in> set es. spool_holds s (se_poll_result e) \<and> wp_id (se_poll_result e) = se_execution_id e \<and>
       dt_wall (se_next_retry_at e) \<le> dt_wall now) \<and>
    map se_execution_id es = map fst (take (nat limit) (due_rows (isoformat now) (sp_rows s))) \<and>
    (\<forall>p \<in> set (sp_rows s). sr_next_retry_at (snd p) \<le> isoformat now \<longrightarrow>
       fst p \<in> se_execution_id ` set es \<or>
       length es = nat limit \<and>
         (\<forall>q \<in> set (take (nat limit) (due_rows (isoformat now) (sp_rows s))). row_order q \<le> row_order p))"
  by (rule fetch_due_entries [OF assms])

lemma card_named:
  assumes "rows_ok (sp_rows s)"
  shows "length (filter (\<lambda>p. fst p \<in> set ids) (sp_rows s)) = card (spool_ids s \<inter> set ids)"
proof -
  have "fst ` set (filter (\<lambda>p. fst p \<in> set ids) (sp_rows s)) = spool_ids s \<inter> set ids"
    by (auto simp: spool_ids_def)
  moreover have "distinct (map fst (filter (\<lambda>p. fst p \<in> set ids) (sp_rows s)))"
    using assms by (simp add: rows_ok_def distinct_map_filter)
  ultimately show ?thesis by (metis distinct_card length_map set_map)
qed

lemma mark_replayed_rows:
  assumes "rows_ok (sp_rows s)" "mark_replayed ids s = (s', r)"
  shows "rows_ok (sp_rows s') \<and> r = Inr (card (spool_ids s \<inter> set ids)) \<and>
    spool_ids s' = spool_ids s - set ids \<and>
    (\<forall>x. spool_holds s' x \<longleftrightarrow> spool_holds s x \<and> wp_id x \<notin> set ids)"
proof -
  let ?kept = "filter (\<lambda>p. fst p \<notin> set ids) (sp_rows s)"
  have s': "sp_rows s' = ?kept" using assms(2) by (auto simp: mark_replayed_def Let_def split: if_splits)
  have ok': "rows_ok (sp_rows s')" using assms(1) unfolding s'
    by (auto simp: rows_ok_def distinct_map_filter)
  have d: "distinct (map fst (sp_rows s))" using assms(1) by (simp add: rows_ok_def)
  have "length (sp_rows s) = length ?kept + length (filter (\<lambda>p. fst p \<in> set ids) (sp_rows s))"
    using sum_length_filter_compl [of "\<lambda>p. fst p \<in> set ids" "sp_rows s"] by simp
  moreover note card_named [OF assms(1), of ids]
  ultimately have r: "r = Inr (card (spool_ids s \<inter> set ids))"
    using assms(2) by (auto simp: mark_replayed_def Let_def split: if_splits)
  have "spool_holds s' x \<longleftrightarrow> spool_holds s x \<and> wp_id x \<notin> set ids" for x
    unfolding spool_holds_iff [OF assms(1)] spool_holds_iff [OF ok'] by (auto simp: s')
  then show ?thesis using ok' r by (auto simp: spool_ids_def s')
qed

text \<open>
  Marking executions as replayed deletes their rows and no other, and returns how many
  there were.
\<close>

lemma mark_replayed_exact:
  assumes "rows_ok (sp_rows s)" "mark_replayed ids s = (s', r)"
  shows "rows_ok (sp_rows s') \<and> r = Inr (card (spool_ids s \<inter> set ids)) \<and>
    spool_ids s' = spool_ids s - set ids \<and>
    (\<forall>x. spool_holds s' x \<longleftrightarrow> spool_holds s x \<and> wp_id x \<notin> set ids)"
  by (rule mark_replayed_rows [OF assms])

lemma bump_simps [simp]:
  "fst (bump ids stamp p) = fst p" "sr_payload (snd (bump ids stamp p)) = sr_payload (snd p)"
  "sr_created_at (snd (bump ids stamp p)) = sr_created_at (snd p)"
  by (simp_all add: bump_def)

lemma keys_bump [simp]: "map fst (map (bump ids stamp) rows) = map fst rows"
  by (induction rows) simp_all

lemma mark_failed_cases:
  assumes "mark_failed ids delay now s = (s', r)"
  obtains e where "s' = s" "r = Inl e" | "s' = s" "r = Inr 0" "ids = []"
    | d u where "add_micros now (micros_of_seconds delay) = Inr d" "normalize_datetime d = Inr u" "utc_ok u"
      "sp_rows s' = map (bump ids (isoformat u)) (sp_rows s)" "sp_max_items s' = sp_max_items s"
      "r = Inr (length (filter (\<lambda>p. fst p \<in> set ids) (sp_rows s)))" "0 \<le> delay"
  using assms
  by (auto simp: mark_failed_def value_error_def not_less Let_def normalize_datetime_utc rbind_Inr_iff
      split: if_splits sum.splits)

lemma iso_text_utc: "utc_ok d \<Longrightarrow> iso_text (isoformat d)"
  unfolding iso_text_def by (metis utc_dt_simps(3) utc_ok_eq)

lemma add_micros_utc: "add_micros now n = Inr d \<Longrightarrow> utc_ok now \<Longrightarrow> utc_ok d \<and> dt_wall d = dt_wall now + n"
  by (auto simp: add_micros_def utc_ok_def split: if_splits)

lemma mark_failed_rows_ok:
  assumes "rows_ok (sp_rows s)" "mark_failed ids delay now s = (s', r)"
  shows "rows_ok (sp_rows s') \<and> (\<forall>x. spool_holds s' x \<longleftrightarrow> spool_holds s x)"
  using assms(2)
proof (cases rule: mark_failed_cases)
  case (3 d u)
  have row: "row_ok (bump ids (isoformat u) p)" if "row_ok p" for p
    using that iso_text_utc [OF 3(3)] by (auto simp: row_ok_def bump_def)
  have ok': "rows_ok (sp_rows s')" using assms(1) row unfolding 3(4) rows_ok_def by (auto simp: comp_def)
  have "spool_holds s' x \<longleftrightarrow> spool_holds s x" for x
  proof -
    have "(\<exists>row. (wp_id x, row) \<in> set (sp_rows s') \<and> poll_result_from_json (sr_payload row) = Inr x) \<longleftrightarrow>
        (\<exists>p \<in> set (sp_rows s'). fst p = wp_id x \<and> poll_result_from_json (sr_payload (snd p)) = Inr x)"
      by force
    also have "\<dots> \<longleftrightarrow> (\<exists>p \<in> set (sp_rows s). fst p = wp_id x \<and> poll_result_from_json (sr_payload (snd p)) = Inr x)"
      unfolding 3(4) by auto
    also have "\<dots> \<longleftrightarrow> (\<exists>row. (wp_id x, row) \<in> set (sp_rows s) \<and> poll_result_from_json (sr_payload row) = Inr x)"
      by force
    finally show ?thesis unfolding spool_holds_iff [OF assms(1)] spool_holds_iff [OF ok'] .
  qed
  then show ?thesis using ok' by blast
qed (use assms in auto)

text \<open>
  The instants of aware datetimes, and a fetch at any of them whose limit is not reached: it returns
  the rows that are due, each as it is in the table.
\<close>

definition instant :: "datetime \<Rightarrow> int" where
  "instant d = dt_wall d - (case dt_offset d of None \<Rightarrow> 0 | Some off \<Rightarrow> off)"

definition aware :: "datetime \<Rightarrow> bool" where
  "aware d \<longleftrightarrow> dt_offset d \<noteq> None \<and> valid_wall (instant d)"

lemma aware_normalize: "aware d \<Longrightarrow> normalize_datetime d = Inr (utc_dt (instant d)) \<and> utc_ok (utc_dt (instant d))"
  by (auto simp: aware_def instant_def normalize_datetime_def astimezone_utc_def)

lemma fetch_due_all:
  assumes "rows_ok (sp_rows s)" "aware due" "int (spool_count s) \<le> limit" "0 < limit"
  shows "\<exists>es. fetch_due limit due s = Inr es \<and> se_execution_id ` set es =
      fst ` {p \<in> set (sp_rows s). sr_next_retry_at (snd p) \<le> isoformat (utc_dt (instant due))} \<and>
    (\<forall>e \<in> set es. spool_holds s (se_poll_result e) \<and> wp_id (se_poll_result e) = se_execution_id e)"
proof -
  let ?u = "utc_dt (instant due)"
  have u: "normalize_datetime due = Inr ?u" "utc_ok ?u" using aware_normalize [OF assms(2)] by blast+
  have same: "fetch_due limit due s = fetch_due limit ?u s" using u by (simp add: fetch_due_def)
  obtain es where es: "fetch_due limit ?u s = Inr es"
    "map se_execution_id es = map fst (take (nat limit) (due_rows (isoformat ?u) (sp_rows s)))"
    "\<forall>e \<in> set es. spool_holds s (se_poll_result e) \<and> wp_id (se_poll_result e) = se_execution_id e"
    using fetch_due_entries [OF assms(1) u(2) assms(4)] by blast
  have "length (due_rows (isoformat ?u) (sp_rows s)) \<le> spool_count s" by (simp add: due_rows_def spool_count_eq)
  then have "take (nat limit) (due_rows (isoformat ?u) (sp_rows s)) = due_rows (isoformat ?u) (sp_rows s)"
    using assms(3) by simp
  then have "se_execution_id ` set es = fst ` set (due_rows (isoformat ?u) (sp_rows s))"
    using es(2) by (metis set_map)
  then show ?thesis unfolding same due_rows_set using es(1,3) by blast
qed

text \<open>What a postponement does to the rows that are due.\<close>

lemma bumped_ids:
  assumes "rows_ok (sp_rows s)"
  shows "fst ` {p \<in> set (map (bump ids stamp) (sp_rows s)). sr_next_retry_at (snd p) \<le> due} =
    (fst ` {p \<in> set (sp_rows s). sr_next_retry_at (snd p) \<le> due} - set ids) \<union>
      (if stamp \<le> due then spool_ids s \<inter> set ids else {})"
proof -
  have named: "fst ` {p \<in> set (sp_rows s). sr_next_retry_at (snd p) \<le> due} - set ids =
      fst ` {p \<in> set (sp_rows s). sr_next_retry_at (snd p) \<le> due \<and> fst p \<notin> set ids}" by auto
  have "{p \<in> set (map (bump ids stamp) (sp_rows s)). sr_next_retry_at (snd p) \<le> due} =
      bump ids stamp ` {p \<in> set (sp_rows s). if fst p \<in> set ids then stamp \<le> due else sr_next_retry_at (snd p) \<le> due}"
    by (auto simp: bump_def split: if_splits)
  then show ?thesis unfolding named by (force simp: image_image spool_ids_def)
qed

text \<open>
  One undecodable row stops the replay. If the oldest due row cannot be read back,
  every fetch raises, whatever its limit, and no due row behind it is returned.
\<close>

lemma corrupt_row_blocks:
  assumes "utc_ok now" "due_rows (isoformat now) (sp_rows s) = p # rest" "spool_entry_of p = Inl e" "0 < limit"
  shows "fetch_due limit now s = Inl e"
proof -
  obtain k where "nat limit = Suc k" using assms(4) gr0_implies_Suc by fastforce
  then show ?thesis using assms by (simp add: fetch_due_def)
qed


section \<open>Sequences of operations\<close>

datatype spool_op =
    SO_Append "worker_poll_result list" datetime
  | SO_Replayed "string list"
  | SO_Failed "string list" rat datetime
  | SO_Reopen int

text \<open>Reopening is a restart of the process: the counters start again, the table stays.\<close>

fun spool_step :: "spool_op \<Rightarrow> spool \<Rightarrow> spool" where
  "spool_step (SO_Append xs now) s = fst (spool_append xs now s)"
| "spool_step (SO_Replayed ids) s = fst (mark_replayed ids s)"
| "spool_step (SO_Failed ids delay now) s = fst (mark_failed ids delay now s)"
| "spool_step (SO_Reopen n) s = (case spool_open (sp_rows s) n of Inl e \<Rightarrow> s | Inr s' \<Rightarrow> s')"

fun spool_op_ok :: "spool_op \<Rightarrow> bool" where
  "spool_op_ok (SO_Append xs now) \<longleftrightarrow> (\<forall>x \<in> set xs. poll_result_ok x) \<and> utc_ok now"
| "spool_op_ok (SO_Failed ids delay now) \<longleftrightarrow> utc_ok now"
| "spool_op_ok _ \<longleftrightarrow> True"

lemma mark_failed_max: "sp_max_items (fst (mark_failed ids delay now s)) = sp_max_items s"
  by (auto simp: mark_failed_def Let_def split: sum.splits)

lemma mark_failed_count: "spool_count (fst (mark_failed ids delay now s)) = spool_count s"
  by (auto simp: mark_failed_def spool_count_eq Let_def split: sum.splits)

lemma spool_append_max: "sp_max_items (fst (spool_append xs now s)) = sp_max_items s"
  by (auto simp: spool_append_eq Let_def split: sum.splits)

text \<open>The bound is kept by every operation but a reopening with a smaller one.\<close>

definition spool_inv :: "int \<Rightarrow> spool \<Rightarrow> bool" where
  "spool_inv bound s \<longleftrightarrow> rows_ok (sp_rows s) \<and> 0 < sp_max_items s \<and>
     sp_max_items s \<le> bound \<and> int (spool_count s) \<le> bound"

lemma spool_append_count:
  assumes "rows_ok (sp_rows s)" "\<forall>x \<in> set xs. poll_result_ok x" "utc_ok now"
  shows "int (spool_count (fst (spool_append xs now s))) \<le> max (sp_max_items s) (int (spool_count s))"
proof (cases "insert_items now (new_items xs (sp_rows s)) (sp_rows s)")
  case (Inl e)
  then show ?thesis by (auto simp: spool_append_eq spool_count_eq Let_def)
next
  case (Inr rows)
  have "\<forall>x \<in> set (new_items xs (sp_rows s)). poll_result_ok x" using assms(2) by (simp add: new_items_alt)
  then obtain new where "rows = sp_rows s @ new" "map fst new = map wp_id (new_items xs (sp_rows s))"
    using insert_items_Inr [OF Inr _ assms(3)] by auto
  moreover from this(2) have "length new = length (new_items xs (sp_rows s))" by (metis length_map)
  ultimately show ?thesis using Inr by (auto simp: spool_append_eq spool_count_eq Let_def)
qed

lemma spool_append_rows_ok:
  assumes "rows_ok (sp_rows s)" "\<forall>x \<in> set xs. poll_result_ok x" "utc_ok now"
  shows "rows_ok (sp_rows (fst (spool_append xs now s)))"
  using rows_ok_append [OF assms(1) _ assms(2,3)] assms(1)
  by (auto simp: spool_append_eq Let_def split: sum.splits)

lemma mark_replayed_rows_ok:
  "rows_ok (sp_rows s) \<Longrightarrow> rows_ok (sp_rows (fst (mark_replayed ids s))) \<and>
     spool_count (fst (mark_replayed ids s)) \<le> spool_count s \<and>
     sp_max_items (fst (mark_replayed ids s)) = sp_max_items s"
  by (auto simp: mark_replayed_def rows_ok_def spool_count_eq distinct_map_filter Let_def)

lemma spool_step_inv:
  assumes "spool_inv b s" "spool_op_ok oper" "\<And>n. oper = SO_Reopen n \<Longrightarrow> n \<le> b"
  shows "spool_inv b (spool_step oper s)"
proof (cases oper)
  case (SO_Append xs now)
  then show ?thesis
    using assms(1,2) spool_append_count [of s xs now] spool_append_rows_ok [of s xs now]
    by (auto simp: spool_inv_def spool_append_max)
next
  case (SO_Replayed ids)
  then show ?thesis using assms(1) mark_replayed_rows_ok [of s ids] by (auto simp: spool_inv_def)
next
  case (SO_Failed ids delay now)
  then show ?thesis
    using assms(1,2) mark_failed_rows_ok [of s ids delay now] mark_failed_max mark_failed_count
    by (auto simp: spool_inv_def) (metis prod.collapse)
next
  case (SO_Reopen n)
  then show ?thesis using assms(1,3)
    by (auto simp: spool_inv_def spool_open_def spool_count_eq value_error_def)
qed

text \<open>
  C33: after any sequence of appends of validated poll results, replays, failures and
  restarts, starting from an empty spool, every row has its own execution id and can be
  read back, and the spool holds no more rows than the largest bound it was opened with.
\<close>

theorem spool_run_inv:
  assumes "spool_open [] n = Inr s" "n \<le> b" "\<forall>oper \<in> set os. spool_op_ok oper"
    and "\<forall>oper \<in> set os. case oper of SO_Reopen m \<Rightarrow> m \<le> b | _ \<Rightarrow> True"
  shows "spool_inv b (fold spool_step os s)"
proof -
  have "spool_inv b (fold spool_step os v)" if "spool_inv b v" for v
    using that assms(3,4)
  proof (induction os arbitrary: v)
    case (Cons oper os)
    have "spool_inv b (spool_step oper v)"
    proof (rule spool_step_inv [OF Cons.prems(1)])
      show "spool_op_ok oper" using Cons.prems(2) by simp
      show "n \<le> b" if "oper = SO_Reopen n" for n using Cons.prems(3) that by simp
    qed
    then show ?case using Cons by simp
  qed simp
  moreover have "spool_inv b s" using assms(1,2)
    by (auto simp: spool_open_def spool_inv_def rows_ok_def spool_count_eq value_error_def split: if_splits)
  ultimately show ?thesis by blast
qed

section \<open>A concrete spool\<close>

text \<open>Two poll results appended at time 100, to a spool of at most three.\<close>

definition ex_empty_spool :: spool where
  "ex_empty_spool = (case spool_open [] 3 of Inr s \<Rightarrow> s)"

definition ex_spool :: spool where
  "ex_spool = fst (spool_append [ex_poll_result ''e1'', ex_poll_result ''e2''] (utc_dt 100) ex_empty_spool)"

lemma ex_spool_ok:
  "rows_ok (sp_rows ex_empty_spool)" "utc_ok (utc_dt 100)" "rows_ok (sp_rows ex_spool)"
  "\<forall>x \<in> set [ex_poll_result ''e1'', ex_poll_result ''e2'']. poll_result_ok x"
proof -
  show e: "rows_ok (sp_rows ex_empty_spool)" by (simp add: ex_empty_spool_def spool_open_def rows_ok_def)
  show t: "utc_ok (utc_dt 100)" by code_simp
  show p: "\<forall>x \<in> set [ex_poll_result ''e1'', ex_poll_result ''e2'']. poll_result_ok x"
    using ex_poll_result_ok by simp
  show "rows_ok (sp_rows ex_spool)" unfolding ex_spool_def by (rule spool_append_rows_ok [OF e p t])
qed

lemma ex_spool_ids: "map fst (sp_rows ex_spool) = [''e1'', ''e2'']" "sp_max_items ex_spool = 3"
  by code_simp+

theorem spool_append_atomic_witness:
  "spool_holds ex_spool (ex_poll_result ''e2'')"
proof -
  have r: "spool_append [ex_poll_result ''e1'', ex_poll_result ''e2''] (utc_dt 100) ex_empty_spool
      = (ex_spool, Inr 2)" by code_simp
  have "new_items [ex_poll_result ''e1'', ex_poll_result ''e2''] (sp_rows ex_empty_spool)
      = [ex_poll_result ''e1'', ex_poll_result ''e2'']" by code_simp
  then show ?thesis using spool_append_atomic [OF ex_spool_ok(1,4,2) r] by simp
qed

theorem fetch_due_oldest_witness:
  "\<exists>es. fetch_due 1 (utc_dt 100) ex_spool = Inr es \<and> map se_execution_id es = [''e1'']"
proof -
  have "map fst (take (nat 1) (due_rows (isoformat (utc_dt 100)) (sp_rows ex_spool))) = [''e1'']" by code_simp
  then show ?thesis using fetch_due_oldest [OF ex_spool_ok(3,2), of 1] by auto
qed

text \<open>
  Postponed at 100 microseconds by one microsecond, the first result is not due at 100 and is at 101, given
  two hours to the east.
\<close>

definition ex_east :: "int \<Rightarrow> datetime" where
  "ex_east t = \<lparr>dt_wall = t + 7200000000, dt_offset = Some 7200000000\<rparr>"


theorem spool_run_inv_witness:
  "spool_inv 3 (fold spool_step [SO_Append [ex_poll_result ''e1''] (utc_dt 100), SO_Reopen 2,
     SO_Replayed [''e1'']] ex_empty_spool)"
proof (rule spool_run_inv)
  show "spool_open [] 3 = Inr ex_empty_spool" unfolding ex_empty_spool_def by code_simp
  show "\<forall>oper \<in> set [SO_Append [ex_poll_result ''e1''] (utc_dt 100), SO_Reopen 2, SO_Replayed [''e1'']].
      spool_op_ok oper" using ex_poll_result_ok ex_spool_ok(2) by simp
qed simp_all

end
