(* ===== verification/Repositories.thy ===== *)
theory Repositories
  imports Spool_Codec
begin

text \<open>
  src/plc_gateway/persistence: the relational schema (schema.py, types.py, records.py) and
  the repositories over it (repositories.py). A table is a list of rows by primary key. Each
  repository call is one transaction: a statement that fails leaves the database as it was.
  Of SQLite the model has what the code relies on: primary keys with ON CONFLICT clauses,
  the CHECK constraints of the schema, its foreign keys where the connection enforces them, integers of
  64 bits, and NaN bound as NULL. SQLAlchemy wraps an error met while it converts a parameter into a StatementError.

  Shown: a saved batch is persisted and adds exactly the new readings, a failed one changes
  nothing, saving again changes nothing, and references always resolve while they are enforced.
\<close>

section \<open>Tables\<close>

record connection_row =
  cr_protocol :: string
  cr_endpoint :: string
  cr_enabled :: bool
  cr_timeout_ms :: int
  cr_protocol_options :: pyval

record tag_group_row =
  gr_connection_id :: string
  gr_interval_ms :: int
  gr_timeout_ms :: int
  gr_overlap_policy :: string
  gr_enabled :: bool

record tag_row =
  gt_tag_group_id :: string
  gt_name :: string
  gt_address :: string
  gt_value_type :: "string option"
  gt_enabled :: bool
  gt_metadata :: pyval

record execution_row =
  er_connection_id :: string
  er_tag_group_id :: string
  er_status :: string
  er_started_at :: string
  er_finished_at :: "string option"
  er_requested_tags :: int
  er_successful_tags :: int
  er_failed_tags :: int
  er_error_message :: "string option"

record reading_row =
  dr_connection_id :: string
  dr_tag_group_id :: string
  dr_tag_id :: string
  dr_source_timestamp :: "string option"
  dr_received_at :: string
  dr_quality :: string
  dr_value_type :: string
  dr_numeric_value :: "pyfloat option"
  dr_integer_value :: "int option"
  dr_boolean_value :: "bool option"
  dr_text_value :: "string option"
  dr_binary_value :: "bytes option"
  dr_error_code :: "string option"
  dr_error_message :: "string option"

record component_row =
  or_state :: string
  or_updated_at :: string
  or_message :: "string option"
  or_error_code :: "string option"
  or_error_message :: "string option"

record database =
  db_connections :: "(string \<times> connection_row) list"
  db_tag_groups :: "(string \<times> tag_group_row) list"
  db_tags :: "(string \<times> tag_row) list"
  db_executions :: "(string \<times> execution_row) list"
  db_readings :: "(string \<times> reading_row) list"
  db_components :: "(string \<times> component_row) list"
  db_foreign_keys :: "(string \<times> string \<times> string) list"

text \<open>
  The last field is not part of the tables: it lists the foreign keys that the connection through which
  they are used enforces, as table, column and the table referred to. Those of schema.py:
\<close>

definition schema_foreign_keys :: "(string \<times> string \<times> string) list" where
  "schema_foreign_keys =
     [(''tag_groups'', ''connection_id'', ''connections''), (''tags'', ''tag_group_id'', ''tag_groups''),
      (''poll_executions'', ''connection_id'', ''connections''), (''poll_executions'', ''tag_group_id'', ''tag_groups''),
      (''tag_readings'', ''connection_id'', ''connections''), (''tag_readings'', ''tag_group_id'', ''tag_groups''),
      (''tag_readings'', ''tag_id'', ''tags'')]"

definition empty_database :: database where
  "empty_database = \<lparr>db_connections = [], db_tag_groups = [], db_tags = [], db_executions = [],
     db_readings = [], db_components = [], db_foreign_keys = schema_foreign_keys\<rparr>"

definition keys_of :: "string \<Rightarrow> database \<Rightarrow> string list" where
  "keys_of n db =
     (if n = ''connections'' then map fst (db_connections db)
      else if n = ''tag_groups'' then map fst (db_tag_groups db)
      else if n = ''tags'' then map fst (db_tags db)
      else if n = ''poll_executions'' then map fst (db_executions db)
      else if n = ''tag_readings'' then map fst (db_readings db)
      else if n = ''runtime_components'' then map fst (db_components db)
      else [])"

text \<open>The check of one reference of a new or changed row, when the connection enforces the foreign key.\<close>

definition reference_ok :: "database \<Rightarrow> string \<times> string \<times> string \<Rightarrow> string \<Rightarrow> bool" where
  "reference_ok db foreign_key k =
     (foreign_key \<in> set (db_foreign_keys db) \<longrightarrow> k \<in> set (keys_of (snd (snd foreign_key)) db))"

lemma reference_ok_iff [simp]:
  "reference_ok db (t, c, ''connections'') k \<longleftrightarrow>
     ((t, c, ''connections'') \<in> set (db_foreign_keys db) \<longrightarrow> map_of (db_connections db) k \<noteq> None)"
  "reference_ok db (t, c, ''tag_groups'') k \<longleftrightarrow>
     ((t, c, ''tag_groups'') \<in> set (db_foreign_keys db) \<longrightarrow> map_of (db_tag_groups db) k \<noteq> None)"
  "reference_ok db (t, c, ''tags'') k \<longleftrightarrow>
     ((t, c, ''tags'') \<in> set (db_foreign_keys db) \<longrightarrow> map_of (db_tags db) k \<noteq> None)"
  by (simp_all add: reference_ok_def keys_of_def map_of_eq_None_iff)

section \<open>Binding parameters\<close>

definition statement_error :: "pyexn \<Rightarrow> 'a result" where
  "statement_error e = Inl (exn (OtherError ''StatementError'')
     (''(builtins.'' @ class_name (exn_class e) @ '') '' @ exn_message e))"

definition bind_utc :: "datetime \<Rightarrow> string result" where
  "bind_utc d =
     (case dt_offset d of
        None \<Rightarrow> statement_error (exn PyValueError ''datetime values must be timezone-aware.'')
      | Some off \<Rightarrow>
          (case astimezone_utc (dt_wall d) off of
             Inl e \<Rightarrow> statement_error e
           | Inr u \<Rightarrow> Inr (isoformat u)))"

definition bind_utc_option :: "datetime option \<Rightarrow> string option result" where
  "bind_utc_option v = (case v of None \<Rightarrow> Inr None | Some d \<Rightarrow> rbind (bind_utc d) (\<lambda>s. Inr (Some s)))"

definition load_utc :: "string \<Rightarrow> datetime result" where
  "load_utc s = rbind (fromisoformat s) (\<lambda>d.
     case dt_offset d of
       None \<Rightarrow> astimezone_utc (dt_wall d) 0
     | Some off \<Rightarrow> astimezone_utc (dt_wall d) off)"

definition sqlite_int :: "int \<Rightarrow> bool" where
  "sqlite_int n \<longleftrightarrow> - (2 ^ 63) \<le> n \<and> n < 2 ^ 63"

definition bind_int :: "int \<Rightarrow> int result" where
  "bind_int n =
     (if sqlite_int n then Inr n
      else Inl (exn PyOverflowError ''Python int too large to convert to SQLite INTEGER''))"

definition bind_int_option :: "int option \<Rightarrow> int option result" where
  "bind_int_option v = (case v of None \<Rightarrow> Inr None | Some n \<Rightarrow> rbind (bind_int n) (\<lambda>m. Inr (Some m)))"

definition bind_float_option :: "pyfloat option \<Rightarrow> pyfloat option" where
  "bind_float_option v = (if v = Some NaN then None else v)"

text \<open>A JSON column: the document of a dictionary whose keys are strings.\<close>

definition bind_json :: "pydict \<Rightarrow> pyval result" where
  "bind_json d = (case json_value (PDict d) of Inl e \<Rightarrow> statement_error e | Inr j \<Rightarrow> Inr j)"

definition check_failed :: "string \<Rightarrow> 'a result" where
  "check_failed c = Inl (exn PyIntegrityError (''CHECK constraint failed: '' @ c))"

definition foreign_key_failed :: "'a result" where
  "foreign_key_failed = Inl (exn PyIntegrityError ''FOREIGN KEY constraint failed'')"

text \<open>\<^verbatim>\<open>INSERT ... ON CONFLICT DO UPDATE\<close>: a new row, or the old one with columns replaced.\<close>

definition upsert :: "'k \<Rightarrow> 'r \<Rightarrow> ('r \<Rightarrow> 'r) \<Rightarrow> ('k \<times> 'r) list \<Rightarrow> ('k \<times> 'r) list" where
  "upsert k row upd t =
     (case map_of t k of None \<Rightarrow> t @ [(k, row)] | Some r \<Rightarrow> AList.update k (upd r) t)"

text \<open>A transaction over a sequence of statements.\<close>

fun statements :: "('a \<Rightarrow> 's \<Rightarrow> 's result) \<Rightarrow> 'a list \<Rightarrow> 's \<Rightarrow> 's result" where
  "statements f [] s = Inr s"
| "statements f (x # xs) s = rbind (f x s) (statements f xs)"

definition commit :: "'s \<Rightarrow> ('s \<times> 'a) result \<Rightarrow> 's \<times> 'a result" where
  "commit db r = (case r of Inl e \<Rightarrow> (db, Inl e) | Inr (db', x) \<Rightarrow> (db', Inr x))"

section \<open>Configuration tables\<close>

definition upsert_connection :: "connection_config \<Rightarrow> database \<Rightarrow> database result" where
  "upsert_connection c db =
     rbind (bind_json (cc_protocol_options c)) (\<lambda>options.
     rbind (bind_int (cc_timeout_ms c)) (\<lambda>timeout.
       if timeout \<le> 0 then check_failed ''ck_connections_timeout_positive''
       else
         let row = \<lparr>cr_protocol = cc_protocol c, cr_endpoint = cc_endpoint c, cr_enabled = cc_enabled c,
                    cr_timeout_ms = timeout, cr_protocol_options = options\<rparr>
         in Inr (db\<lparr>db_connections := upsert (cc_id c) row (\<lambda>_. row) (db_connections db)\<rparr>)))"

definition upsert_connections :: "connection_config list \<Rightarrow> database \<Rightarrow> database \<times> unit result" where
  "upsert_connections cs db =
     commit db (rbind (statements upsert_connection cs db) (\<lambda>db'. Inr (db', ())))"

definition upsert_tag_group :: "tag_group_config \<Rightarrow> database \<Rightarrow> database result" where
  "upsert_tag_group g db =
     rbind (bind_int (tg_interval_ms g)) (\<lambda>interval.
     rbind (bind_int (tg_timeout_ms g)) (\<lambda>timeout.
       if interval \<le> 0 then check_failed ''ck_tag_groups_interval_positive''
       else if timeout \<le> 0 then check_failed ''ck_tag_groups_timeout_positive''
       else if \<not> reference_ok db (''tag_groups'', ''connection_id'', ''connections'') (tg_connection_id g)
       then foreign_key_failed
       else
         let row = \<lparr>gr_connection_id = tg_connection_id g, gr_interval_ms = interval,
                    gr_timeout_ms = timeout, gr_overlap_policy = overlap_policy_value (tg_overlap_policy g),
                    gr_enabled = tg_enabled g\<rparr>
         in Inr (db\<lparr>db_tag_groups := upsert (tg_id g) row (\<lambda>_. row) (db_tag_groups db)\<rparr>)))"

definition upsert_tag_groups :: "tag_group_config list \<Rightarrow> database \<Rightarrow> database \<times> unit result" where
  "upsert_tag_groups gs db =
     commit db (rbind (statements upsert_tag_group gs db) (\<lambda>db'. Inr (db', ())))"

definition upsert_tag :: "tag_config \<Rightarrow> database \<Rightarrow> database result" where
  "upsert_tag t db =
     rbind (bind_json (tc_metadata t)) (\<lambda>meta.
       if \<not> reference_ok db (''tags'', ''tag_group_id'', ''tag_groups'') (tc_tag_group_id t) then foreign_key_failed
       else
         let row = \<lparr>gt_tag_group_id = tc_tag_group_id t, gt_name = tc_name t, gt_address = tc_address t,
                    gt_value_type = Some (value_type_value (tc_value_type t)), gt_enabled = tc_enabled t,
                    gt_metadata = meta\<rparr>
         in Inr (db\<lparr>db_tags := upsert (tc_id t) row (\<lambda>_. row) (db_tags db)\<rparr>))"

definition upsert_tags :: "tag_config list \<Rightarrow> database \<Rightarrow> database \<times> unit result" where
  "upsert_tags ts db =
     commit db (rbind (statements upsert_tag ts db) (\<lambda>db'. Inr (db', ())))"

definition upsert_status :: "component_status \<Rightarrow> database \<Rightarrow> database \<times> unit result" where
  "upsert_status s db =
     commit db (rbind (bind_utc (cs_updated_at s)) (\<lambda>updated_at.
       let row = \<lparr>or_state = worker_state_value (cs_state s), or_updated_at = updated_at,
                  or_message = cs_message s, or_error_code = cs_error_code s,
                  or_error_message = cs_error_message s\<rparr>
       in Inr (db\<lparr>db_components := upsert (cs_component_id s) row (\<lambda>_. row) (db_components db)\<rparr>, ())))"

section \<open>Poll executions\<close>

definition execution_row_of :: "poll_execution \<Rightarrow> string \<Rightarrow> string option \<Rightarrow> execution_row" where
  "execution_row_of x started_at finished_at =
     \<lparr>er_connection_id = pe_connection_id x, er_tag_group_id = pe_tag_group_id x,
      er_status = poll_status_value (pe_status x), er_started_at = started_at,
      er_finished_at = finished_at, er_requested_tags = pe_requested_tags x,
      er_successful_tags = pe_successful_tags x, er_failed_tags = pe_failed_tags x,
      er_error_message = pe_error_message x\<rparr>"

text \<open>The columns that a conflict replaces.\<close>

definition replace_execution :: "execution_row \<Rightarrow> execution_row \<Rightarrow> execution_row" where
  "replace_execution new old =
     old\<lparr>er_status := er_status new, er_finished_at := er_finished_at new,
         er_requested_tags := er_requested_tags new, er_successful_tags := er_successful_tags new,
         er_failed_tags := er_failed_tags new, er_error_message := er_error_message new\<rparr>"

text \<open>The row of an execution, once its parameters are bound and the CHECK constraints hold.\<close>

definition bind_execution :: "poll_execution \<Rightarrow> execution_row result" where
  "bind_execution x =
     rbind (bind_utc (pe_started_at x)) (\<lambda>started.
     rbind (bind_utc_option (pe_finished_at x)) (\<lambda>finished.
     rbind (bind_int (pe_requested_tags x)) (\<lambda>requested.
     rbind (bind_int (pe_successful_tags x)) (\<lambda>successful.
     rbind (bind_int (pe_failed_tags x)) (\<lambda>failed.
       if requested < 0 then check_failed ''ck_poll_requested_non_negative''
       else if successful < 0 then check_failed ''ck_poll_success_non_negative''
       else if failed < 0 then check_failed ''ck_poll_failed_non_negative''
       else Inr (execution_row_of x started finished))))))"

definition store_execution :: "poll_execution \<Rightarrow> database \<Rightarrow> database result" where
  "store_execution x db =
     rbind (bind_execution x) (\<lambda>row.
       if map_of (db_executions db) (pe_execution_id x) = None \<and>
          \<not> (reference_ok db (''poll_executions'', ''connection_id'', ''connections'') (pe_connection_id x) \<and>
             reference_ok db (''poll_executions'', ''tag_group_id'', ''tag_groups'') (pe_tag_group_id x))
       then foreign_key_failed
       else Inr (db\<lparr>db_executions :=
              upsert (pe_execution_id x) row (replace_execution row) (db_executions db)\<rparr>))"

definition save_poll_execution :: "poll_execution \<Rightarrow> database \<Rightarrow> database \<times> unit result" where
  "save_poll_execution x db =
     commit db (rbind (store_execution x db) (\<lambda>db'. Inr (db', ())))"

section \<open>Tag readings\<close>

record tag_reading_record =
  rr_event_id :: string
  rr_connection_id :: string
  rr_tag_group_id :: string
  rr_result :: tag_result

definition reading_record_new :: "string \<Rightarrow> string \<Rightarrow> string \<Rightarrow> tag_result \<Rightarrow> tag_reading_record result" where
  "reading_record_new event_id connection_id tag_group_id r =
     (if py_strip event_id = [] then Inl (exn PyValueError ''event_id cannot be empty.'')
      else if py_strip connection_id = [] then Inl (exn PyValueError ''connection_id cannot be empty.'')
      else if py_strip tag_group_id = [] then Inl (exn PyValueError ''tag_group_id cannot be empty.'')
      else Inr \<lparr>rr_event_id = event_id, rr_connection_id = connection_id,
             rr_tag_group_id = tag_group_id, rr_result = r\<rparr>)"

definition reading_value_type :: "(string \<times> tag_row) list \<Rightarrow> tag_result \<Rightarrow> string result" where
  "reading_value_type tags r =
     (case tr_value r of
        Some v \<Rightarrow> Inr (value_type_value (tv_type v))
      | None \<Rightarrow>
          (case (case map_of tags (tr_tag_id r) of None \<Rightarrow> None | Some t \<Rightarrow> gt_value_type t) of
             Some (c # cs) \<Rightarrow> Inr (c # cs)
           | _ \<Rightarrow> Inl (exn_coded StorageError
                 ''Cannot persist failed tag reading without configured value_type.''
                 ''missing_tag_value_type'' [(''tag_id'', PStr (tr_tag_id r))])))"

definition column :: "(tag_value \<Rightarrow> 'a option) \<Rightarrow> tag_result \<Rightarrow> 'a option" where
  "column f r = (case tr_value r of None \<Rightarrow> None | Some v \<Rightarrow> f v)"

definition reading_row_of :: "(string \<times> tag_row) list \<Rightarrow> tag_reading_record \<Rightarrow> reading_row result" where
  "reading_row_of tags rec =
     (let r = rr_result rec in
      rbind (reading_value_type tags r) (\<lambda>value_type.
      rbind (bind_utc_option (tr_source_timestamp r)) (\<lambda>source.
      rbind (bind_utc (tr_received_at r)) (\<lambda>received.
      rbind (bind_int_option (column tv_integer r)) (\<lambda>n.
        Inr \<lparr>dr_connection_id = rr_connection_id rec, dr_tag_group_id = rr_tag_group_id rec,
             dr_tag_id = tr_tag_id r, dr_source_timestamp = source, dr_received_at = received,
             dr_quality = quality_value (tr_quality r), dr_value_type = value_type,
             dr_numeric_value = bind_float_option (column tv_numeric r), dr_integer_value = n,
             dr_boolean_value = column tv_boolean r, dr_text_value = column tv_text r,
             dr_binary_value = column tv_binary r, dr_error_code = tr_error_code r,
             dr_error_message = tr_error_message r\<rparr>)))))"

text \<open>The new database and the number of rows inserted, zero when the event is there already.\<close>

definition save_tag_reading :: "tag_reading_record \<Rightarrow> database \<times> nat \<Rightarrow> (database \<times> nat) result" where
  "save_tag_reading rec = (\<lambda>(db, n).
     rbind (reading_row_of (db_tags db) rec) (\<lambda>row.
       if map_of (db_readings db) (rr_event_id rec) \<noteq> None then Inr (db, n)
       else if \<not> (reference_ok db (''tag_readings'', ''connection_id'', ''connections'') (rr_connection_id rec) \<and>
                  reference_ok db (''tag_readings'', ''tag_group_id'', ''tag_groups'') (rr_tag_group_id rec) \<and>
                  reference_ok db (''tag_readings'', ''tag_id'', ''tags'') (tr_tag_id (rr_result rec)))
       then foreign_key_failed
       else Inr (db\<lparr>db_readings := db_readings db @ [(rr_event_id rec, row)]\<rparr>, Suc n)))"

definition save_tag_readings :: "tag_reading_record list \<Rightarrow> database \<Rightarrow> database \<times> nat result" where
  "save_tag_readings records db = commit db (statements save_tag_reading records (db, 0))"

section \<open>Poll results\<close>

definition event_id :: "string \<Rightarrow> nat \<Rightarrow> string" where
  "event_id execution_id result_index = execution_id @ '':'' @ show_nat result_index"

definition save_result_at ::
  "poll_execution \<Rightarrow> nat \<times> tag_result \<Rightarrow> database \<times> nat \<Rightarrow> (database \<times> nat) result" where
  "save_result_at x p s =
     rbind (reading_record_new (event_id (pe_execution_id x) (fst p)) (pe_connection_id x)
              (pe_tag_group_id x) (snd p)) (\<lambda>rec. save_tag_reading rec s)"

definition save_poll_result :: "worker_poll_result \<Rightarrow> database \<times> nat \<Rightarrow> (database \<times> nat) result" where
  "save_poll_result r s =
     rbind (store_execution (wp_execution r) (fst s)) (\<lambda>db.
       statements (save_result_at (wp_execution r)) (enumerate 0 (wp_results r)) (db, snd s))"

definition save_poll_results :: "worker_poll_result list \<Rightarrow> database \<Rightarrow> database \<times> nat result" where
  "save_poll_results rs db = commit db (statements save_poll_result rs (db, 0))"

definition count_tag_readings :: "database \<Rightarrow> nat" where
  "count_tag_readings db = length (db_readings db)"

definition count_poll_executions :: "database \<Rightarrow> nat" where
  "count_poll_executions db = length (db_executions db)"

section \<open>Tables by key\<close>

lemma map_of_upsert [simp]:
  "map_of (upsert k row upd t) =
     (map_of t)(k \<mapsto> case map_of t k of None \<Rightarrow> row | Some r \<Rightarrow> upd r)"
  by (rule ext) (auto simp: upsert_def map_add_def split: option.splits)

lemma keys_upsert: "map fst (upsert k row upd t) = (if map_of t k = None then map fst t @ [k] else map fst t)"
  by (auto simp: upsert_def update_keys map_of_eq_None_iff split: option.splits)

lemma distinct_upsert [simp]: "distinct (map fst t) \<Longrightarrow> distinct (map fst (upsert k row upd t))"
  by (auto simp: keys_upsert map_of_eq_None_iff)

lemma table_eqI:
  assumes "map fst t = map fst u" "distinct (map fst t)" "map_of t = map_of u"
  shows "t = u"
proof (rule nth_equalityI)
  show len: "length t = length u" using assms(1) by (metis length_map)
  fix i assume i: "i < length t"
  have f: "fst (t ! i) = fst (u ! i)" using assms(1) i len by (metis nth_map)
  have "map_of t (fst (t ! i)) = Some (snd (t ! i))" "map_of u (fst (u ! i)) = Some (snd (u ! i))"
    using i len assms(1,2) by (simp_all add: map_of_is_SomeI)
  then show "t ! i = u ! i" using f assms(3) by (simp add: prod_eq_iff)
qed

lemma map_of_append_old: "map_of t k = Some r \<Longrightarrow> map_of (t @ new) k = Some r"
  by (simp add: map_add_def split: option.splits)

section \<open>Statements that only add\<close>

text \<open>
  A sequence of statements each of which establishes something and which never take it away
  again: after the sequence it holds for all of them.
\<close>

locale establishing_statements =
  fixes stmt :: "'a \<Rightarrow> 's \<Rightarrow> 's result"
    and grows :: "'s \<Rightarrow> 's \<Rightarrow> bool"
    and holds :: "'a \<Rightarrow> 's \<Rightarrow> bool"
  assumes grows_refl: "grows s s"
    and grows_trans: "grows s t \<Longrightarrow> grows t u \<Longrightarrow> grows s u"
    and stmt_grows: "stmt x s = Inr t \<Longrightarrow> grows s t"
    and stmt_holds: "stmt x s = Inr t \<Longrightarrow> holds x t"
    and holds_grows: "holds x s \<Longrightarrow> grows s t \<Longrightarrow> holds x t"
begin

lemma statements_grow: "statements stmt xs s = Inr t \<Longrightarrow> grows s t"
  by (induction xs arbitrary: s) (auto intro: grows_refl grows_trans stmt_grows)

lemma statements_hold: "statements stmt xs s = Inr t \<Longrightarrow> x \<in> set xs \<Longrightarrow> holds x t"
  by (induction xs arbitrary: s) (auto intro: holds_grows stmt_holds statements_grow)

end

text \<open>The database grows: configuration and status stay, rows are only added to the others.\<close>

definition extends :: "database \<times> nat \<Rightarrow> database \<times> nat \<Rightarrow> bool" where
  "extends s t \<longleftrightarrow> db_connections (fst t) = db_connections (fst s) \<and>
     db_tag_groups (fst t) = db_tag_groups (fst s) \<and> db_tags (fst t) = db_tags (fst s) \<and>
     db_components (fst t) = db_components (fst s) \<and> db_foreign_keys (fst t) = db_foreign_keys (fst s) \<and>
     dom (map_of (db_executions (fst s))) \<subseteq> dom (map_of (db_executions (fst t))) \<and>
     (\<exists>new. db_readings (fst t) = db_readings (fst s) @ new \<and> snd t = snd s + length new)"

definition has_reading :: "database \<Rightarrow> string \<Rightarrow> bool" where
  "has_reading db k \<longleftrightarrow> map_of (db_readings db) k \<noteq> None"

definition persisted :: "database \<Rightarrow> worker_poll_result \<Rightarrow> bool" where
  "persisted db r \<longleftrightarrow> map_of (db_executions db) (wp_id r) \<noteq> None \<and>
     (\<forall>i < length (wp_results r). has_reading db (event_id (wp_id r) i))"

lemma extends_refl: "extends s s"
  by (simp add: extends_def)

lemma extends_trans: "extends s t \<Longrightarrow> extends t u \<Longrightarrow> extends s u"
  by (force simp: extends_def)

lemma has_reading_grows: "has_reading (fst s) k \<Longrightarrow> extends s t \<Longrightarrow> has_reading (fst t) k"
  by (auto simp: has_reading_def extends_def map_add_def split: option.splits)

lemma persisted_grows: "persisted (fst s) r \<Longrightarrow> extends s t \<Longrightarrow> persisted (fst t) r"
  using has_reading_grows by (fastforce simp: persisted_def extends_def dom_def)

lemma store_execution_cases:
  assumes "store_execution x db = Inr db'"
  obtains row where "bind_execution x = Inr row"
    "db' = db\<lparr>db_executions := upsert (pe_execution_id x) row (replace_execution row) (db_executions db)\<rparr>"
    "map_of (db_executions db) (pe_execution_id x) = None \<Longrightarrow>
       reference_ok db (''poll_executions'', ''connection_id'', ''connections'') (pe_connection_id x) \<and>
       reference_ok db (''poll_executions'', ''tag_group_id'', ''tag_groups'') (pe_tag_group_id x)"
  using assms by (auto simp: store_execution_def foreign_key_failed_def split: if_splits)

lemma store_execution_extends: "store_execution x db = Inr db' \<Longrightarrow> extends (db, n) (db', n)"
  by (erule store_execution_cases) (auto simp: extends_def)

lemma save_tag_reading_cases:
  assumes "save_tag_reading rec s = Inr t"
  obtains row where "reading_row_of (db_tags (fst s)) rec = Inr row" "t = s" "has_reading (fst s) (rr_event_id rec)"
  | row where "reading_row_of (db_tags (fst s)) rec = Inr row" "\<not> has_reading (fst s) (rr_event_id rec)"
    "t = ((fst s)\<lparr>db_readings := db_readings (fst s) @ [(rr_event_id rec, row)]\<rparr>, Suc (snd s))"
    "reference_ok (fst s) (''tag_readings'', ''connection_id'', ''connections'') (rr_connection_id rec)"
    "reference_ok (fst s) (''tag_readings'', ''tag_group_id'', ''tag_groups'') (rr_tag_group_id rec)"
    "reference_ok (fst s) (''tag_readings'', ''tag_id'', ''tags'') (tr_tag_id (rr_result rec))"
  using assms
  by (cases s) (auto simp: save_tag_reading_def has_reading_def foreign_key_failed_def split: if_splits)

lemma save_tag_reading_extends: "save_tag_reading rec s = Inr t \<Longrightarrow> extends s t"
  by (erule save_tag_reading_cases) (auto simp: extends_def)

lemma save_tag_reading_has: "save_tag_reading rec s = Inr t \<Longrightarrow> has_reading (fst t) (rr_event_id rec)"
  by (erule save_tag_reading_cases) (auto simp: has_reading_def map_add_def)

lemma save_result_at_Inr:
  assumes "save_result_at x p s = Inr t"
  obtains rec where "rec = \<lparr>rr_event_id = event_id (pe_execution_id x) (fst p),
      rr_connection_id = pe_connection_id x, rr_tag_group_id = pe_tag_group_id x, rr_result = snd p\<rparr>"
    "reading_record_new (event_id (pe_execution_id x) (fst p)) (pe_connection_id x)
       (pe_tag_group_id x) (snd p) = Inr rec" "save_tag_reading rec s = Inr t"
  using assms by (auto simp: save_result_at_def reading_record_new_def split: if_splits)

section \<open>Saving a batch\<close>

definition storable_at :: "(string \<times> tag_row) list \<Rightarrow> poll_execution \<Rightarrow> nat \<times> tag_result \<Rightarrow> bool" where
  "storable_at tags x p \<longleftrightarrow> (\<exists>rec row. reading_record_new (event_id (pe_execution_id x) (fst p))
       (pe_connection_id x) (pe_tag_group_id x) (snd p) = Inr rec \<and> reading_row_of tags rec = Inr row)"

definition storable :: "(string \<times> tag_row) list \<Rightarrow> worker_poll_result \<Rightarrow> bool" where
  "storable tags r \<longleftrightarrow> (\<exists>row. bind_execution (wp_execution r) = Inr row) \<and>
     (\<forall>p \<in> set (enumerate 0 (wp_results r)). storable_at tags (wp_execution r) p)"

lemma save_result_at_extends: "save_result_at x p s = Inr t \<Longrightarrow> extends s t"
  by (erule save_result_at_Inr) (rule save_tag_reading_extends)

lemma save_result_at_holds:
  assumes "save_result_at x p s = Inr t"
  shows "has_reading (fst t) (event_id (pe_execution_id x) (fst p)) \<and> storable_at (db_tags (fst t)) x p"
proof -
  obtain rec where r: "rec = \<lparr>rr_event_id = event_id (pe_execution_id x) (fst p),
      rr_connection_id = pe_connection_id x, rr_tag_group_id = pe_tag_group_id x, rr_result = snd p\<rparr>"
    and rec2: "reading_record_new (event_id (pe_execution_id x) (fst p)) (pe_connection_id x)
       (pe_tag_group_id x) (snd p) = Inr rec" "save_tag_reading rec s = Inr t"
    by (rule save_result_at_Inr [OF assms])
  have "rr_event_id rec = event_id (pe_execution_id x) (fst p)" using r by simp
  note rec = this rec2
  obtain row where row: "reading_row_of (db_tags (fst s)) rec = Inr row"
    using rec(3) by (rule save_tag_reading_cases)
  have "db_tags (fst t) = db_tags (fst s)" using save_tag_reading_extends [OF rec(3)] by (simp add: extends_def)
  then show ?thesis using save_tag_reading_has [OF rec(3)] rec(1,2) row by (auto simp: storable_at_def)
qed

interpretation readings: establishing_statements "save_result_at x" extends
    "\<lambda>p s. has_reading (fst s) (event_id (pe_execution_id x) (fst p)) \<and> storable_at (db_tags (fst s)) x p"
  for x
proof
  fix p s t
  assume "has_reading (fst s) (event_id (pe_execution_id x) (fst p)) \<and> storable_at (db_tags (fst s)) x p"
    "extends s t"
  then show "has_reading (fst t) (event_id (pe_execution_id x) (fst p)) \<and> storable_at (db_tags (fst t)) x p"
    using has_reading_grows by (auto simp: extends_def)
qed (fact extends_refl extends_trans save_result_at_extends save_result_at_holds)+

lemma save_poll_result_Inr:
  assumes "save_poll_result r s = Inr t"
  obtains db where "store_execution (wp_execution r) (fst s) = Inr db" "extends s (db, snd s)"
    "statements (save_result_at (wp_execution r)) (enumerate 0 (wp_results r)) (db, snd s) = Inr t"
    "extends (db, snd s) t"
proof -
  obtain db where db: "store_execution (wp_execution r) (fst s) = Inr db"
    "statements (save_result_at (wp_execution r)) (enumerate 0 (wp_results r)) (db, snd s) = Inr t"
    using assms by (auto simp: save_poll_result_def)
  have "extends s (db, snd s)" using store_execution_extends [OF db(1), of "snd s"] by simp
  then show thesis using that db readings.statements_grow [OF db(2)] by blast
qed

lemma save_poll_result_extends: "save_poll_result r s = Inr t \<Longrightarrow> extends s t"
  by (erule save_poll_result_Inr) (rule extends_trans)

lemma save_poll_result_holds:
  assumes "save_poll_result r s = Inr t"
  shows "persisted (fst t) r \<and> storable (db_tags (fst t)) r"
proof -
  obtain db where db: "store_execution (wp_execution r) (fst s) = Inr db"
    "statements (save_result_at (wp_execution r)) (enumerate 0 (wp_results r)) (db, snd s) = Inr t"
    "extends (db, snd s) t"
    by (rule save_poll_result_Inr [OF assms])
  note all = readings.statements_hold [OF db(2)]
  obtain row where row: "bind_execution (wp_execution r) = Inr row" "map_of (db_executions db) (wp_id r) \<noteq> None"
    using db(1) by (rule store_execution_cases) (auto simp: wp_id_def)
  have "map_of (db_executions (fst t)) (wp_id r) \<noteq> None"
    using row(2) db(3) by (auto simp: extends_def dom_def)
  moreover have "has_reading (fst t) (event_id (wp_id r) i)" if "i < length (wp_results r)" for i
  proof -
    have "(i, wp_results r ! i) \<in> set (enumerate 0 (wp_results r))"
      using that by (auto simp: in_set_enumerate_eq)
    from all [OF this] show ?thesis by (simp add: wp_id_def)
  qed
  ultimately show ?thesis using all row(1) by (auto simp: persisted_def storable_def)
qed

interpretation batch: establishing_statements save_poll_result extends
    "\<lambda>r s. persisted (fst s) r \<and> storable (db_tags (fst s)) r"
proof
  fix r s t
  assume "persisted (fst s) r \<and> storable (db_tags (fst s)) r" "extends s t"
  then show "persisted (fst t) r \<and> storable (db_tags (fst t)) r"
    using persisted_grows by (auto simp: extends_def)
qed (fact extends_refl extends_trans save_poll_result_extends save_poll_result_holds)+

lemma save_poll_results_Inr:
  assumes "save_poll_results rs db = (db', Inr n)"
  shows "statements save_poll_result rs (db, 0) = Inr (db', n)"
  using assms by (auto simp: save_poll_results_def commit_def split: sum.splits)

lemma save_poll_results_Inl: "save_poll_results rs db = (db', Inl e) \<Longrightarrow> db' = db"
  by (auto simp: save_poll_results_def commit_def split: sum.splits)

lemma save_batch_transaction:
  assumes "save_poll_results rs db = (db', res)"
  shows "case res of
      Inl e \<Rightarrow> db' = db
    | Inr n \<Rightarrow> (\<forall>r \<in> set rs. persisted db' r) \<and>
        count_tag_readings db' = count_tag_readings db + n \<and>
        take (count_tag_readings db) (db_readings db') = db_readings db \<and>
        (\<forall>r. persisted db r \<longrightarrow> persisted db' r) \<and>
        db_connections db' = db_connections db \<and> db_tag_groups db' = db_tag_groups db \<and>
        db_tags db' = db_tags db \<and> db_components db' = db_components db"
proof (cases res)
  case (Inl e)
  then show ?thesis using assms save_poll_results_Inl by simp
next
  case (Inr n)
  have st: "statements save_poll_result rs (db, 0) = Inr (db', n)"
    using assms Inr save_poll_results_Inr by simp
  have grow: "extends (db, 0) (db', n)" by (rule batch.statements_grow [OF st])
  have "\<forall>r \<in> set rs. persisted db' r" using batch.statements_hold [OF st] by auto
  moreover have "\<forall>r. persisted db r \<longrightarrow> persisted db' r" using persisted_grows [OF _ grow] by simp
  ultimately show ?thesis using grow Inr by (auto simp: extends_def count_tag_readings_def)
qed

text \<open>
  C5: a batch is saved in one transaction. If the call returns, every poll result of the
  batch is persisted, with its execution and all of its readings, the number returned is
  the number of readings added, and nothing stored before is lost or changed but the
  executions; if it raises, the database is as before.
\<close>

theorem save_poll_results_atomic:
  assumes "save_poll_results rs db = (db', res)"
  shows "case res of
      Inl e \<Rightarrow> db' = db
    | Inr n \<Rightarrow> (\<forall>r \<in> set rs. persisted db' r) \<and>
        count_tag_readings db' = count_tag_readings db + n \<and>
        take (count_tag_readings db) (db_readings db') = db_readings db \<and>
        (\<forall>r. persisted db r \<longrightarrow> persisted db' r) \<and>
        db_connections db' = db_connections db \<and> db_tag_groups db' = db_tag_groups db \<and>
        db_tags db' = db_tags db \<and> db_components db' = db_components db"
  by (rule save_batch_transaction [OF assms])

section \<open>Saving again\<close>

text \<open>What saving a poll result does to the table of executions.\<close>

definition put_execution ::
  "worker_poll_result \<Rightarrow> (string \<times> execution_row) list \<Rightarrow> (string \<times> execution_row) list" where
  "put_execution r t =
     (case bind_execution (wp_execution r) of
        Inl e \<Rightarrow> t
      | Inr row \<Rightarrow> upsert (wp_id r) row (replace_execution row) t)"

text \<open>The same for the row of one key.\<close>

definition put_row :: "string \<Rightarrow> worker_poll_result \<Rightarrow> execution_row option \<Rightarrow> execution_row option" where
  "put_row k r old =
     (case bind_execution (wp_execution r) of
        Inl e \<Rightarrow> old
      | Inr row \<Rightarrow> if wp_id r \<noteq> k then old
          else Some (case old of None \<Rightarrow> row | Some o' \<Rightarrow> replace_execution row o'))"

lemma map_of_put_execution: "map_of (put_execution r t) k = put_row k r (map_of t k)"
  by (auto simp: put_execution_def put_row_def split: sum.splits)

lemma map_of_put_executions: "map_of (fold put_execution rs t) k = fold (put_row k) rs (map_of t k)"
  by (induction rs arbitrary: t) (simp_all add: map_of_put_execution)

lemma replace_execution_simps [simp]:
  "replace_execution a (replace_execution b c) = replace_execution a c"
  "replace_execution a a = a"
  by (simp_all add: replace_execution_def)

lemma put_rows_cases:
  "fold (put_row k) rs = id \<or> (\<exists>row. \<forall>old. \<exists>b. fold (put_row k) rs old = Some (replace_execution row b) \<and>
     (\<forall>o'. old = Some o' \<longrightarrow> b = o'))"
proof (induction rs rule: rev_induct)
  case Nil
  then show ?case by (simp add: id_def)
next
  case (snoc r rs)
  show ?case
  proof (cases "\<exists>row. bind_execution (wp_execution r) = Inr row \<and> wp_id r = k")
    case False
    then have "put_row k r = id" by (auto simp: put_row_def fun_eq_iff split: sum.splits)
    then show ?thesis using snoc by (simp add: comp_def id_def)
  next
    case True
    then obtain row where row: "bind_execution (wp_execution r) = Inr row" "wp_id r = k" by blast
    have new: "put_row k r old = Some (case old of None \<Rightarrow> row | Some o' \<Rightarrow> replace_execution row o')" for old
      using row by (simp add: put_row_def)
    have "\<exists>b. put_row k r (fold (put_row k) rs old) = Some (replace_execution row b) \<and>
        (\<forall>o'. old = Some o' \<longrightarrow> b = o')" for old
    proof (cases "fold (put_row k) rs = id")
      case True
      then show ?thesis unfolding new
        by (cases old) (auto intro: exI [of _ row])
    next
      case False
      then obtain row1 b where "fold (put_row k) rs old = Some (replace_execution row1 b)"
        "\<forall>o'. old = Some o' \<longrightarrow> b = o'" using snoc by metis
      then show ?thesis unfolding new by auto
    qed
    then show ?thesis by (simp only: fold_append fold_simps comp_apply) blast
  qed
qed

lemma put_rows_again: "fold (put_row k) rs (fold (put_row k) rs old) = fold (put_row k) rs old"
proof (cases "fold (put_row k) rs = id")
  case False
  then obtain row where row: "\<forall>old. \<exists>b. fold (put_row k) rs old = Some (replace_execution row b) \<and>
     (\<forall>o'. old = Some o' \<longrightarrow> b = o')" using put_rows_cases by metis
  obtain b where b: "fold (put_row k) rs old = Some (replace_execution row b)" using row by metis
  have "fold (put_row k) rs (Some (replace_execution row b)) = Some (replace_execution row (replace_execution row b))"
    using row by metis
  then show ?thesis using b by simp
qed simp

lemma keys_put_executions:
  assumes "\<forall>r \<in> set rs. map_of t (wp_id r) \<noteq> None"
  shows "map fst (fold put_execution rs t) = map fst t"
  using assms
proof (induction rs arbitrary: t)
  case (Cons r rs)
  have same: "map fst (put_execution r t) = map fst t"
    using Cons.prems by (auto simp: put_execution_def keys_upsert split: sum.splits)
  then have "\<forall>y \<in> set rs. map_of (put_execution r t) (wp_id y) \<noteq> None"
    using Cons.prems by (metis map_of_eq_None_iff list.set_intros(2) set_map)
  then show ?case using Cons.IH [of "put_execution r t"] same by simp
qed simp

lemma distinct_put_executions:
  "distinct (map fst t) \<Longrightarrow> distinct (map fst (fold put_execution rs t))"
  by (induction rs arbitrary: t) (auto simp: put_execution_def split: sum.splits)

lemma put_executions_again:
  assumes "distinct (map fst t)" "\<forall>r \<in> set rs. map_of (fold put_execution rs t) (wp_id r) \<noteq> None"
  shows "fold put_execution rs (fold put_execution rs t) = fold put_execution rs t"
proof (rule table_eqI)
  show keys: "map fst (fold put_execution rs (fold put_execution rs t)) = map fst (fold put_execution rs t)"
    by (rule keys_put_executions) (fact assms(2))
  show "distinct (map fst (fold put_execution rs (fold put_execution rs t)))"
    using keys distinct_put_executions [OF assms(1)] by simp
  show "map_of (fold put_execution rs (fold put_execution rs t)) = map_of (fold put_execution rs t)"
    by (rule ext) (simp add: map_of_put_executions put_rows_again)
qed

lemma statements_same:
  "(\<And>x. x \<in> set xs \<Longrightarrow> f x s = Inr s) \<Longrightarrow> statements f xs s = Inr s"
  by (induction xs) auto

lemma store_execution_put:
  assumes "store_execution (wp_execution r) db = Inr db'"
  shows "db' = db\<lparr>db_executions := put_execution r (db_executions db)\<rparr>"
  using assms by (rule store_execution_cases) (simp add: put_execution_def wp_id_def)

lemma readings_keep_executions:
  "statements (save_result_at x) ps s = Inr t \<Longrightarrow> db_executions (fst t) = db_executions (fst s)"
proof (induction ps arbitrary: s)
  case (Cons p ps)
  then obtain s1 where s1: "save_result_at x p s = Inr s1" "statements (save_result_at x) ps s1 = Inr t" by auto
  obtain rec where "save_tag_reading rec s = Inr s1" using s1(1) by (rule save_result_at_Inr)
  then have "db_executions (fst s1) = db_executions (fst s)" by (rule save_tag_reading_cases) auto
  then show ?case using Cons.IH [OF s1(2)] by simp
qed simp

lemma batch_executions:
  "statements save_poll_result rs s = Inr t \<Longrightarrow>
     db_executions (fst t) = fold put_execution rs (db_executions (fst s))"
proof (induction rs arbitrary: s)
  case (Cons r rs)
  then obtain s1 where s1: "save_poll_result r s = Inr s1" "statements save_poll_result rs s1 = Inr t" by auto
  obtain db where db: "store_execution (wp_execution r) (fst s) = Inr db"
    "statements (save_result_at (wp_execution r)) (enumerate 0 (wp_results r)) (db, snd s) = Inr s1"
    using s1(1) by (rule save_poll_result_Inr)
  have "db_executions (fst s1) = put_execution r (db_executions (fst s))"
    using readings_keep_executions [OF db(2)] store_execution_put [OF db(1)] by simp
  then show ?case using Cons.IH [OF s1(2)] by simp
qed simp

lemma save_result_at_again:
  assumes "has_reading (fst s) (event_id (pe_execution_id x) (fst p))" "storable_at (db_tags (fst s)) x p"
  shows "save_result_at x p s = Inr s"
proof -
  obtain rec row where rec: "reading_record_new (event_id (pe_execution_id x) (fst p))
       (pe_connection_id x) (pe_tag_group_id x) (snd p) = Inr rec" "reading_row_of (db_tags (fst s)) rec = Inr row"
    using assms(2) by (auto simp: storable_at_def)
  have "rr_event_id rec = event_id (pe_execution_id x) (fst p)"
    using rec(1) by (auto simp: reading_record_new_def split: if_splits)
  then show ?thesis
    using rec assms(1) by (cases s) (auto simp: save_result_at_def save_tag_reading_def has_reading_def)
qed

lemma save_poll_result_again:
  assumes "persisted (fst s) r" "storable (db_tags (fst s)) r"
  shows "save_poll_result r s =
    Inr ((fst s)\<lparr>db_executions := put_execution r (db_executions (fst s))\<rparr>, snd s)"
proof -
  obtain row where row: "bind_execution (wp_execution r) = Inr row" using assms(2) by (auto simp: storable_def)
  let ?db = "(fst s)\<lparr>db_executions := put_execution r (db_executions (fst s))\<rparr>"
  have st: "store_execution (wp_execution r) (fst s) = Inr ?db"
    using assms(1) row by (auto simp: store_execution_def persisted_def put_execution_def wp_id_def)
  have "statements (save_result_at (wp_execution r)) (enumerate 0 (wp_results r)) (?db, snd s) = Inr (?db, snd s)"
  proof (rule statements_same)
    fix p assume p: "p \<in> set (enumerate 0 (wp_results r))"
    then have "fst p < length (wp_results r)" by (auto simp: in_set_enumerate_eq)
    then have "has_reading ?db (event_id (wp_id r) (fst p))"
      using assms(1) by (simp add: persisted_def has_reading_def)
    moreover have "storable_at (db_tags ?db) (wp_execution r) p" using assms(2) p by (simp add: storable_def)
    ultimately show "save_result_at (wp_execution r) p (?db, snd s) = Inr (?db, snd s)"
      by (intro save_result_at_again) (simp_all add: wp_id_def)
  qed
  then show ?thesis using st by (simp add: save_poll_result_def)
qed

lemma batch_again:
  "(\<And>r. r \<in> set rs \<Longrightarrow> persisted (fst s) r \<and> storable (db_tags (fst s)) r) \<Longrightarrow>
     statements save_poll_result rs s =
       Inr ((fst s)\<lparr>db_executions := fold put_execution rs (db_executions (fst s))\<rparr>, snd s)"
proof (induction rs arbitrary: s)
  case (Cons r rs)
  let ?t = "((fst s)\<lparr>db_executions := put_execution r (db_executions (fst s))\<rparr>, snd s)"
  have step: "save_poll_result r s = Inr ?t" by (rule save_poll_result_again) (use Cons.prems in auto)
  have "statements save_poll_result rs ?t =
      Inr ((fst ?t)\<lparr>db_executions := fold put_execution rs (db_executions (fst ?t))\<rparr>, snd ?t)"
  proof (rule Cons.IH)
    fix y assume "y \<in> set rs"
    then have "persisted (fst s) y \<and> storable (db_tags (fst s)) y" using Cons.prems by simp
    then show "persisted (fst ?t) y \<and> storable (db_tags (fst ?t)) y"
      using persisted_grows [OF _ save_poll_result_extends [OF step]] by simp
  qed
  then show ?case using step by simp
qed simp

text \<open>
  C34: saving is idempotent. A batch that has been saved can be saved again, which stores
  nothing new and leaves the database exactly as it is, also when executions occur several
  times in the batch.
\<close>

theorem save_poll_results_idempotent:
  assumes "save_poll_results rs db = (db', Inr n)" "distinct (map fst (db_executions db))"
  shows "save_poll_results rs db' = (db', Inr 0)"
proof -
  have st: "statements save_poll_result rs (db, 0) = Inr (db', n)" by (rule save_poll_results_Inr [OF assms(1)])
  have held: "persisted db' r \<and> storable (db_tags db') r" if "r \<in> set rs" for r
    using batch.statements_hold [OF st that] by simp
  have ex: "db_executions db' = fold put_execution rs (db_executions db)" using batch_executions [OF st] by simp
  have "fold put_execution rs (db_executions db') = db_executions db'"
    unfolding ex using put_executions_again [OF assms(2)] held by (simp add: ex persisted_def)
  then have "statements save_poll_result rs (db', 0) = Inr (db', 0)"
    using batch_again [of rs "(db', 0)"] held by simp
  then show ?thesis by (simp add: save_poll_results_def commit_def)
qed

section \<open>What a batch adds\<close>

lemma digits_snoc_inj:
  assumes "a @ [x] @ as = b @ [x] @ bs" "x \<notin> set as" "x \<notin> set bs"
  shows "a = b \<and> as = bs"
proof -
  have tw: "takeWhile (\<lambda>y. y \<noteq> x) (rev (c @ [x] @ cs)) = rev cs" if "x \<notin> set cs" for c cs
    using that by (subst rev_append, subst rev_append, subst append_assoc, subst takeWhile_append2) auto
  have "rev as = rev bs" using tw [OF assms(2), of a] tw [OF assms(3), of b] unfolding assms(1) by simp
  then have "as = bs" by simp
  then show ?thesis using assms(1) by simp
qed

lemma event_id_inj: "event_id e i = event_id f j \<longleftrightarrow> e = f \<and> i = j"
proof
  assume "event_id e i = event_id f j"
  then have eq: "e @ [CHR '':''] @ show_nat i = f @ [CHR '':''] @ show_nat j" by (simp add: event_id_def)
  have "CHR '':'' \<notin> set (show_nat n)" for n
  proof
    assume "CHR '':'' \<in> set (show_nat n)"
    then have "is_digit (CHR '':'')" by (rule show_nat_digits)
    then show False by (simp add: is_digit_def code_point_def)
  qed
  then have "e = f \<and> show_nat i = show_nat j" using digits_snoc_inj [OF eq] by blast
  then show "e = f \<and> i = j" using show_nat_inj by blast
qed simp

definition result_row ::
  "(string \<times> tag_row) list \<Rightarrow> poll_execution \<Rightarrow> nat \<times> tag_result \<Rightarrow> (string \<times> reading_row) result" where
  "result_row tags x p =
     rbind (reading_record_new (event_id (pe_execution_id x) (fst p)) (pe_connection_id x)
              (pe_tag_group_id x) (snd p)) (\<lambda>rec.
     rbind (reading_row_of tags rec) (\<lambda>row. Inr (rr_event_id rec, row)))"

definition result_rows :: "(string \<times> tag_row) list \<Rightarrow> worker_poll_result \<Rightarrow> (string \<times> reading_row) list result" where
  "result_rows tags r = rmap (result_row tags (wp_execution r)) (enumerate 0 (wp_results r))"

lemma save_result_at_new:
  assumes "save_result_at x p s = Inr t" "\<not> has_reading (fst s) (event_id (pe_execution_id x) (fst p))"
  obtains row where "result_row (db_tags (fst s)) x p = Inr (event_id (pe_execution_id x) (fst p), row)"
    "db_readings (fst t) = db_readings (fst s) @ [(event_id (pe_execution_id x) (fst p), row)]"
    "snd t = Suc (snd s)" "db_tags (fst t) = db_tags (fst s)"
proof -
  obtain rec where r: "rec = \<lparr>rr_event_id = event_id (pe_execution_id x) (fst p),
      rr_connection_id = pe_connection_id x, rr_tag_group_id = pe_tag_group_id x, rr_result = snd p\<rparr>"
    and rec: "reading_record_new (event_id (pe_execution_id x) (fst p)) (pe_connection_id x)
       (pe_tag_group_id x) (snd p) = Inr rec" "save_tag_reading rec s = Inr t"
    by (rule save_result_at_Inr [OF assms(1)])
  have "rr_event_id rec = event_id (pe_execution_id x) (fst p)" using r by simp
  then show thesis using rec(2)
    by (elim save_tag_reading_cases) (use that rec(1) assms(2) in \<open>auto simp: result_row_def\<close>)
qed

lemma readings_new:
  assumes "statements (save_result_at x) (enumerate i rs) s = Inr t"
    and "\<And>j. i \<le> j \<Longrightarrow> \<not> has_reading (fst s) (event_id (pe_execution_id x) j)"
  shows "\<exists>new. rmap (result_row (db_tags (fst s)) x) (enumerate i rs) = Inr new \<and>
    db_readings (fst t) = db_readings (fst s) @ new \<and>
    (\<forall>q \<in> set new. \<exists>j. fst q = event_id (pe_execution_id x) j)"
  using assms
proof (induction rs arbitrary: i s)
  case (Cons r rs)
  obtain s1 where s1: "save_result_at x (i, r) s = Inr s1"
    "statements (save_result_at x) (enumerate (Suc i) rs) s1 = Inr t" using Cons.prems(1) by auto
  have free: "\<not> has_reading (fst s) (event_id (pe_execution_id x) (fst (i, r)))" using Cons.prems(2) by simp
  obtain row where row: "result_row (db_tags (fst s)) x (i, r) = Inr (event_id (pe_execution_id x) i, row)"
    "db_readings (fst s1) = db_readings (fst s) @ [(event_id (pe_execution_id x) i, row)]"
    "db_tags (fst s1) = db_tags (fst s)"
    using save_result_at_new [OF s1(1) free] by auto
  have "\<not> has_reading (fst s1) (event_id (pe_execution_id x) j)" if "Suc i \<le> j" for j
    using Cons.prems(2) [of j] that row(2)
    by (auto simp: has_reading_def map_add_def event_id_inj split: option.splits)
  then obtain new where "rmap (result_row (db_tags (fst s1)) x) (enumerate (Suc i) rs) = Inr new"
    "db_readings (fst t) = db_readings (fst s1) @ new"
    "\<forall>q \<in> set new. \<exists>j. fst q = event_id (pe_execution_id x) j"
    using Cons.IH [OF s1(2)] by auto
  then show ?case using row by auto
qed simp

lemma batch_new:
  assumes "statements save_poll_result rs s = Inr t" "distinct (map wp_id rs)"
    and "\<And>r j. r \<in> set rs \<Longrightarrow> \<not> has_reading (fst s) (event_id (wp_id r) j)"
  shows "\<exists>new. rmap (result_rows (db_tags (fst s))) rs = Inr new \<and>
    db_readings (fst t) = db_readings (fst s) @ concat new"
  using assms
proof (induction rs arbitrary: s)
  case (Cons r rs)
  obtain s1 where s1: "save_poll_result r s = Inr s1" "statements save_poll_result rs s1 = Inr t"
    using Cons.prems(1) by auto
  obtain db where db: "store_execution (wp_execution r) (fst s) = Inr db" "extends s (db, snd s)"
    "statements (save_result_at (wp_execution r)) (enumerate 0 (wp_results r)) (db, snd s) = Inr s1"
    using s1(1) by (rule save_poll_result_Inr)
  have same: "db_readings db = db_readings (fst s)" "db_tags db = db_tags (fst s)"
    using db(1) by (auto elim!: store_execution_cases)
  have "\<not> has_reading (fst (db, snd s)) (event_id (pe_execution_id (wp_execution r)) j)" for j
    using Cons.prems(3) [of r j] same by (simp add: has_reading_def wp_id_def)
  from readings_new [OF db(3) this] obtain new where new: "result_rows (db_tags (fst s)) r = Inr new"
    "db_readings (fst s1) = db_readings (fst s) @ new" "\<forall>q \<in> set new. \<exists>j. fst q = event_id (wp_id r) j"
    using same by (auto simp: result_rows_def wp_id_def)
  have tags: "db_tags (fst s1) = db_tags (fst s)"
    using save_poll_result_extends [OF s1(1)] by (simp add: extends_def)
  have "\<not> has_reading (fst s1) (event_id (wp_id y) j)" if y: "y \<in> set rs" for y j
  proof -
    have "wp_id y \<noteq> wp_id r" using Cons.prems(2) y by (auto simp: image_iff)
    then have "event_id (wp_id y) j \<notin> fst ` set new" using new(3) by (force simp: event_id_inj)
    moreover have "\<not> has_reading (fst s) (event_id (wp_id y) j)" using Cons.prems(3) y by simp
    ultimately show ?thesis using new(2)
      by (auto simp: has_reading_def map_add_def map_of_eq_None_iff split: option.splits)
  qed
  then obtain more where "rmap (result_rows (db_tags (fst s1))) rs = Inr more"
    "db_readings (fst t) = db_readings (fst s1) @ concat more"
    using Cons.IH [OF s1(2)] Cons.prems(2) by auto
  then show ?case using new tags by auto
qed simp

text \<open>
  What a new batch adds. If no reading of its executions is stored yet and the
  executions are distinct, the readings table grows by one row for every result, in the
  order of the batch, keyed by execution and position, with the columns of the result.
\<close>

lemma save_poll_results_rows:
  assumes "save_poll_results rs db = (db', Inr n)" "distinct (map wp_id rs)"
    and "\<forall>r \<in> set rs. \<forall>j. \<not> has_reading db (event_id (wp_id r) j)"
  shows "\<exists>rows. rmap (result_rows (db_tags db)) rs = Inr rows \<and>
    db_readings db' = db_readings db @ concat rows \<and> n = length (concat rows)"
proof -
  have st: "statements save_poll_result rs (db, 0) = Inr (db', n)" by (rule save_poll_results_Inr [OF assms(1)])
  obtain rows where rows: "rmap (result_rows (db_tags db)) rs = Inr rows"
    "db_readings db' = db_readings db @ concat rows"
    using batch_new [OF st assms(2)] assms(3) by auto
  moreover have "\<exists>new. db_readings db' = db_readings db @ new \<and> n = length new"
    using batch.statements_grow [OF st] by (simp add: extends_def)
  ultimately show ?thesis by auto
qed

section \<open>Referential integrity\<close>

text \<open>Primary keys are unique and every reference resolves.\<close>

definition known :: "'k \<Rightarrow> ('k \<times> 'r) list \<Rightarrow> bool" where
  "known k t \<longleftrightarrow> map_of t k \<noteq> None"

definition keys_unique :: "database \<Rightarrow> bool" where
  "keys_unique db \<longleftrightarrow> distinct (map fst (db_connections db)) \<and> distinct (map fst (db_tag_groups db)) \<and>
     distinct (map fst (db_tags db)) \<and> distinct (map fst (db_executions db)) \<and>
     distinct (map fst (db_readings db)) \<and> distinct (map fst (db_components db))"

definition references_resolve :: "database \<Rightarrow> bool" where
  "references_resolve db \<longleftrightarrow>
     (\<forall>k g. map_of (db_tag_groups db) k = Some g \<longrightarrow> known (gr_connection_id g) (db_connections db)) \<and>
     (\<forall>k t. map_of (db_tags db) k = Some t \<longrightarrow> known (gt_tag_group_id t) (db_tag_groups db)) \<and>
     (\<forall>k x. map_of (db_executions db) k = Some x \<longrightarrow>
        known (er_connection_id x) (db_connections db) \<and> known (er_tag_group_id x) (db_tag_groups db)) \<and>
     (\<forall>k r. map_of (db_readings db) k = Some r \<longrightarrow>
        known (dr_connection_id r) (db_connections db) \<and> known (dr_tag_group_id r) (db_tag_groups db) \<and>
        known (dr_tag_id r) (db_tags db))"

definition db_ok :: "database \<Rightarrow> bool" where
  "db_ok db \<longleftrightarrow> keys_unique db \<and> references_resolve db"

text \<open>Consistent tables behind a connection that enforces the foreign keys of the schema.\<close>

definition db_sound :: "database \<Rightarrow> bool" where
  "db_sound db \<longleftrightarrow> db_ok db \<and> set schema_foreign_keys \<subseteq> set (db_foreign_keys db)"

lemma db_sound_enforced:
  assumes "db_sound db"
  shows "(''tag_groups'', ''connection_id'', ''connections'') \<in> set (db_foreign_keys db)"
    "(''tags'', ''tag_group_id'', ''tag_groups'') \<in> set (db_foreign_keys db)"
    "(''poll_executions'', ''connection_id'', ''connections'') \<in> set (db_foreign_keys db)"
    "(''poll_executions'', ''tag_group_id'', ''tag_groups'') \<in> set (db_foreign_keys db)"
    "(''tag_readings'', ''connection_id'', ''connections'') \<in> set (db_foreign_keys db)"
    "(''tag_readings'', ''tag_group_id'', ''tag_groups'') \<in> set (db_foreign_keys db)"
    "(''tag_readings'', ''tag_id'', ''tags'') \<in> set (db_foreign_keys db)"
  using assms by (simp_all add: db_sound_def schema_foreign_keys_def)

lemma known_upsert [simp]: "known j (upsert k row upd t) \<longleftrightarrow> j = k \<or> known j t"
  by (simp add: known_def)

lemma statements_invariant:
  assumes "statements f xs s = Inr t" "P s" "\<And>x s t. f x s = Inr t \<Longrightarrow> P s \<Longrightarrow> P t"
  shows "P t"
  using assms(1,2) by (induction xs arbitrary: s) (auto dest: assms(3))

lemma upsert_connection_ok:
  assumes "upsert_connection c db = Inr db'" "db_sound db"
  shows "db_sound db'"
proof -
  obtain row where "db' = db\<lparr>db_connections := upsert (cc_id c) row (\<lambda>_. row) (db_connections db)\<rparr>"
    using assms(1) by (auto simp: upsert_connection_def check_failed_def Let_def split: if_splits)
  then show ?thesis using assms(2) by (auto simp: db_sound_def db_ok_def keys_unique_def references_resolve_def)
qed

lemma upsert_tag_group_ok:
  assumes "upsert_tag_group g db = Inr db'" "db_sound db"
  shows "db_sound db'"
proof -
  obtain row where row: "db' = db\<lparr>db_tag_groups := upsert (tg_id g) row (\<lambda>_. row) (db_tag_groups db)\<rparr>"
    "known (gr_connection_id row) (db_connections db)"
    using assms(1) db_sound_enforced [OF assms(2)]
    by (auto simp: upsert_tag_group_def check_failed_def foreign_key_failed_def known_def Let_def split: if_splits)
  show ?thesis using assms(2) row
    by (auto simp: db_sound_def db_ok_def keys_unique_def references_resolve_def split: option.splits)
qed

lemma upsert_tag_ok:
  assumes "upsert_tag t db = Inr db'" "db_sound db"
  shows "db_sound db'"
proof -
  obtain row where row: "db' = db\<lparr>db_tags := upsert (tc_id t) row (\<lambda>_. row) (db_tags db)\<rparr>"
    "known (gt_tag_group_id row) (db_tag_groups db)"
    using assms(1) db_sound_enforced [OF assms(2)]
    by (auto simp: upsert_tag_def foreign_key_failed_def known_def Let_def split: if_splits)
  show ?thesis using assms(2) row
    by (auto simp: db_sound_def db_ok_def keys_unique_def references_resolve_def split: option.splits)
qed

lemma bind_execution_refs:
  "bind_execution x = Inr row \<Longrightarrow> er_connection_id row = pe_connection_id x \<and> er_tag_group_id row = pe_tag_group_id x"
  by (auto simp: bind_execution_def check_failed_def execution_row_of_def split: if_splits)

lemma replace_execution_refs [simp]:
  "er_connection_id (replace_execution new old) = er_connection_id old"
  "er_tag_group_id (replace_execution new old) = er_tag_group_id old"
  by (simp_all add: replace_execution_def)

lemma store_execution_ok:
  assumes "store_execution x db = Inr db'" "db_sound db"
  shows "db_sound db'"
proof -
  obtain row where row: "bind_execution x = Inr row"
    "db' = db\<lparr>db_executions := upsert (pe_execution_id x) row (replace_execution row) (db_executions db)\<rparr>"
    "map_of (db_executions db) (pe_execution_id x) = None \<Longrightarrow>
       map_of (db_connections db) (pe_connection_id x) \<noteq> None \<and>
       map_of (db_tag_groups db) (pe_tag_group_id x) \<noteq> None"
    using assms(1) by (rule store_execution_cases) (use db_sound_enforced [OF assms(2)] in auto)
  have refs: "er_connection_id row = pe_connection_id x" "er_tag_group_id row = pe_tag_group_id x"
    using bind_execution_refs [OF row(1)] by simp_all
  show ?thesis
    using assms(2) row(3) refs unfolding row(2)
    by (cases "map_of (db_executions db) (pe_execution_id x)")
      (auto simp: db_sound_def db_ok_def keys_unique_def references_resolve_def known_def)
qed

lemma reading_row_refs:
  "reading_row_of tags rec = Inr row \<Longrightarrow> dr_connection_id row = rr_connection_id rec \<and>
     dr_tag_group_id row = rr_tag_group_id rec \<and> dr_tag_id row = tr_tag_id (rr_result rec)"
  by (auto simp: reading_row_of_def Let_def)

lemma save_tag_reading_ok:
  assumes "save_tag_reading rec s = Inr t" "db_sound (fst s)"
  shows "db_sound (fst t)"
  using assms(1)
proof (cases rule: save_tag_reading_cases)
  case (1 row)
  then show ?thesis using assms(2) by simp
next
  case (2 row)
  have refs: "map_of (db_connections (fst s)) (rr_connection_id rec) \<noteq> None"
    "map_of (db_tag_groups (fst s)) (rr_tag_group_id rec) \<noteq> None"
    "map_of (db_tags (fst s)) (tr_tag_id (rr_result rec)) \<noteq> None"
    using 2(4-6) db_sound_enforced [OF assms(2)] by auto
  have "keys_unique (fst t)"
    using assms(2) 2(2,3) by (auto simp: db_sound_def db_ok_def keys_unique_def has_reading_def map_of_eq_None_iff)
  moreover have "references_resolve (fst t)"
    using assms(2) 2(2,3) refs reading_row_refs [OF 2(1)]
    by (auto simp: db_sound_def db_ok_def references_resolve_def known_def map_add_def split: option.splits if_splits)
  moreover have "db_foreign_keys (fst t) = db_foreign_keys (fst s)" by (simp add: 2(3))
  ultimately show ?thesis using assms(2) by (simp add: db_sound_def db_ok_def)
qed

lemma save_poll_result_ok:
  assumes "save_poll_result r s = Inr t" "db_sound (fst s)"
  shows "db_sound (fst t)"
proof -
  obtain db where db: "store_execution (wp_execution r) (fst s) = Inr db"
    "statements (save_result_at (wp_execution r)) (enumerate 0 (wp_results r)) (db, snd s) = Inr t"
    using assms(1) by (rule save_poll_result_Inr)
  show ?thesis
    using db(2)
  proof (rule statements_invariant [where P = "\<lambda>s. db_sound (fst s)"])
    show "db_sound (fst (db, snd s))" using store_execution_ok [OF db(1) assms(2)] by simp
    fix p s' t' assume "save_result_at (wp_execution r) p s' = Inr t'" "db_sound (fst s')"
    then show "db_sound (fst t')" by (elim save_result_at_Inr) (rule save_tag_reading_ok)
  qed
qed

lemma commit_ok:
  assumes "db_sound db" "\<And>db' x. r = Inr (db', x) \<Longrightarrow> db_sound db'"
  shows "db_sound (fst (commit db r))"
  using assms by (auto simp: commit_def split: sum.splits)

text \<open>The operations of the three repositories.\<close>

datatype gateway_call =
    RC_Connections "connection_config list"
  | RC_Tag_Groups "tag_group_config list"
  | RC_Tags "tag_config list"
  | RC_Status component_status
  | RC_Execution poll_execution
  | RC_Readings "tag_reading_record list"
  | RC_Poll_Results "worker_poll_result list"

fun repository_step :: "gateway_call \<Rightarrow> database \<Rightarrow> database" where
  "repository_step (RC_Connections cs) db = fst (upsert_connections cs db)"
| "repository_step (RC_Tag_Groups gs) db = fst (upsert_tag_groups gs db)"
| "repository_step (RC_Tags ts) db = fst (upsert_tags ts db)"
| "repository_step (RC_Status s) db = fst (upsert_status s db)"
| "repository_step (RC_Execution x) db = fst (save_poll_execution x db)"
| "repository_step (RC_Readings rs) db = fst (save_tag_readings rs db)"
| "repository_step (RC_Poll_Results rs) db = fst (save_poll_results rs db)"

lemma repository_step_ok:
  assumes "db_sound db"
  shows "db_sound (repository_step c db)"
proof (cases c)
  case (RC_Connections cs)
  then show ?thesis unfolding RC_Connections repository_step.simps upsert_connections_def
    by (intro commit_ok assms) (auto elim: statements_invariant [where P = db_sound] intro: assms upsert_connection_ok)
next
  case (RC_Tag_Groups gs)
  then show ?thesis unfolding RC_Tag_Groups repository_step.simps upsert_tag_groups_def
    by (intro commit_ok assms) (auto elim: statements_invariant [where P = db_sound] intro: assms upsert_tag_group_ok)
next
  case (RC_Tags ts)
  then show ?thesis unfolding RC_Tags repository_step.simps upsert_tags_def
    by (intro commit_ok assms) (auto elim: statements_invariant [where P = db_sound] intro: assms upsert_tag_ok)
next
  case (RC_Status s)
  then show ?thesis using assms unfolding RC_Status repository_step.simps upsert_status_def
    by (intro commit_ok assms) (auto simp: db_sound_def db_ok_def keys_unique_def references_resolve_def Let_def)
next
  case (RC_Execution x)
  then show ?thesis unfolding RC_Execution repository_step.simps save_poll_execution_def
    by (intro commit_ok assms) (auto intro: store_execution_ok assms)
next
  case (RC_Readings rs)
  have "db_sound db'" if "statements save_tag_reading rs (db, 0) = Inr (db', n)" for db' n
    using statements_invariant [where P = "\<lambda>s. db_sound (fst s)", OF that] assms save_tag_reading_ok by auto
  then show ?thesis unfolding RC_Readings repository_step.simps save_tag_readings_def
    by (intro commit_ok assms)
next
  case (RC_Poll_Results rs)
  have "db_sound db'" if "statements save_poll_result rs (db, 0) = Inr (db', n)" for db' n
    using statements_invariant [where P = "\<lambda>s. db_sound (fst s)", OF that] assms save_poll_result_ok by auto
  then show ?thesis unfolding RC_Poll_Results repository_step.simps save_poll_results_def
    by (intro commit_ok assms)
qed

text \<open>
  After any sequence of calls of the three repositories on a new database, successful
  or not, primary keys are unique and every group, tag, execution and reading refers to
  rows that exist.
\<close>

lemma repository_integrity: "db_sound (fold repository_step calls empty_database)"
proof -
  have "db_sound (fold repository_step calls db)" if "db_sound db" for db
    using that by (induction calls arbitrary: db) (auto simp: repository_step_ok)
  moreover have "db_sound empty_database"
    by (simp add: db_sound_def db_ok_def keys_unique_def references_resolve_def empty_database_def)
  ultimately show ?thesis by blast
qed

section \<open>When a batch is accepted\<close>

definition has_value_type :: "(string \<times> tag_row) list \<Rightarrow> tag_result \<Rightarrow> bool" where
  "has_value_type tags t \<longleftrightarrow> (\<exists>row. map_of tags (tr_tag_id t) = Some row \<and>
     (tr_value t = None \<longrightarrow> (\<exists>c cs. gt_value_type row = Some (c # cs))))"

definition configured :: "database \<Rightarrow> worker_poll_result \<Rightarrow> bool" where
  "configured db r \<longleftrightarrow> known (pe_connection_id (wp_execution r)) (db_connections db) \<and>
     known (pe_tag_group_id (wp_execution r)) (db_tag_groups db) \<and>
     (\<forall>t \<in> set (wp_results r). has_value_type (db_tags db) t)"

definition fits_sqlite :: "worker_poll_result \<Rightarrow> bool" where
  "fits_sqlite r \<longleftrightarrow> sqlite_int (pe_requested_tags (wp_execution r)) \<and>
     (\<forall>t \<in> set (wp_results r). \<forall>n. column tv_integer t = Some n \<longrightarrow> sqlite_int n)"

lemma bind_utc_ok [simp]: "utc_ok d \<Longrightarrow> bind_utc d = Inr (isoformat d)"
  using astimezone_utc_id [of d] by (simp add: bind_utc_def utc_ok_def)

lemma bind_utc_option_ok: "utc_option d \<Longrightarrow> bind_utc_option d = Inr (map_option isoformat d)"
  by (cases d) (simp_all add: bind_utc_option_def)

lemma load_bind_utc: "utc_ok d \<Longrightarrow> load_utc (isoformat d) = Inr d"
  using astimezone_utc_id [of d] fromisoformat_isoformat [of d] by (simp add: load_utc_def utc_ok_def)

lemma bind_int_option_ok: "(\<And>n. v = Some n \<Longrightarrow> sqlite_int n) \<Longrightarrow> bind_int_option v = Inr v"
  by (cases v) (simp_all add: bind_int_option_def bind_int_def)

lemma bind_execution_total:
  assumes "execution_ok x" "sqlite_int (pe_requested_tags x)"
  shows "\<exists>row. bind_execution x = Inr row"
proof -
  have fin: "utc_option (pe_finished_at x)"
    using assms(1) by (cases "pe_finished_at x") (auto simp: execution_ok_def)
  have "0 \<le> pe_successful_tags x" "0 \<le> pe_failed_tags x"
    "pe_successful_tags x \<le> pe_requested_tags x" "pe_failed_tags x \<le> pe_requested_tags x"
    using assms(1) by (auto simp: execution_ok_def)
  moreover from this have "sqlite_int (pe_successful_tags x)" "sqlite_int (pe_failed_tags x)" "0 \<le> pe_requested_tags x"
    using assms(2) by (auto simp: sqlite_int_def)
  ultimately show ?thesis
    using assms fin by (auto simp: bind_execution_def bind_utc_option_ok bind_int_def execution_ok_def)
qed

lemma reading_record_total:
  assumes "py_strip c \<noteq> []" "py_strip g \<noteq> []"
  shows "reading_record_new (event_id e i) c g t =
    Inr \<lparr>rr_event_id = event_id e i, rr_connection_id = c, rr_tag_group_id = g, rr_result = t\<rparr>"
proof -
  have "\<not> is_space (CHR '':'')" by (simp add: is_space_def code_point_def)
  moreover have "CHR '':'' \<in> set (event_id e i)" by (simp add: event_id_def)
  ultimately have "py_strip (event_id e i) \<noteq> []" unfolding py_strip_eq_Nil by blast
  then show ?thesis using assms by (simp add: reading_record_new_def)
qed

lemma reading_row_total:
  assumes "tag_result_ok (rr_result rec)" "has_value_type tags (rr_result rec)"
    and "\<And>n. column tv_integer (rr_result rec) = Some n \<Longrightarrow> sqlite_int n"
  shows "\<exists>row. reading_row_of tags rec = Inr row"
proof -
  have "\<exists>vt. reading_value_type tags (rr_result rec) = Inr vt"
    using assms(2) by (cases "tr_value (rr_result rec)") (auto simp: has_value_type_def reading_value_type_def)
  then show ?thesis
    using assms(1) bind_int_option_ok [OF assms(3)]
    by (auto simp: reading_row_of_def Let_def tag_result_ok_def bind_utc_option_ok)
qed

lemma statements_total:
  assumes "\<And>x s. x \<in> set xs \<Longrightarrow> P s \<Longrightarrow> \<exists>t. f x s = Inr t \<and> P t" "P s"
  shows "\<exists>t. statements f xs s = Inr t \<and> P t"
  using assms
proof (induction xs arbitrary: s)
  case (Cons x xs)
  obtain t where t: "f x s = Inr t" "P t" using Cons.prems by (metis list.set_intros(1))
  have "\<exists>u. statements f xs t = Inr u \<and> P u" by (rule Cons.IH) (use Cons.prems t in auto)
  then show ?case using t by auto
qed simp

lemma configured_extends: "configured (fst s) r \<Longrightarrow> extends s t \<Longrightarrow> configured (fst t) r"
  by (simp add: configured_def extends_def)

lemma save_result_at_total:
  assumes "execution_ok x" "known (pe_connection_id x) (db_connections (fst s))"
    "known (pe_tag_group_id x) (db_tag_groups (fst s))"
    "tag_result_ok (snd p)" "has_value_type (db_tags (fst s)) (snd p)"
    "\<And>n. column tv_integer (snd p) = Some n \<Longrightarrow> sqlite_int n"
  shows "\<exists>t. save_result_at x p s = Inr t"
proof -
  have strip: "py_strip (pe_connection_id x) \<noteq> []" "py_strip (pe_tag_group_id x) \<noteq> []"
    using assms(1) by (auto simp: execution_ok_def stripped_def)
  let ?rec = "\<lparr>rr_event_id = event_id (pe_execution_id x) (fst p), rr_connection_id = pe_connection_id x,
    rr_tag_group_id = pe_tag_group_id x, rr_result = snd p\<rparr>"
  obtain row where "reading_row_of (db_tags (fst s)) ?rec = Inr row"
    using reading_row_total [of ?rec] assms(4-6) by auto
  moreover have "map_of (db_tags (fst s)) (tr_tag_id (snd p)) \<noteq> None"
    using assms(5) by (auto simp: has_value_type_def)
  ultimately show ?thesis
    using assms(2,3) reading_record_total [OF strip]
    by (cases s) (auto simp: save_result_at_def save_tag_reading_def known_def)
qed

lemma save_poll_result_total:
  assumes "poll_result_ok r" "configured (fst s) r" "fits_sqlite r"
  shows "\<exists>t. save_poll_result r s = Inr t"
proof -
  let ?x = "wp_execution r"
  have x: "execution_ok ?x" using assms(1) by (simp add: poll_result_ok_def)
  obtain row where "bind_execution ?x = Inr row"
    using bind_execution_total [OF x] assms(3) by (auto simp: fits_sqlite_def)
  then obtain db where db: "store_execution ?x (fst s) = Inr db"
    using assms(2) by (auto simp: store_execution_def configured_def known_def)
  have conf: "configured db r"
    using configured_extends [OF assms(2) , of "(db, snd s)"] store_execution_extends [OF db, of "snd s"] by simp
  have "\<exists>t. statements (save_result_at ?x) (enumerate 0 (wp_results r)) (db, snd s) = Inr t \<and> configured (fst t) r"
  proof (rule statements_total)
    fix p and s' :: "database \<times> nat"
    assume p: "p \<in> set (enumerate 0 (wp_results r))" and c: "configured (fst s') r"
    have in_res: "snd p \<in> set (wp_results r)"
      using p nth_mem [of "fst p" "wp_results r"] by (simp add: in_set_enumerate_eq)
    have "\<exists>t. save_result_at ?x p s' = Inr t"
      by (rule save_result_at_total [OF x])
        (use c in_res assms(1,3) in \<open>auto simp: configured_def poll_result_ok_def fits_sqlite_def\<close>)
    then show "\<exists>t. save_result_at ?x p s' = Inr t \<and> configured (fst t) r"
      using configured_extends [OF c] save_result_at_extends by blast
  qed (simp add: conf)
  then show ?thesis using db by (auto simp: save_poll_result_def)
qed

text \<open>
  A batch of validated poll results is accepted whenever the connections, groups and
  tags it names are configured, every failed tag has a configured value type, and its
  integers fit into 64 bits.
\<close>

lemma save_poll_results_total:
  assumes "\<forall>r \<in> set rs. poll_result_ok r \<and> configured db r \<and> fits_sqlite r"
  shows "\<exists>db' n. save_poll_results rs db = (db', Inr n)"
proof -
  have "\<exists>t. statements save_poll_result rs (db, 0) = Inr t \<and> (\<forall>r \<in> set rs. configured (fst t) r)"
  proof (rule statements_total)
    fix r and s :: "database \<times> nat"
    assume r: "r \<in> set rs" and c: "\<forall>r \<in> set rs. configured (fst s) r"
    obtain t where t: "save_poll_result r s = Inr t" using save_poll_result_total r c assms by blast
    then show "\<exists>t. save_poll_result r s = Inr t \<and> (\<forall>r \<in> set rs. configured (fst t) r)"
      using c configured_extends save_poll_result_extends by blast
  qed (use assms in simp)
  then show ?thesis by (auto simp: save_poll_results_def commit_def)
qed

text \<open>Conversely, what has been saved fits: an integer outside 64 bits cannot be bound.\<close>

lemma reading_row_fits:
  "reading_row_of tags rec = Inr row \<Longrightarrow> column tv_integer (rr_result rec) = Some n \<Longrightarrow> sqlite_int n"
  by (auto simp: reading_row_of_def Let_def bind_int_option_def bind_int_def split: if_splits)

lemma storable_fits:
  assumes "storable tags r"
  shows "fits_sqlite r"
proof -
  have "sqlite_int (pe_requested_tags (wp_execution r))"
    using assms by (auto simp: storable_def bind_execution_def bind_int_def split: if_splits)
  moreover have "sqlite_int n" if t: "t \<in> set (wp_results r)" "column tv_integer t = Some n" for t n
  proof -
    obtain i where "i < length (wp_results r)" "wp_results r ! i = t" using t(1) by (auto simp: in_set_conv_nth)
    then have "(i, t) \<in> set (enumerate 0 (wp_results r))" by (simp add: in_set_enumerate_eq)
    then obtain rec row where "reading_record_new (event_id (pe_execution_id (wp_execution r)) i)
        (pe_connection_id (wp_execution r)) (pe_tag_group_id (wp_execution r)) t = Inr rec"
      "reading_row_of tags rec = Inr row"
      using assms by (fastforce simp: storable_def storable_at_def)
    moreover from this(1) have "rr_result rec = t" by (auto simp: reading_record_new_def split: if_splits)
    ultimately show ?thesis using reading_row_fits t(2) by blast
  qed
  ultimately show ?thesis by (simp add: fits_sqlite_def)
qed

lemma unfitting_batch_fails:
  assumes "r \<in> set rs" "\<not> fits_sqlite r"
  shows "\<exists>e. save_poll_results rs db = (db, Inl e)"
proof (cases "save_poll_results rs db")
  case (Pair db' res)
  show ?thesis
  proof (cases res)
    case (Inl e)
    then show ?thesis using Pair save_poll_results_Inl by blast
  next
    case (Inr k)
    have "statements save_poll_result rs (db, 0) = Inr (db', k)"
      using save_poll_results_Inr Pair Inr by simp
    then have "storable (db_tags db') r" using batch.statements_hold assms(1) by fastforce
    then show ?thesis using storable_fits assms(2) by blast
  qed
qed

text \<open>
  C35: one integer outside 64 bits, too large or too small, makes the whole batch fail: nothing of
  it is stored, and saving the batch again, at any later time, fails in the same way.
\<close>

theorem oversized_integer_rejects_batch:
  assumes "r \<in> set rs" "t \<in> set (wp_results r)" "tr_value t = Some v" "tv_integer v = Some n"
    and "n < - (2 ^ 63) \<or> 2 ^ 63 \<le> n"
  shows "\<exists>e. save_poll_results rs db = (db, Inl e)"
proof (rule unfitting_batch_fails [OF assms(1)])
  have "\<not> sqlite_int n" using assms(5) unfolding sqlite_int_def by linarith
  then show "\<not> fits_sqlite r" using assms(2-4) by (force simp: fits_sqlite_def column_def)
qed

section \<open>Configuration and acceptance\<close>

definition typed_tag :: "string \<Rightarrow> database \<Rightarrow> bool" where
  "typed_tag k db \<longleftrightarrow> (\<exists>row c cs. map_of (db_tags db) k = Some row \<and> gt_value_type row = Some (c # cs))"

definition config_grows :: "database \<Rightarrow> database \<Rightarrow> bool" where
  "config_grows db db' \<longleftrightarrow> (\<forall>k. known k (db_connections db) \<longrightarrow> known k (db_connections db')) \<and>
     (\<forall>k. known k (db_tag_groups db) \<longrightarrow> known k (db_tag_groups db')) \<and>
     (\<forall>k. typed_tag k db \<longrightarrow> typed_tag k db')"

lemma config_grows_refl: "config_grows db db"
  by (simp add: config_grows_def)

lemma config_grows_trans: "config_grows a b \<Longrightarrow> config_grows b c \<Longrightarrow> config_grows a c"
  by (simp add: config_grows_def)

lemma value_type_value_Cons: "\<exists>c cs. value_type_value v = c # cs"
  by (cases v) simp_all

lemma upsert_connection_grows:
  "upsert_connection c db = Inr db' \<Longrightarrow> config_grows db db' \<and> known (cc_id c) (db_connections db')"
  by (auto simp: upsert_connection_def check_failed_def config_grows_def typed_tag_def Let_def split: if_splits)

lemma upsert_tag_group_grows:
  "upsert_tag_group g db = Inr db' \<Longrightarrow> config_grows db db' \<and> known (tg_id g) (db_tag_groups db')"
  by (auto simp: upsert_tag_group_def check_failed_def foreign_key_failed_def config_grows_def typed_tag_def
      Let_def split: if_splits)

lemma upsert_tag_grows:
  assumes "upsert_tag t db = Inr db'"
  shows "config_grows db db' \<and> typed_tag (tc_id t) db'"
proof -
  define row where "row meta = \<lparr>gt_tag_group_id = tc_tag_group_id t, gt_name = tc_name t,
      gt_address = tc_address t, gt_value_type = Some (value_type_value (tc_value_type t)),
      gt_enabled = tc_enabled t, gt_metadata = meta\<rparr>" for meta
  obtain meta where row: "gt_value_type (row meta) = Some (value_type_value (tc_value_type t))"
    "db' = db\<lparr>db_tags := upsert (tc_id t) (row meta) (\<lambda>_. row meta) (db_tags db)\<rparr>"
    using assms by (auto simp: upsert_tag_def foreign_key_failed_def Let_def row_def split: if_splits)
  have new: "map_of (db_tags db') = (map_of (db_tags db))(tc_id t \<mapsto> row meta)"
    using row(2) by (auto simp: fun_eq_iff split: option.splits)
  have "typed_tag k db'" if "k = tc_id t \<or> typed_tag k db" for k
    using that row(1) value_type_value_Cons [of "tc_value_type t"] unfolding typed_tag_def new by auto
  then show ?thesis using row(2) by (auto simp: config_grows_def)
qed

interpretation connection_upserts: establishing_statements upsert_connection config_grows
    "\<lambda>c db. known (cc_id c) (db_connections db)"
  by unfold_locales
    (use upsert_connection_grows in \<open>auto intro: config_grows_refl config_grows_trans simp: config_grows_def\<close>)

interpretation tag_group_upserts: establishing_statements upsert_tag_group config_grows
    "\<lambda>g db. known (tg_id g) (db_tag_groups db)"
  by unfold_locales
    (use upsert_tag_group_grows in \<open>auto intro: config_grows_refl config_grows_trans simp: config_grows_def\<close>)

interpretation tag_upserts: establishing_statements upsert_tag config_grows "\<lambda>t db. typed_tag (tc_id t) db"
  by unfold_locales
    (use upsert_tag_grows in \<open>auto intro: config_grows_refl config_grows_trans simp: config_grows_def\<close>)

lemma commit_unit: "commit db (rbind m (\<lambda>db'. Inr (db', ()))) = (db1, Inr u) \<longleftrightarrow> m = Inr db1"
  by (cases m) (simp_all add: commit_def)

lemma configuration_prepares:
  assumes "upsert_connections cs db = (db1, Inr ())" "upsert_tag_groups gs db1 = (db2, Inr ())"
    and "upsert_tags ts db2 = (db3, Inr ())"
    and "pe_connection_id (wp_execution r) \<in> cc_id ` set cs"
    and "pe_tag_group_id (wp_execution r) \<in> tg_id ` set gs"
    and "tr_tag_id ` set (wp_results r) \<subseteq> tc_id ` set ts"
  shows "configured db3 r"
proof -
  have c: "statements upsert_connection cs db = Inr db1" and g: "statements upsert_tag_group gs db1 = Inr db2"
    and t: "statements upsert_tag ts db2 = Inr db3"
    using assms(1-3) by (simp_all add: upsert_connections_def upsert_tag_groups_def upsert_tags_def commit_unit)
  have g3: "config_grows db2 db3" by (rule tag_upserts.statements_grow [OF t])
  have g2: "config_grows db1 db3" using config_grows_trans [OF tag_group_upserts.statements_grow [OF g] g3] .
  have "known (pe_connection_id (wp_execution r)) (db_connections db3)"
    using connection_upserts.statements_hold [OF c] assms(4) g2 by (auto simp: config_grows_def)
  moreover have "known (pe_tag_group_id (wp_execution r)) (db_tag_groups db3)"
    using tag_group_upserts.statements_hold [OF g] assms(5) g3 by (auto simp: config_grows_def)
  moreover have "has_value_type (db_tags db3) x" if x: "x \<in> set (wp_results r)" for x
  proof -
    have "tr_tag_id x \<in> tc_id ` set ts" using assms(6) x by blast
    then have "typed_tag (tr_tag_id x) db3" using tag_upserts.statements_hold [OF t] by auto
    then show ?thesis by (auto simp: typed_tag_def has_value_type_def)
  qed
  ultimately show ?thesis by (simp add: configured_def)
qed

section \<open>Witnesses\<close>

text \<open>A database with the configuration of the two tags of \<open>ex_poll_result\<close>.\<close>

definition ex_db_connection :: connection_config where
  "ex_db_connection = \<lparr>cc_id = ''c'', cc_protocol = ''mock'', cc_endpoint = ''e'', cc_enabled = True,
     cc_timeout_ms = 100, cc_protocol_options = [(PStr ''delay_ms'', PInt 5)]\<rparr>"

definition ex_db_group :: tag_group_config where
  "ex_db_group = \<lparr>tg_id = ''g'', tg_connection_id = ''c'', tg_interval_ms = 500,
     tg_timeout_ms = 100, tg_overlap_policy = OP_Skip, tg_enabled = True\<rparr>"

definition ex_db_tag :: "string \<Rightarrow> value_type \<Rightarrow> tag_config" where
  "ex_db_tag i vt = \<lparr>tc_id = i, tc_tag_group_id = ''g'', tc_name = i, tc_address = i, tc_value_type = vt,
     tc_enabled = True, tc_metadata = []\<rparr>"

definition ex_db_tags :: "tag_config list" where
  "ex_db_tags = [ex_db_tag ''t1'' VT_Binary, ex_db_tag ''t2'' VT_Integer]"

definition ex_db :: database where
  "ex_db = fold repository_step [RC_Connections [ex_db_connection], RC_Tag_Groups [ex_db_group],
     RC_Tags ex_db_tags] empty_database"

definition ex_saved :: database where
  "ex_saved = fst (save_poll_results [ex_poll_result ''e1'', ex_poll_result ''e2''] ex_db)"

lemma ex_saved_eq:
  "save_poll_results [ex_poll_result ''e1'', ex_poll_result ''e2''] ex_db = (ex_saved, Inr 4)"
  by code_simp

theorem save_poll_results_atomic_witness:
  "persisted ex_saved (ex_poll_result ''e1'') \<and> count_tag_readings ex_saved = 4"
proof -
  have "count_tag_readings ex_db = 0" by code_simp
  then show ?thesis using save_poll_results_atomic [OF ex_saved_eq] by simp
qed

theorem save_poll_results_idempotent_witness:
  "save_poll_results [ex_poll_result ''e1'', ex_poll_result ''e2''] ex_saved = (ex_saved, Inr 0)"
proof -
  have "distinct (map fst (db_executions ex_db))" by code_simp
  then show ?thesis by (rule save_poll_results_idempotent [OF ex_saved_eq])
qed

definition ex_big_result :: "int \<Rightarrow> worker_poll_result" where
  "ex_big_result n = (ex_poll_result ''e3'')\<lparr>wp_results := [\<lparr>tr_tag_id = ''t2'', tr_quality = Q_Good,
     tr_received_at = utc_dt 60, tr_source_timestamp = None,
     tr_value = Some (no_payload VT_Integer\<lparr>tv_integer := Some n\<rparr>), tr_error_code = None,
     tr_error_message = None\<rparr>]\<rparr>"

theorem oversized_integer_rejects_batch_witness:
  "(\<exists>e. save_poll_results [ex_poll_result ''e1'', ex_big_result (2 ^ 63)] ex_db = (ex_db, Inl e)) \<and>
   (\<exists>e. save_poll_results [ex_big_result (- (2 ^ 63) - 1)] ex_db = (ex_db, Inl e))"
proof
  show "\<exists>e. save_poll_results [ex_poll_result ''e1'', ex_big_result (2 ^ 63)] ex_db = (ex_db, Inl e)"
    by (rule oversized_integer_rejects_batch [where r = "ex_big_result (2 ^ 63)" and n = "2 ^ 63"])
      (auto simp: ex_big_result_def)
  show "\<exists>e. save_poll_results [ex_big_result (- (2 ^ 63) - 1)] ex_db = (ex_db, Inl e)"
    by (rule oversized_integer_rejects_batch [where r = "ex_big_result (- (2 ^ 63) - 1)" and n = "- (2 ^ 63) - 1"])
      (auto simp: ex_big_result_def)
qed

end
