(* ===== verification/Writer.thy ===== *)
theory Writer
  imports Spool Repositories
begin

text \<open>
  src/plc_gateway/persistence/writer.py: the task that takes poll results from the reading
  queue, collects them into batches, saves a batch through the repository with retries, puts
  a batch it cannot save into the spool, and replays the spool. Repository and spool are the
  two protocols of the source, here records of operations with the locales \<open>poll_repository\<close>
  and \<open>poll_spool\<close> as their contracts, interpreted on the models of both.

  Their calls run in threads under a timeout. What becomes of a call is decided by the
  environment: it completes, fails outside the modelled code (SQLite I/O), times out, or is
  abandoned by a cancellation; the thread of an abandoned call finishes its work or never
  does (\<open>io_fate\<close>).

  Shown: an acknowledged item is in the database or in the spool unless the writer counted a
  failure of both, nothing spooled is dropped before it is in the database, the counts of the
  queue stay in step, and a writer that is shut down drains.
\<close>

section \<open>Repository and spool\<close>

record 'r repository_ops =
  ro_save :: "worker_poll_result list \<Rightarrow> 'r \<Rightarrow> 'r \<times> nat result"

record 's spool_ops =
  so_append :: "worker_poll_result list \<Rightarrow> 's \<Rightarrow> 's \<times> nat result"
  so_fetch_due :: "int \<Rightarrow> 's \<Rightarrow> 's \<times> spool_entry list result"
  so_mark_replayed :: "string list \<Rightarrow> 's \<Rightarrow> 's \<times> nat result"
  so_mark_failed :: "string list \<Rightarrow> rat \<Rightarrow> 's \<Rightarrow> 's \<times> nat result"

text \<open>What the writer relies on in a repository: a batch it accepts stays stored.\<close>

locale poll_repository =
  fixes ops :: "'r repository_ops"
    and stored :: "'r \<Rightarrow> worker_poll_result \<Rightarrow> bool"
  assumes save_stores: "ro_save ops xs r = (r', Inr n) \<Longrightarrow> x \<in> set xs \<Longrightarrow> stored r' x"
    and save_keeps: "stored r x \<Longrightarrow> stored (fst (ro_save ops xs r)) x"

text \<open>
  And in a spool: \<open>held s x\<close> says that the spool has \<open>x\<close> and gives it back. An append that
  returns leaves an entry for every execution of the batch; entries leave only when they are
  marked as replayed.
\<close>

locale poll_spool =
  fixes ops :: "'s spool_ops"
    and sound :: "'s \<Rightarrow> bool"
    and held :: "'s \<Rightarrow> worker_poll_result \<Rightarrow> bool"
  assumes append_wf: "sound s \<Longrightarrow> \<forall>x \<in> set xs. poll_result_ok x \<Longrightarrow> sound (fst (so_append ops xs s))"
    and append_has: "sound s \<Longrightarrow> \<forall>x \<in> set xs. poll_result_ok x \<Longrightarrow> so_append ops xs s = (s', Inr n) \<Longrightarrow>
      x \<in> set xs \<Longrightarrow> \<exists>y. held s' y \<and> wp_id y = wp_id x"
    and append_only: "sound s \<Longrightarrow> \<forall>x \<in> set xs. poll_result_ok x \<Longrightarrow> held (fst (so_append ops xs s)) y \<Longrightarrow>
      held s y \<or> y \<in> set xs"
    and append_keeps: "sound s \<Longrightarrow> \<forall>x \<in> set xs. poll_result_ok x \<Longrightarrow> held s y \<Longrightarrow>
      held (fst (so_append ops xs s)) y"
    and fetch_wf: "sound s \<Longrightarrow> sound (fst (so_fetch_due ops k s))"
    and fetch_same: "held (fst (so_fetch_due ops k s)) y \<longleftrightarrow> held s y"
    and fetch_held: "sound s \<Longrightarrow> so_fetch_due ops k s = (s', Inr es) \<Longrightarrow> e \<in> set es \<Longrightarrow>
      held s (se_poll_result e) \<and> wp_id (se_poll_result e) = se_execution_id e"
    and replayed_wf: "sound s \<Longrightarrow> sound (fst (so_mark_replayed ops ids s))"
    and replayed_only: "sound s \<Longrightarrow> held (fst (so_mark_replayed ops ids s)) y \<Longrightarrow> held s y"
    and replayed_keeps: "sound s \<Longrightarrow> held s y \<Longrightarrow> wp_id y \<notin> set ids \<Longrightarrow> held (fst (so_mark_replayed ops ids s)) y"
    and failed_wf: "sound s \<Longrightarrow> sound (fst (so_mark_failed ops ids d s))"
    and failed_same: "sound s \<Longrightarrow> held (fst (so_mark_failed ops ids d s)) y \<longleftrightarrow> held s y"

text \<open>The repository of the program: the database.\<close>

definition reading_repository :: "database repository_ops" where
  "reading_repository = \<lparr>ro_save = save_poll_results\<rparr>"

lemma save_batch_persists: "save_poll_results xs db = (db', Inr n) \<Longrightarrow> x \<in> set xs \<Longrightarrow> persisted db' x"
  using save_batch_transaction [of xs db db' "Inr n"] by simp

lemma save_batch_keeps:
  assumes "persisted db x"
  shows "persisted (fst (save_poll_results xs db)) x"
proof (cases "save_poll_results xs db")
  case (Pair db' res)
  then show ?thesis using save_batch_transaction [OF Pair] assms by (cases res) simp_all
qed

interpretation db: poll_repository reading_repository persisted
proof
  fix xs r r' n x
  assume "ro_save reading_repository xs r = (r', Inr n)" "x \<in> set xs"
  then show "persisted r' x" using save_batch_persists by (simp add: reading_repository_def)
next
  fix r x xs assume "persisted r x"
  then show "persisted (fst (ro_save reading_repository xs r)) x"
    using save_batch_keeps by (simp add: reading_repository_def)
qed

text \<open>
  The spool of the program: the table and the clock it reads, \<open>ss_clock n\<close> at its \<open>n\<close>-th
  reading. A call reads the clock where the source does.
\<close>

record spool_service =
  ss_spool :: spool
  ss_clock :: "nat \<Rightarrow> int"
  ss_reads :: nat

definition ss_now :: "spool_service \<Rightarrow> datetime" where
  "ss_now s = utc_dt (ss_clock s (ss_reads s))"

definition ss_read_clock :: "spool_service \<Rightarrow> spool_service" where
  "ss_read_clock s = s\<lparr>ss_reads := Suc (ss_reads s)\<rparr>"

definition service_append :: "worker_poll_result list \<Rightarrow> spool_service \<Rightarrow> spool_service \<times> nat result" where
  "service_append xs s =
     (case spool_append xs (ss_now s) (ss_spool s) of
        (sp, res) \<Rightarrow> ((if xs = [] then s else ss_read_clock s)\<lparr>ss_spool := sp\<rparr>, res))"

definition service_fetch_due :: "int \<Rightarrow> spool_service \<Rightarrow> spool_service \<times> spool_entry list result" where
  "service_fetch_due limit s =
     (if limit \<le> 0 then s else ss_read_clock s, fetch_due limit (ss_now s) (ss_spool s))"

definition service_mark_replayed :: "string list \<Rightarrow> spool_service \<Rightarrow> spool_service \<times> nat result" where
  "service_mark_replayed ids s =
     (case mark_replayed ids (ss_spool s) of (sp, res) \<Rightarrow> (s\<lparr>ss_spool := sp\<rparr>, res))"

definition service_mark_failed :: "string list \<Rightarrow> rat \<Rightarrow> spool_service \<Rightarrow> spool_service \<times> nat result" where
  "service_mark_failed ids delay s =
     (case mark_failed ids delay (ss_now s) (ss_spool s) of
        (sp, res) \<Rightarrow>
          ((if delay < 0 \<or> ids = [] then s else ss_read_clock s)\<lparr>ss_spool := sp\<rparr>, res))"

definition sqlite_spool :: "spool_service spool_ops" where
  "sqlite_spool = \<lparr>so_append = service_append, so_fetch_due = service_fetch_due,
     so_mark_replayed = service_mark_replayed, so_mark_failed = service_mark_failed\<rparr>"

definition service_ok :: "spool_service \<Rightarrow> bool" where
  "service_ok s \<longleftrightarrow> rows_ok (sp_rows (ss_spool s)) \<and> (\<forall>n. valid_wall (ss_clock s n))"

definition service_holds :: "spool_service \<Rightarrow> worker_poll_result \<Rightarrow> bool" where
  "service_holds s x \<longleftrightarrow> spool_holds (ss_spool s) x"

lemma holds_same_id: "spool_holds s x \<Longrightarrow> spool_holds s y \<Longrightarrow> wp_id x = wp_id y \<Longrightarrow> x = y"
  by (auto simp: spool_holds_def)

lemma spool_id_held:
  assumes "rows_ok (sp_rows s)" "i \<in> spool_ids s"
  shows "\<exists>y. spool_holds s y \<and> wp_id y = i"
proof -
  obtain row where row: "(i, row) \<in> set (sp_rows s)" using assms(2) by (auto simp: spool_ids_def)
  then obtain y where "poll_result_from_json (sr_payload row) = Inr y" "wp_id y = i"
    using assms(1) by (fastforce simp: rows_ok_def row_ok_def)
  then show ?thesis using row unfolding spool_holds_iff [OF assms(1)] by blast
qed

lemma append_facts:
  assumes "rows_ok (sp_rows s)" "\<forall>x \<in> set xs. poll_result_ok x" "utc_ok now" "spool_append xs now s = (s', r)"
  shows "rows_ok (sp_rows s')"
    and "r = Inr n \<Longrightarrow> x \<in> set xs \<Longrightarrow> \<exists>y. spool_holds s' y \<and> wp_id y = wp_id x"
    and "spool_holds s' y \<Longrightarrow> spool_holds s y \<or> y \<in> set xs"
    and "spool_holds s y \<Longrightarrow> spool_holds s' y"
proof -
  note t = append_transaction [OF assms]
  show ok: "rows_ok (sp_rows s')" using t by simp
  show "\<exists>y. spool_holds s' y \<and> wp_id y = wp_id x" if "r = Inr n" "x \<in> set xs"
    using t that spool_id_held [OF ok] by simp
  show "spool_holds s y \<or> y \<in> set xs" if y: "spool_holds s' y"
  proof (cases r)
    case (Inl e)
    then show ?thesis using t y by (simp add: spool_holds_def)
  next
    case (Inr k)
    obtain new where new: "sp_rows s' = sp_rows s @ new" "map fst new = map wp_id (new_items xs (sp_rows s))"
      using t Inr by auto
    obtain row where row: "(wp_id y, row) \<in> set (sp_rows s')" "poll_result_from_json (sr_payload row) = Inr y"
      using y unfolding spool_holds_iff [OF ok] by blast
    show ?thesis
    proof (cases "(wp_id y, row) \<in> set (sp_rows s)")
      case True
      then show ?thesis using row(2) spool_holds_iff [OF assms(1)] by blast
    next
      case False
      then have "wp_id y \<in> set (map fst new)" using row(1) new(1) by force
      then obtain x where x: "x \<in> set (new_items xs (sp_rows s))" "wp_id x = wp_id y"
        unfolding new(2) by auto
      have "spool_holds s' x" using t Inr x(1) by simp
      then have "x = y" using holds_same_id y x(2) by blast
      then show ?thesis using x(1) by (simp add: new_items_alt)
    qed
  qed
  show "spool_holds s' y" if y: "spool_holds s y"
  proof (cases r)
    case (Inl e)
    then show ?thesis using t y by (simp add: spool_holds_def)
  next
    case (Inr k)
    then obtain new where "sp_rows s' = sp_rows s @ new" using t by auto
    then show ?thesis using y by (auto simp: spool_holds_def map_of_append_old)
  qed
qed

lemma ss_now_ok: "service_ok s \<Longrightarrow> utc_ok (ss_now s)"
  by (simp add: service_ok_def ss_now_def)

lemma ss_read_clock_simps [simp]:
  "ss_spool (ss_read_clock s) = ss_spool s" "ss_clock (ss_read_clock s) = ss_clock s"
  by (simp_all add: ss_read_clock_def)

lemma service_append_eq:
  "ss_spool (fst (service_append xs s)) = fst (spool_append xs (ss_now s) (ss_spool s))"
  "ss_clock (fst (service_append xs s)) = ss_clock s"
  "snd (service_append xs s) = snd (spool_append xs (ss_now s) (ss_spool s))"
  by (simp_all add: service_append_def split: prod.splits)

lemma service_mark_eq:
  "ss_spool (fst (service_mark_replayed ids s)) = fst (mark_replayed ids (ss_spool s))"
  "ss_clock (fst (service_mark_replayed ids s)) = ss_clock s"
  "ss_spool (fst (service_mark_failed ids d s)) = fst (mark_failed ids d (ss_now s) (ss_spool s))"
  "ss_clock (fst (service_mark_failed ids d s)) = ss_clock s"
  by (simp_all add: service_mark_replayed_def service_mark_failed_def split: prod.splits)

interpretation sq: poll_spool sqlite_spool service_ok service_holds
proof
  fix s :: spool_service and s' xs x y n es e ids d
  note [simp] = sqlite_spool_def service_holds_def
  {
    assume ok: "service_ok s" and xs: "\<forall>x \<in> set xs. poll_result_ok x"
    have rows: "rows_ok (sp_rows (ss_spool s))" using ok by (simp add: service_ok_def)
    note facts = append_facts [OF rows xs ss_now_ok [OF ok] prod.collapse [symmetric]]
    show "service_ok (fst (so_append sqlite_spool xs s))"
      using facts(1) ok by (simp add: service_ok_def service_append_eq)
    show "\<exists>y. service_holds s' y \<and> wp_id y = wp_id x"
      if app: "so_append sqlite_spool xs s = (s', Inr n)" and x: "x \<in> set xs"
    proof -
      have "snd (spool_append xs (ss_now s) (ss_spool s)) = Inr n"
        "ss_spool s' = fst (spool_append xs (ss_now s) (ss_spool s))"
        using app service_append_eq(1,3) [of xs s] by simp_all
      then show ?thesis using facts(2) x by simp
    qed
    show "service_holds s y \<or> y \<in> set xs" if "service_holds (fst (so_append sqlite_spool xs s)) y"
      using facts(3) that by (simp add: service_append_eq)
    show "service_holds (fst (so_append sqlite_spool xs s)) y" if "service_holds s y"
      using facts(4) that by (simp add: service_append_eq)
  }
  show "service_holds (fst (so_fetch_due sqlite_spool m s)) y \<longleftrightarrow> service_holds s y" for m
    by (simp add: service_fetch_due_def)
  {
    assume ok: "service_ok s"
    have rows: "rows_ok (sp_rows (ss_spool s))" using ok by (simp add: service_ok_def)
    show "service_ok (fst (so_fetch_due sqlite_spool m s))" for m
      using ok by (simp add: service_fetch_due_def service_ok_def)
    show "service_holds s (se_poll_result e) \<and> wp_id (se_poll_result e) = se_execution_id e"
      if f: "so_fetch_due sqlite_spool m s = (s', Inr es)" "e \<in> set es" for m
    proof -
      have m: "0 < m" "fetch_due m (ss_now s) (ss_spool s) = Inr es"
        using f(1) by (auto simp: service_fetch_due_def fetch_due_def value_error_def split: if_splits)
      show ?thesis using fetch_due_entries [OF rows ss_now_ok [OF ok] m(1)] m(2) f(2) by auto
    qed
    note rep = mark_replayed_rows [OF rows prod.collapse [symmetric], of ids]
    show "service_ok (fst (so_mark_replayed sqlite_spool ids s))"
      using rep ok by (simp add: service_ok_def service_mark_eq)
    show "service_holds s y" if "service_holds (fst (so_mark_replayed sqlite_spool ids s)) y"
      using rep that by (simp add: service_mark_eq)
    show "service_holds (fst (so_mark_replayed sqlite_spool ids s)) y"
      if "service_holds s y" "wp_id y \<notin> set ids"
      using rep that by (simp add: service_mark_eq)
    note fail = mark_failed_rows_ok [OF rows prod.collapse [symmetric], of ids d]
    show "service_ok (fst (so_mark_failed sqlite_spool ids d s))"
      using fail ok by (simp add: service_ok_def service_mark_eq)
    show "service_holds (fst (so_mark_failed sqlite_spool ids d s)) y \<longleftrightarrow> service_holds s y"
      using fail by (simp add: service_mark_eq)
  }
qed

section \<open>The writer\<close>

text \<open>
  The fate of the \<open>n\<close>-th threaded call: it completes, fails without an effect, times out or is cancelled; the flag says whether the
  abandoned thread still does its work. \<open>dv_sleep\<close> is the outcome of a retry sleep, and
  \<open>dv_wait_cancelled n\<close> says whether the \<open>n\<close>-th wait for an item is cancelled.
\<close>

datatype io_fate = IO_Completes | IO_Fails pyexn | IO_Times_Out bool | IO_Cancelled bool

record ('r, 's) writer_env =
  dv_repository :: "'r repository_ops"
  dv_spool :: "'s spool_ops"
  dv_io :: "nat \<Rightarrow> io_fate"
  dv_sleep :: "nat \<Rightarrow> rat \<Rightarrow> unit outcome"
  dv_wait_cancelled :: "nat \<Rightarrow> bool"

definition in_thread :: "io_fate \<Rightarrow> ('s \<Rightarrow> 's \<times> 'a result) \<Rightarrow> 's \<Rightarrow> 's \<times> 'a outcome" where
  "in_thread fate f s =
     (case fate of
        IO_Completes \<Rightarrow> (case f s of (s', r) \<Rightarrow> (s', outcome_of r))
      | IO_Fails e \<Rightarrow> (s, Raise e)
      | IO_Times_Out b \<Rightarrow> (if b then fst (f s) else s, Raise (exn PyTimeoutError ''''))
      | IO_Cancelled b \<Rightarrow> (if b then fst (f s) else s, Cancelled))"

text \<open>
  The state. \<open>dw_orphan_gets\<close> counts the tasks waiting on \<^verbatim>\<open>queue.get()\<close> that a cancelled
  wait left behind.
\<close>

record ('r, 's) writer =
  dw_queue :: "worker_poll_result reading_queue"
  dw_repository :: 'r
  dw_spool :: "'s option"
  dw_batch_size :: int
  dw_policy :: retry_policy
  dw_replay_batch_size :: int
  dw_spool_retry_delay_s :: rat
  dw_stop_requested :: bool
  dw_stopped :: bool
  dw_running :: bool
  dw_pending_batch :: "worker_poll_result list"
  dw_successful_batches :: nat
  dw_failed_batches :: nat
  dw_successful_poll_results :: nat
  dw_failed_poll_results :: nat
  dw_inserted_readings :: nat
  dw_retry_attempts :: nat
  dw_spooled_poll_results :: nat
  dw_spool_replayed :: nat
  dw_spool_failed_replays :: nat
  dw_spool_full_failures :: nat
  dw_last_error :: "string option"
  dw_ios :: nat
  dw_sleeps :: nat
  dw_waits :: nat
  dw_orphan_gets :: nat

definition retry_policy_from_legacy_settings :: "int \<Rightarrow> rat \<Rightarrow> retry_policy result" where
  "retry_policy_from_legacy_settings max_retries retry_delay_s =
     (let retry_delays = max max_retries 1;
          max_delay_s = retry_delay_s * 2 ^ nat (retry_delays - 1)
      in retry_policy_new (max_retries + 1) retry_delay_s max_delay_s 2
           (if retry_delay_s > 0 then 1 / 5 else 0))"

record writer_settings =
  ws_batch_size :: int
  ws_flush_interval_s :: rat
  ws_storage_timeout_s :: rat
  ws_max_retries :: int
  ws_retry_delay_s :: rat
  ws_retry_policy :: "retry_policy option"
  ws_spool_replay_batch_size :: "int option"
  ws_spool_retry_delay_s :: rat
  ws_spool_timeout_s :: "rat option"

definition writer_new ::
  "worker_poll_result reading_queue \<Rightarrow> 'r \<Rightarrow> 's option \<Rightarrow> writer_settings \<Rightarrow> ('r, 's) writer result" where
  "writer_new queue repository spool c =
     (if ws_batch_size c \<le> 0 then value_error ''batch_size must be positive.''
      else if ws_flush_interval_s c \<le> 0 then value_error ''flush_interval_s must be positive.''
      else if ws_storage_timeout_s c \<le> 0 then value_error ''storage_timeout_s must be positive.''
      else if ws_max_retries c < 0 then value_error ''max_retries must be non-negative.''
      else if ws_retry_delay_s c < 0 then value_error ''retry_delay_s must be non-negative.''
      else if (case ws_spool_replay_batch_size c of None \<Rightarrow> False | Some n \<Rightarrow> n \<le> 0)
        then value_error ''spool_replay_batch_size must be positive.''
      else if ws_spool_retry_delay_s c < 0 then value_error ''spool_retry_delay_s must be non-negative.''
      else if (case ws_spool_timeout_s c of None \<Rightarrow> False | Some t \<Rightarrow> t \<le> 0)
        then value_error ''spool_timeout_s must be positive.''
      else
        rbind (case ws_retry_policy c of
                 Some p \<Rightarrow> Inr p
               | None \<Rightarrow> retry_policy_from_legacy_settings (ws_max_retries c) (ws_retry_delay_s c)) (\<lambda>policy.
          Inr \<lparr>dw_queue = queue, dw_repository = repository, dw_spool = spool,
               dw_batch_size = ws_batch_size c, dw_policy = policy,
               dw_replay_batch_size = (case ws_spool_replay_batch_size c of
                   None \<Rightarrow> ws_batch_size c | Some n \<Rightarrow> n),
               dw_spool_retry_delay_s = ws_spool_retry_delay_s c,
               dw_stop_requested = False, dw_stopped = True, dw_running = False,
               dw_pending_batch = [], dw_successful_batches = 0, dw_failed_batches = 0,
               dw_successful_poll_results = 0, dw_failed_poll_results = 0,
               dw_inserted_readings = 0, dw_retry_attempts = 0, dw_spooled_poll_results = 0,
               dw_spool_replayed = 0, dw_spool_failed_replays = 0, dw_spool_full_failures = 0,
               dw_last_error = None, dw_ios = 0, dw_sleeps = 0, dw_waits = 0, dw_orphan_gets = 0\<rparr>))"

section \<open>Saving and spooling a batch\<close>

definition repository_call ::
  "('r, 's) writer_env \<Rightarrow> ('r \<Rightarrow> 'r \<times> 'a result) \<Rightarrow> ('r, 's) writer \<Rightarrow> ('r, 's) writer \<times> 'a outcome" where
  "repository_call env f w =
     (case in_thread (dv_io env (dw_ios w)) f (dw_repository w) of
        (r, out) \<Rightarrow> (w\<lparr>dw_repository := r, dw_ios := Suc (dw_ios w)\<rparr>, out))"

definition spool_call ::
  "('r, 's) writer_env \<Rightarrow> ('s \<Rightarrow> 's \<times> 'a result) \<Rightarrow> 's \<Rightarrow> ('r, 's) writer \<Rightarrow> ('r, 's) writer \<times> 'a outcome" where
  "spool_call env f s w =
     (case in_thread (dv_io env (dw_ios w)) f s of
        (s', out) \<Rightarrow> (w\<lparr>dw_spool := Some s', dw_ios := Suc (dw_ios w)\<rparr>, out))"

definition save_batch ::
  "('r, 's) writer_env \<Rightarrow> worker_poll_result list \<Rightarrow> ('r, 's) writer \<Rightarrow> ('r, 's) writer \<times> nat outcome" where
  "save_batch env batch = repository_call env (ro_save (dv_repository env) batch)"

definition writer_sleep :: "('r, 's) writer_env \<Rightarrow> rat \<Rightarrow> ('r, 's) writer \<Rightarrow> ('r, 's) writer \<times> unit outcome" where
  "writer_sleep env d w = (w\<lparr>dw_sleeps := Suc (dw_sleeps w)\<rparr>, dv_sleep env (dw_sleeps w) d)"

definition record_retry :: "pyexn \<Rightarrow> rat \<Rightarrow> nat \<Rightarrow> ('r, 's) writer \<Rightarrow> ('r, 's) writer" where
  "record_retry e d n w = w\<lparr>dw_retry_attempts := Suc (dw_retry_attempts w)\<rparr>"

definition persist_env :: "('r, 's) writer_env \<Rightarrow> worker_poll_result list \<Rightarrow> (('r, 's) writer, nat) retry_env" where
  "persist_env env batch =
     \<lparr>re_operation = save_batch env batch, re_sleep = writer_sleep env, re_random = default_random,
      re_on_retry = record_retry\<rparr>"

definition persist_batch ::
  "('r, 's) writer_env \<Rightarrow> worker_poll_result list \<Rightarrow> ('r, 's) writer \<Rightarrow> ('r, 's) writer \<times> bool outcome" where
  "persist_batch env batch w =
     (case run_with_retry (persist_env env batch) (dw_policy w) w of
        (w1, Ret (inserted, _)) \<Rightarrow>
          (w1\<lparr>dw_inserted_readings := dw_inserted_readings w1 + inserted\<rparr>, Ret True)
      | (w1, Raise e) \<Rightarrow> (w1\<lparr>dw_last_error := Some (error_text e)\<rparr>, Ret False)
      | (w1, Cancelled) \<Rightarrow> (w1, Cancelled))"

definition spool_batch ::
  "('r, 's) writer_env \<Rightarrow> worker_poll_result list \<Rightarrow> ('r, 's) writer \<Rightarrow> ('r, 's) writer \<times> bool outcome" where
  "spool_batch env batch w =
     (case dw_spool w of
        None \<Rightarrow> (w, Ret False)
      | Some s \<Rightarrow>
          (case spool_call env (so_append (dv_spool env) batch) s w of
             (w1, Ret inserted) \<Rightarrow>
               (w1\<lparr>dw_spooled_poll_results := dw_spooled_poll_results w1 + inserted\<rparr>, Ret True)
           | (w1, Raise e) \<Rightarrow>
               (w1\<lparr>dw_last_error := Some (error_text e),
                   dw_spool_full_failures := Suc (dw_spool_full_failures w1)\<rparr>, Ret False)
           | (w1, Cancelled) \<Rightarrow> (w1, Cancelled)))"

text \<open>\<^verbatim>\<open>_ack_batch\<close>: the items leave the batch, then the queue is told one by one.\<close>

fun tasks_done :: "nat \<Rightarrow> 'a reading_queue \<Rightarrow> 'a reading_queue \<times> unit outcome" where
  "tasks_done 0 q = (q, Ret ())"
| "tasks_done (Suc n) q =
     (case rq_task_done q of Inl e \<Rightarrow> (q, Raise e) | Inr q' \<Rightarrow> tasks_done n q')"

definition ack_batch :: "nat \<Rightarrow> ('r, 's) writer \<Rightarrow> ('r, 's) writer \<times> unit outcome" where
  "ack_batch n w =
     (case tasks_done n (dw_queue w) of
        (q, out) \<Rightarrow> (w\<lparr>dw_pending_batch := drop n (dw_pending_batch w), dw_queue := q\<rparr>, out))"

definition flush_pending :: "('r, 's) writer_env \<Rightarrow> ('r, 's) writer \<Rightarrow> ('r, 's) writer \<times> unit outcome" where
  "flush_pending env w =
     (let batch = dw_pending_batch w
      in if batch = [] then (w, Ret ())
         else case persist_batch env batch w of
             (w1, Cancelled) \<Rightarrow> (w1, Cancelled)
           | (w1, Raise e) \<Rightarrow> (w1, Raise e)
           | (w1, Ret True) \<Rightarrow>
               ack_batch (length batch)
                 (w1\<lparr>dw_successful_batches := Suc (dw_successful_batches w1),
                     dw_successful_poll_results := dw_successful_poll_results w1 + length batch,
                     dw_last_error := None\<rparr>)
           | (w1, Ret False) \<Rightarrow>
               (case spool_batch env batch w1 of
                  (w2, Ret _) \<Rightarrow>
                    ack_batch (length batch)
                      (w2\<lparr>dw_failed_batches := Suc (dw_failed_batches w2),
                          dw_failed_poll_results := dw_failed_poll_results w2 + length batch\<rparr>)
                | (w2, Raise e) \<Rightarrow> (w2, Raise e)
                | (w2, Cancelled) \<Rightarrow> (w2, Cancelled)))"

section \<open>Replaying the spool\<close>

definition settle_replayed ::
  "('r, 's) writer_env \<Rightarrow> string list \<Rightarrow> nat \<Rightarrow> ('r, 's) writer \<Rightarrow> ('r, 's) writer \<times> bool outcome" where
  "settle_replayed env ids n w =
     (case dw_spool w of
        None \<Rightarrow> (w, Ret True)
      | Some s \<Rightarrow>
          (case spool_call env (so_mark_replayed (dv_spool env) ids) s w of
             (w1, Ret _) \<Rightarrow> (w1\<lparr>dw_spool_replayed := dw_spool_replayed w1 + n\<rparr>, Ret True)
           | (w1, Raise e) \<Rightarrow> (w1\<lparr>dw_last_error := Some (error_text e)\<rparr>, Ret True)
           | (w1, Cancelled) \<Rightarrow> (w1, Cancelled)))"

definition settle_failed ::
  "('r, 's) writer_env \<Rightarrow> string list \<Rightarrow> nat \<Rightarrow> ('r, 's) writer \<Rightarrow> ('r, 's) writer \<times> bool outcome" where
  "settle_failed env ids n w =
     (case dw_spool w of
        None \<Rightarrow> (w, Ret True)
      | Some s \<Rightarrow>
          (case spool_call env (so_mark_failed (dv_spool env) ids (dw_spool_retry_delay_s w)) s w of
             (w1, Ret _) \<Rightarrow> (w1\<lparr>dw_spool_failed_replays := dw_spool_failed_replays w1 + n\<rparr>, Ret True)
           | (w1, Raise e) \<Rightarrow> (w1\<lparr>dw_last_error := Some (error_text e)\<rparr>, Ret True)
           | (w1, Cancelled) \<Rightarrow> (w1, Cancelled)))"

definition replay_spool_once :: "('r, 's) writer_env \<Rightarrow> ('r, 's) writer \<Rightarrow> ('r, 's) writer \<times> bool outcome" where
  "replay_spool_once env w =
     (case dw_spool w of
        None \<Rightarrow> (w, Ret False)
      | Some s \<Rightarrow>
          (case spool_call env (so_fetch_due (dv_spool env) (dw_replay_batch_size w)) s w of
             (w1, Cancelled) \<Rightarrow> (w1, Cancelled)
           | (w1, Raise e) \<Rightarrow> (w1\<lparr>dw_last_error := Some (error_text e)\<rparr>, Ret False)
           | (w1, Ret []) \<Rightarrow> (w1, Ret False)
           | (w1, Ret (e # es)) \<Rightarrow>
               (let poll_results = map se_poll_result (e # es);
                    ids = map se_execution_id (e # es)
                in case persist_batch env poll_results w1 of
                     (w2, Cancelled) \<Rightarrow> (w2, Cancelled)
                   | (w2, Raise e') \<Rightarrow> (w2, Raise e')
                   | (w2, Ret True) \<Rightarrow> settle_replayed env ids (length poll_results) w2
                   | (w2, Ret False) \<Rightarrow> settle_failed env ids (length poll_results) w2)))"

section \<open>The loop\<close>

definition should_stop :: "('r, 's) writer \<Rightarrow> bool" where
  "should_stop w \<longleftrightarrow> dw_stop_requested w \<and> rq_size (dw_queue w) = 0 \<and> dw_pending_batch w = []"

text \<open>
  \<^verbatim>\<open>_wait_for_item_or_stop\<close>: an item if there is one; otherwise the wait ends with the stop
  request or the flush interval. A cancelled wait leaves its \<^verbatim>\<open>get\<close> task running.
\<close>

definition wait_for_item ::
  "('r, 's) writer_env \<Rightarrow> ('r, 's) writer \<Rightarrow> ('r, 's) writer \<times> worker_poll_result option outcome" where
  "wait_for_item env w =
     (let w1 = w\<lparr>dw_waits := Suc (dw_waits w)\<rparr>
      in if dv_wait_cancelled env (dw_waits w)
         then (w1\<lparr>dw_orphan_gets := Suc (dw_orphan_gets w1)\<rparr>, Cancelled)
         else case rq_get (dw_queue w1) of
             None \<Rightarrow> (w1, Ret None)
           | Some (q, x) \<Rightarrow> (w1\<lparr>dw_queue := q\<rparr>, Ret (Some x)))"

definition consume :: "('r, 's) writer_env \<Rightarrow> ('r, 's) writer \<Rightarrow> ('r, 's) writer \<times> unit outcome" where
  "consume env w =
     (if dw_batch_size w \<le> int (length (dw_pending_batch w)) then flush_pending env w
      else if dw_stop_requested w \<and> rq_size (dw_queue w) = 0 then flush_pending env w
      else case wait_for_item env w of
          (w1, Cancelled) \<Rightarrow> (w1, Cancelled)
        | (w1, Raise e) \<Rightarrow> (w1, Raise e)
        | (w1, Ret None) \<Rightarrow> flush_pending env w1
        | (w1, Ret (Some x)) \<Rightarrow>
            (let w2 = w1\<lparr>dw_pending_batch := dw_pending_batch w1 @ [x]\<rparr>
             in if dw_batch_size w2 \<le> int (length (dw_pending_batch w2))
                then flush_pending env w2 else (w2, Ret ())))"

definition consume_or_flush :: "('r, 's) writer_env \<Rightarrow> ('r, 's) writer \<Rightarrow> ('r, 's) writer \<times> unit outcome" where
  "consume_or_flush env w =
     (if dw_pending_batch w = [] then
        (case replay_spool_once env w of
           (w1, Ret True) \<Rightarrow> (w1, Ret ())
         | (w1, Ret False) \<Rightarrow> consume env w1
         | (w1, Raise e) \<Rightarrow> (w1, Raise e)
         | (w1, Cancelled) \<Rightarrow> (w1, Cancelled))
      else consume env w)"

definition start_run :: "('r, 's) writer \<Rightarrow> ('r, 's) writer \<times> unit outcome" where
  "start_run w =
     (if dw_running w then (w, Raise (exn PyRuntimeError ''DatabaseWriter is already running.''))
      else (w\<lparr>dw_running := True, dw_stopped := False\<rparr>, Ret ()))"

text \<open>The \<^verbatim>\<open>finally\<close> block: the flags are set only if its flush returns.\<close>

definition final_flush :: "('r, 's) writer_env \<Rightarrow> unit outcome \<Rightarrow> ('r, 's) writer \<Rightarrow> ('r, 's) writer \<times> unit outcome" where
  "final_flush env out w =
     (case flush_pending env w of
        (w1, Ret _) \<Rightarrow> (w1\<lparr>dw_running := False, dw_stopped := True\<rparr>, out)
      | (w1, Raise e) \<Rightarrow> (w1, Raise e)
      | (w1, Cancelled) \<Rightarrow> (w1, Cancelled))"

definition leave_run :: "('r, 's) writer_env \<Rightarrow> unit outcome \<Rightarrow> ('r, 's) writer \<Rightarrow> ('r, 's) writer \<times> unit outcome" where
  "leave_run env out w =
     (case out of
        Cancelled \<Rightarrow>
          (case flush_pending env w of
             (w1, Ret _) \<Rightarrow> final_flush env Cancelled w1
           | (w1, Raise e) \<Rightarrow> final_flush env (Raise e) w1
           | (w1, Cancelled) \<Rightarrow> final_flush env Cancelled w1)
      | _ \<Rightarrow> final_flush env out w)"

text \<open>One turn of the loop of \<^verbatim>\<open>run\<close>: None when it goes on, otherwise how \<^verbatim>\<open>run\<close> ends.\<close>

definition run_turn :: "('r, 's) writer_env \<Rightarrow> ('r, 's) writer \<Rightarrow> ('r, 's) writer \<times> unit outcome option" where
  "run_turn env w =
     (if should_stop w then (case leave_run env (Ret ()) w of (w1, out) \<Rightarrow> (w1, Some out))
      else case consume_or_flush env w of
          (w1, Ret _) \<Rightarrow> (w1, None)
        | (w1, Raise e) \<Rightarrow> (case leave_run env (Raise e) w1 of (w2, out) \<Rightarrow> (w2, Some out))
        | (w1, Cancelled) \<Rightarrow> (case leave_run env Cancelled w1 of (w2, out) \<Rightarrow> (w2, Some out)))"

text \<open>
  The loop, with a bound on its turns: None if \<^verbatim>\<open>run\<close> is still going after them.
\<close>

fun run_loop :: "nat \<Rightarrow> ('r, 's) writer_env \<Rightarrow> ('r, 's) writer \<Rightarrow> ('r, 's) writer \<times> unit outcome option" where
  "run_loop 0 env w = (w, None)"
| "run_loop (Suc n) env w =
     (case run_turn env w of (w1, None) \<Rightarrow> run_loop n env w1 | (w1, Some out) \<Rightarrow> (w1, Some out))"

definition writer_run :: "nat \<Rightarrow> ('r, 's) writer_env \<Rightarrow> ('r, 's) writer \<Rightarrow> ('r, 's) writer \<times> unit outcome option" where
  "writer_run n env w =
     (case start_run w of
        (w1, Ret _) \<Rightarrow> run_loop n env w1
      | (w1, out) \<Rightarrow> (w1, Some out))"

definition writer_stop :: "('r, 's) writer \<Rightarrow> ('r, 's) writer" where
  "writer_stop w = w\<lparr>dw_stop_requested := True\<rparr>"

record writer_shutdown =
  wh_drained :: bool
  wh_pending_queue_items :: nat
  wh_pending_batch_items :: nat

text \<open>The report of \<^verbatim>\<open>shutdown\<close> once its wait has ended, in time or not.\<close>

definition shutdown_report :: "bool \<Rightarrow> ('r, 's) writer \<Rightarrow> writer_shutdown" where
  "shutdown_report timed_out w =
     \<lparr>wh_drained = (\<not> timed_out \<and> rq_size (dw_queue w) = 0 \<and> dw_pending_batch w = []),
      wh_pending_queue_items = rq_size (dw_queue w), wh_pending_batch_items = length (dw_pending_batch w)\<rparr>"

definition begin_shutdown :: "rat \<Rightarrow> ('r, 's) writer \<Rightarrow> ('r, 's) writer \<times> unit result" where
  "begin_shutdown timeout_s w =
     (if timeout_s \<le> 0 then (w, value_error ''timeout_s must be positive.'') else (writer_stop w, Inr ()))"

text \<open>
  \<^verbatim>\<open>shutdown\<close>: stop, then wait for the end of the run. The task of the writer makes at most \<open>turns\<close>
  turns within the time limit; the wait has timed out if the run has not ended by then.
\<close>

definition shutdown_writer ::
  "nat \<Rightarrow> ('r, 's) writer_env \<Rightarrow> rat \<Rightarrow> ('r, 's) writer \<Rightarrow> ('r, 's) writer \<times> writer_shutdown outcome" where
  "shutdown_writer turns env timeout_s w =
     (case begin_shutdown timeout_s w of
        (w1, Inl e) \<Rightarrow> (w1, Raise e)
      | (w1, Inr _) \<Rightarrow>
          (let w2 = (if dw_stopped w1 then w1 else fst (run_loop turns env w1))
           in (w2, Ret (shutdown_report (\<not> dw_stopped w2) w2))))"

record writer_metrics =
  wt_running :: bool
  wt_successful_batches :: nat
  wt_failed_batches :: nat
  wt_successful_poll_results :: nat
  wt_failed_poll_results :: nat
  wt_inserted_readings :: nat
  wt_retry_attempts :: nat
  wt_pending_batch_size :: nat
  wt_spooled_poll_results :: nat
  wt_spool_replayed_poll_results :: nat
  wt_spool_failed_replays :: nat
  wt_spool_full_failures :: nat
  wt_last_error :: "string option"

definition writer_metrics_of :: "('r, 's) writer \<Rightarrow> writer_metrics" where
  "writer_metrics_of w =
     \<lparr>wt_running = dw_running w, wt_successful_batches = dw_successful_batches w,
      wt_failed_batches = dw_failed_batches w,
      wt_successful_poll_results = dw_successful_poll_results w,
      wt_failed_poll_results = dw_failed_poll_results w,
      wt_inserted_readings = dw_inserted_readings w, wt_retry_attempts = dw_retry_attempts w,
      wt_pending_batch_size = length (dw_pending_batch w),
      wt_spooled_poll_results = dw_spooled_poll_results w,
      wt_spool_replayed_poll_results = dw_spool_replayed w,
      wt_spool_failed_replays = dw_spool_failed_replays w,
      wt_spool_full_failures = dw_spool_full_failures w, wt_last_error = dw_last_error w\<rparr>"

lemma legacy_policy_valid:
  assumes "0 \<le> n" "0 \<le> d"
  shows "\<exists>p. retry_policy_from_legacy_settings n d = Inr p"
proof -
  have "d * 1 \<le> d * 2 ^ nat (max n 1 - 1)" by (rule mult_left_mono) (use assms in simp_all)
  then show ?thesis
    using assms by (auto simp: retry_policy_from_legacy_settings_def retry_policy_new_def Let_def)
qed

interpretation persist_count: retry_counter "persist_env env batch" dw_retry_attempts for env batch
  by unfold_locales
    (simp_all add: persist_env_def save_batch_def repository_call_def writer_sleep_def record_retry_def
      split: prod.splits)

section \<open>What the operations leave alone\<close>

text \<open>The queue, the batch, the settings and the flags; there is a spool as before.\<close>

definition same_work :: "('r, 's) writer \<Rightarrow> ('r, 's) writer \<Rightarrow> bool" where
  "same_work w v \<longleftrightarrow> dw_queue v = dw_queue w \<and> dw_pending_batch v = dw_pending_batch w \<and>
     dw_batch_size v = dw_batch_size w \<and> dw_policy v = dw_policy w \<and>
     dw_replay_batch_size v = dw_replay_batch_size w \<and>
     dw_spool_retry_delay_s v = dw_spool_retry_delay_s w \<and>
     dw_stop_requested v = dw_stop_requested w \<and> dw_stopped v = dw_stopped w \<and>
     dw_running v = dw_running w \<and> dw_orphan_gets v = dw_orphan_gets w \<and>
     (dw_spool v = None \<longleftrightarrow> dw_spool w = None)"

lemma same_work_refl: "same_work w w"
  by (simp add: same_work_def)

lemma same_work_trans: "same_work u v \<Longrightarrow> same_work v w \<Longrightarrow> same_work u w"
  by (auto simp: same_work_def)

text \<open>Losses the writer has counted: refused appends, or without a spool failed results.\<close>

definition losses :: "('r, 's) writer \<Rightarrow> nat" where
  "losses w = (if dw_spool w = None then dw_failed_poll_results w else dw_spool_full_failures w)"

definition only_saved :: "('r \<Rightarrow> worker_poll_result \<Rightarrow> bool) \<Rightarrow> ('r, 's) writer \<Rightarrow> ('r, 's) writer \<Rightarrow> bool" where
  "only_saved stored w v \<longleftrightarrow> same_work w v \<and> dw_spool v = dw_spool w \<and>
     dw_spool_full_failures v = dw_spool_full_failures w \<and>
     dw_failed_poll_results v = dw_failed_poll_results w \<and>
     (\<forall>x. stored (dw_repository w) x \<longrightarrow> stored (dw_repository v) x)"

lemma only_saved_refl: "only_saved stored w w"
  by (simp add: only_saved_def same_work_refl)

lemma only_saved_trans: "only_saved stored u v \<Longrightarrow> only_saved stored v w \<Longrightarrow> only_saved stored u w"
  using same_work_trans [of u v w] by (auto simp: only_saved_def)

lemma only_saved_simps [simp]:
  "only_saved stored w (v\<lparr>dw_inserted_readings := n\<rparr>) \<longleftrightarrow> only_saved stored w v"
  "only_saved stored w (v\<lparr>dw_last_error := m\<rparr>) \<longleftrightarrow> only_saved stored w v"
  by (simp_all add: only_saved_def same_work_def)

lemma in_thread_cases:
  assumes "in_thread fate f s = (s', out)"
  obtains x where "f s = (s', Inr x)" "out = Ret x" | e where "s' = fst (f s)" "out = Raise e"
    | e where "s' = s" "out = Raise e" | "s' = fst (f s)" "out = Cancelled" | "s' = s" "out = Cancelled"
proof (cases fate)
  case IO_Completes
  then have o: "s' = fst (f s)" "out = outcome_of (snd (f s))" using assms by (auto simp: in_thread_def split: prod.splits)
  show thesis
  proof (cases "snd (f s)")
    case (Inl e)
    then show thesis using o that(2) by simp
  next
    case (Inr x)
    then have "f s = (s', Inr x)" using o(1) by (simp add: prod_eq_iff)
    then show thesis using o Inr that(1) by simp
  qed
qed (use assms that in \<open>auto simp: in_thread_def split: if_splits\<close>)

locale durable_writer = repo: poll_repository "dv_repository env" stored
  + sp: poll_spool "dv_spool env" sound held
  for env :: "('r, 's) writer_env" and stored :: "'r \<Rightarrow> worker_poll_result \<Rightarrow> bool"
    and sound :: "'s \<Rightarrow> bool" and held :: "'s \<Rightarrow> worker_poll_result \<Rightarrow> bool"
begin

lemma save_batch_saved:
  assumes "save_batch env xs w = (v, out)"
  shows "only_saved stored w v \<and> (\<forall>n. out = Ret n \<longrightarrow> (\<forall>x \<in> set xs. stored (dw_repository v) x))"
proof -
  obtain r where r: "in_thread (dv_io env (dw_ios w)) (ro_save (dv_repository env) xs) (dw_repository w) = (r, out)"
    "v = w\<lparr>dw_repository := r, dw_ios := Suc (dw_ios w)\<rparr>"
    using assms by (auto simp: save_batch_def repository_call_def split: prod.splits)
  have "(\<forall>x. stored (dw_repository w) x \<longrightarrow> stored r x) \<and> (\<forall>n. out = Ret n \<longrightarrow> (\<forall>x \<in> set xs. stored r x))"
    using r(1)
  proof (cases rule: in_thread_cases)
    case (1 n)
    then show ?thesis using repo.save_stores [OF 1(1)] repo.save_keeps [of "dw_repository w" _ xs] by simp
  qed (use repo.save_keeps in auto)
  then show ?thesis using r(2) by (simp add: only_saved_def same_work_def)
qed

lemma retry_operation_saved:
  "re_operation (persist_env env xs) s = (t, out) \<Longrightarrow>
     only_saved stored s t \<and> (\<forall>n. out = Ret n \<longrightarrow> (\<forall>x \<in> set xs. stored (dw_repository t) x))"
  using save_batch_saved by (simp add: persist_env_def)

lemma retry_sleep_saved:
  "re_sleep (persist_env env xs) d (re_on_retry (persist_env env xs) e d n s) = (t, out) \<Longrightarrow> only_saved stored s t"
  by (auto simp: persist_env_def writer_sleep_def record_retry_def only_saved_def same_work_def)

lemma retry_turn_saved:
  assumes "re_operation (persist_env env xs) s = (s1, out)"
    and "re_sleep (persist_env env xs) d (re_on_retry (persist_env env xs) e d n s1) = (s2, out')"
  shows "only_saved stored s s2"
  using only_saved_trans retry_operation_saved [OF assms(1)] retry_sleep_saved [OF assms(2)] by blast

lemma persist_loop_saved:
  "only_saved stored w (fst (retry_loop (persist_env env xs) p n r w)) \<and>
   (\<forall>v. snd (retry_loop (persist_env env xs) p n r w) = Ret v \<longrightarrow>
      (\<forall>x \<in> set xs. stored (dw_repository (fst (retry_loop (persist_env env xs) p n r w))) x))"
proof (rule retry_loop_rule [where P = "\<lambda>n r w res. only_saved stored w (fst res) \<and>
     (\<forall>v. snd res = Ret v \<longrightarrow> (\<forall>x \<in> set xs. stored (dw_repository (fst res)) x))"], goal_cases)
  case (1 n r s)
  then show ?case by (simp add: only_saved_refl)
next
  case (2 n r s s1 x)
  then show ?case using retry_operation_saved by fastforce
next
  case (3 n r s s1)
  then show ?case using retry_operation_saved by fastforce
next
  case (4 n r s s1 e)
  then show ?case using retry_operation_saved by fastforce
next
  case (5 n r s s1 e e')
  then show ?case using retry_operation_saved by fastforce
next
  case (6 n r s s1 e d s2 e')
  then show ?case using retry_turn_saved by fastforce
next
  case (7 n r s s1 e d s2)
  then show ?case using retry_turn_saved by fastforce
next
  case (8 n r s s1 e d s2 u res)
  have "only_saved stored s s2" using retry_turn_saved 8(2,5) by blast
  then show ?case using 8(6) only_saved_trans by blast
qed

lemma persist_batch_saved:
  assumes "persist_batch env xs w = (v, out)"
  shows "only_saved stored w v" "out = Ret True \<Longrightarrow> x \<in> set xs \<Longrightarrow> stored (dw_repository v) x"
    "out \<noteq> Raise e"
proof -
  obtain v1 res where r: "run_with_retry (persist_env env xs) (dw_policy w) w = (v1, res)" by fastforce
  have s: "only_saved stored w v1 \<and> (\<forall>n. res = Ret n \<longrightarrow> (\<forall>x \<in> set xs. stored (dw_repository v1) x))"
    using persist_loop_saved [of w xs "dw_policy w" 0 0] r by (simp add: run_with_retry_def)
  have "only_saved stored w v \<and> (out = Ret True \<longrightarrow> (\<forall>x \<in> set xs. stored (dw_repository v) x)) \<and> out \<noteq> Raise e"
  proof (cases res)
    case (Ret p)
    obtain n o' where "p = (n, o')" by fastforce
    then have "v = v1\<lparr>dw_inserted_readings := dw_inserted_readings v1 + n\<rparr>" "out = Ret True"
      using assms r Ret by (simp_all add: persist_batch_def)
    then show ?thesis using s Ret by simp
  next
    case (Raise e')
    then have "v = v1\<lparr>dw_last_error := Some (error_text e')\<rparr>" "out = Ret False"
      using assms r by (simp_all add: persist_batch_def)
    then show ?thesis using s by simp
  next
    case Cancelled
    then have "v = v1" "out = Cancelled" using assms r by (simp_all add: persist_batch_def)
    then show ?thesis using s by simp
  qed
  then show "only_saved stored w v" "out = Ret True \<Longrightarrow> x \<in> set xs \<Longrightarrow> stored (dw_repository v) x" "out \<noteq> Raise e"
    by blast+
qed

end

section \<open>No item is lost silently\<close>

text \<open>
  The items are taken from a set \<open>U\<close> of validated poll results in which the execution id
  determines the poll result. An item is secured when the repository has stored it or the
  spool holds it; the work of the writer is what is queued or in the batch.
\<close>

definition distinct_executions :: "worker_poll_result set \<Rightarrow> bool" where
  "distinct_executions U \<longleftrightarrow> (\<forall>x \<in> U. poll_result_ok x) \<and> (\<forall>x \<in> U. \<forall>y \<in> U. wp_id x = wp_id y \<longrightarrow> x = y)"

definition secured ::
  "('r \<Rightarrow> worker_poll_result \<Rightarrow> bool) \<Rightarrow> ('s \<Rightarrow> worker_poll_result \<Rightarrow> bool) \<Rightarrow> ('r, 's) writer
     \<Rightarrow> worker_poll_result \<Rightarrow> bool" where
  "secured stored held w x \<longleftrightarrow>
     stored (dw_repository w) x \<or> (case dw_spool w of None \<Rightarrow> False | Some s \<Rightarrow> held s x)"

definition work_of :: "('r, 's) writer \<Rightarrow> worker_poll_result set" where
  "work_of w = set (rq_items (dw_queue w)) \<union> set (dw_pending_batch w)"

definition confined ::
  "('s \<Rightarrow> bool) \<Rightarrow> ('s \<Rightarrow> worker_poll_result \<Rightarrow> bool) \<Rightarrow> worker_poll_result set \<Rightarrow> ('r, 's) writer \<Rightarrow> bool" where
  "confined sound held U w \<longleftrightarrow> work_of w \<subseteq> U \<and>
     (case dw_spool w of None \<Rightarrow> True | Some s \<Rightarrow> sound s \<and> (\<forall>x. held s x \<longrightarrow> x \<in> U))"

definition careful ::
  "('r \<Rightarrow> worker_poll_result \<Rightarrow> bool) \<Rightarrow> ('s \<Rightarrow> bool) \<Rightarrow> ('s \<Rightarrow> worker_poll_result \<Rightarrow> bool)
     \<Rightarrow> worker_poll_result set \<Rightarrow> ('r, 's) writer \<Rightarrow> ('r, 's) writer \<Rightarrow> bool" where
  "careful stored sound held U w v \<longleftrightarrow> (confined sound held U w \<longrightarrow>
     confined sound held U v \<and> (dw_spool v = None \<longleftrightarrow> dw_spool w = None) \<and> losses w \<le> losses v \<and>
     (\<forall>x \<in> U. secured stored held w x \<longrightarrow> secured stored held v x) \<and>
     (losses v = losses w \<longrightarrow> (\<forall>x \<in> work_of w. x \<in> work_of v \<or> secured stored held v x)))"

lemma carefulI:
  assumes "confined sound held U w \<Longrightarrow> confined sound held U v" "dw_spool v = None \<longleftrightarrow> dw_spool w = None"
    and "losses w \<le> losses v"
    and "\<And>x. confined sound held U w \<Longrightarrow> x \<in> U \<Longrightarrow> secured stored held w x \<Longrightarrow> secured stored held v x"
    and "\<And>x. confined sound held U w \<Longrightarrow> losses v = losses w \<Longrightarrow> x \<in> work_of w \<Longrightarrow>
      x \<in> work_of v \<or> secured stored held v x"
  shows "careful stored sound held U w v"
  using assms by (simp add: careful_def)

lemma careful_refl: "careful stored sound held U w w"
  by (simp add: careful_def)

lemma careful_trans:
  assumes "careful stored sound held U u v" "careful stored sound held U v w"
  shows "careful stored sound held U u w"
  unfolding careful_def
proof (intro impI)
  assume u: "confined sound held U u"
  have v: "confined sound held U v" and l: "losses u \<le> losses v" and s: "dw_spool v = None \<longleftrightarrow> dw_spool u = None"
    and sec: "\<forall>x \<in> U. secured stored held u x \<longrightarrow> secured stored held v x"
    and wk: "losses v = losses u \<longrightarrow> (\<forall>x \<in> work_of u. x \<in> work_of v \<or> secured stored held v x)"
    using assms(1) u by (simp_all add: careful_def)
  have w: "confined sound held U w" and l': "losses v \<le> losses w" and s': "dw_spool w = None \<longleftrightarrow> dw_spool v = None"
    and sec': "\<forall>x \<in> U. secured stored held v x \<longrightarrow> secured stored held w x"
    and wk': "losses w = losses v \<longrightarrow> (\<forall>x \<in> work_of v. x \<in> work_of w \<or> secured stored held w x)"
    using assms(2) v by (simp_all add: careful_def)
  have "x \<in> work_of w \<or> secured stored held w x" if "losses w = losses u" "x \<in> work_of u" for x
  proof -
    have "losses v = losses u" "losses w = losses v" using that(1) l l' by simp_all
    moreover have "x \<in> U" using u that(2) by (auto simp: confined_def)
    ultimately show ?thesis using wk wk' sec' that(2) by blast
  qed
  then show "confined sound held U w \<and> (dw_spool w = None \<longleftrightarrow> dw_spool u = None) \<and> losses u \<le> losses w \<and>
     (\<forall>x \<in> U. secured stored held u x \<longrightarrow> secured stored held w x) \<and>
     (losses w = losses u \<longrightarrow> (\<forall>x \<in> work_of u. x \<in> work_of w \<or> secured stored held w x))"
    using w l l' s s' sec sec' by (intro conjI) auto
qed

lemma only_saved_careful: "only_saved stored w v \<Longrightarrow> careful stored sound held U w v"
  by (auto simp: careful_def only_saved_def same_work_def confined_def work_of_def losses_def secured_def)

text \<open>Counters, flags and the clock of the environment do not matter.\<close>

lemma only_saved_fields [simp]:
  "only_saved stored w (v\<lparr>dw_successful_batches := n\<rparr>) \<longleftrightarrow> only_saved stored w v"
  "only_saved stored w (v\<lparr>dw_successful_poll_results := n\<rparr>) \<longleftrightarrow> only_saved stored w v"
  "only_saved stored w (v\<lparr>dw_waits := n\<rparr>) \<longleftrightarrow> only_saved stored w v"
  by (simp_all add: only_saved_def same_work_def)

lemma careful_later:
  assumes "careful stored sound held U w v" "losses v \<le> losses v'"
    and "dw_queue v' = dw_queue v" "dw_pending_batch v' = dw_pending_batch v"
    and "dw_spool v' = dw_spool v" "dw_repository v' = dw_repository v"
  shows "careful stored sound held U w v'"
proof -
  have "confined sound held U v' \<longleftrightarrow> confined sound held U v" "work_of v' = work_of v"
    using assms(3-5) by (simp_all add: confined_def work_of_def)
  moreover have "secured stored held v' x \<longleftrightarrow> secured stored held v x" for x
    using assms(5,6) by (simp add: secured_def)
  ultimately show ?thesis using assms(1,2,5) by (auto simp: careful_def)
qed

text \<open>A call of the spool that keeps what it holds, and adds only what was given to it.\<close>

lemma spool_change_careful:
  assumes "dw_spool w = Some s" "v = w\<lparr>dw_spool := Some s', dw_ios := n\<rparr>"
    and "sound s \<Longrightarrow> sound s'" "\<And>x. sound s \<Longrightarrow> held s' x \<Longrightarrow> held s x \<or> x \<in> U"
    and "\<And>x. sound s \<Longrightarrow> x \<in> U \<Longrightarrow> held s x \<Longrightarrow> held s' x \<or> stored (dw_repository w) x"
  shows "careful stored sound held U w v"
proof (rule carefulI)
  assume c: "confined sound held U w"
  then have s: "sound s" "\<And>x. held s x \<Longrightarrow> x \<in> U" using assms(1) by (auto simp: confined_def)
  have "held s' x \<Longrightarrow> x \<in> U" for x using assms(4) [OF s(1)] s(2) by blast
  then show "confined sound held U v" using c assms(3) [OF s(1)] by (simp add: assms(1,2) confined_def work_of_def)
  show "secured stored held v x" if "x \<in> U" "secured stored held w x" for x
    using that assms(5) [OF s(1) that(1)] by (auto simp: assms(1,2) secured_def)
qed (simp_all add: assms(1,2) losses_def work_of_def)

lemma tasks_done_items: "rq_items (fst (tasks_done n q)) = rq_items q"
  by (induction n arbitrary: q) (auto simp: rq_task_done_def value_error_def split: if_splits)

lemma ack_batch_careful:
  assumes "ack_batch n w = (v, out)"
    and "\<And>x. x \<in> set (take n (dw_pending_batch w)) \<Longrightarrow> secured stored held w x"
  shows "careful stored sound held U w v"
proof -
  obtain q where v: "tasks_done n (dw_queue w) = (q, out)"
    "v = w\<lparr>dw_pending_batch := drop n (dw_pending_batch w), dw_queue := q\<rparr>"
    using assms(1) by (auto simp: ack_batch_def split: prod.splits)
  have q: "rq_items q = rq_items (dw_queue w)" using tasks_done_items [of n "dw_queue w"] v(1) by simp
  have sub: "set (drop n (dw_pending_batch w)) \<subseteq> set (dw_pending_batch w)" by (rule set_drop_subset)
  have split: "x \<in> set (take n (dw_pending_batch w)) \<or> x \<in> set (drop n (dw_pending_batch w))"
    if "x \<in> set (dw_pending_batch w)" for x
    using that by (metis append_take_drop_id Un_iff set_append)
  have sec: "secured stored held v x \<longleftrightarrow> secured stored held w x" for x by (simp add: v(2) secured_def)
  show ?thesis
  proof (rule carefulI)
    show "confined sound held U v" if "confined sound held U w"
      using that sub q by (auto simp: v(2) confined_def work_of_def)
    show "x \<in> work_of v \<or> secured stored held v x" if "x \<in> work_of w" for x
      using that split [of x] q assms(2) [of x] unfolding sec by (auto simp: v(2) work_of_def)
  qed (simp_all add: sec, simp_all add: v(2) losses_def)
qed

text \<open>Acknowledging a batch that was counted as lost needs no security.\<close>

lemma ack_batch_lossy:
  assumes "ack_batch n v = (v', out)" "careful stored sound held U w v" "losses w < losses v"
  shows "careful stored sound held U w v'"
proof -
  obtain q where v: "tasks_done n (dw_queue v) = (q, out)"
    "v' = v\<lparr>dw_pending_batch := drop n (dw_pending_batch v), dw_queue := q\<rparr>"
    using assms(1) by (auto simp: ack_batch_def split: prod.splits)
  have q: "rq_items q = rq_items (dw_queue v)" using tasks_done_items [of n "dw_queue v"] v(1) by simp
  have sub: "set (drop n (dw_pending_batch v)) \<subseteq> set (dw_pending_batch v)" by (rule set_drop_subset)
  have sec: "secured stored held v' x \<longleftrightarrow> secured stored held v x" for x by (simp add: v(2) secured_def)
  have l: "losses v' = losses v" by (simp add: v(2) losses_def)
  have wi: "confined sound held U v \<Longrightarrow> confined sound held U v'" using sub q by (auto simp: v(2) confined_def work_of_def)
  show ?thesis
    using assms(2,3) wi sec l by (auto simp: careful_def v(2))
qed

context durable_writer
begin

lemma persist_batch_careful: "persist_batch env xs w = (v, out) \<Longrightarrow> careful stored sound held U w v"
  by (rule only_saved_careful) (rule persist_batch_saved)

lemma spool_batch_cases:
  assumes "spool_batch env xs w = (v, out)" "distinct_executions U" "set xs \<subseteq> U"
  obtains "dw_spool w = None" "v = w" "out = Ret False"
  | "out = Ret True" "careful stored sound held U w v" "confined sound held U w \<Longrightarrow> \<forall>x \<in> set xs. secured stored held v x"
    "same_work w v" "dw_failed_poll_results v = dw_failed_poll_results w"
    "dw_spool_full_failures v = dw_spool_full_failures w"
  | "out = Ret False" "careful stored sound held U w v" "dw_spool w \<noteq> None" "same_work w v"
    "dw_spool_full_failures v = Suc (dw_spool_full_failures w)"
  | "out = Cancelled" "careful stored sound held U w v" "same_work w v"
proof (cases "dw_spool w")
  case None
  then have "v = w" "out = Ret False" using assms(1) by (simp_all add: spool_batch_def)
  with None show thesis by (rule that(1))
next
  case (Some s)
  have ok: "\<forall>x \<in> set xs. poll_result_ok x" using assms(2,3) by (auto simp: distinct_executions_def)
  obtain s' res where call: "in_thread (dv_io env (dw_ios w)) (so_append (dv_spool env) xs) s = (s', res)" by fastforce
  define u where "u = w\<lparr>dw_spool := Some s', dw_ios := Suc (dw_ios w)\<rparr>"
  have sc: "spool_call env (so_append (dv_spool env) xs) s w = (u, res)"
    using call by (simp add: spool_call_def u_def)
  have s': "s' = s \<or> s' = fst (so_append (dv_spool env) xs s)"
    using call by (cases rule: in_thread_cases) auto
  have car: "careful stored sound held U w u"
    using Some u_def
  proof (rule spool_change_careful)
    show "sound s'" if snd: "sound s" using s' snd sp.append_wf [OF snd ok] by auto
    show "held s x \<or> x \<in> U" if snd: "sound s" and h: "held s' x" for x
      using s' h sp.append_only [OF snd ok, of x] assms(3) by auto
    show "held s' x \<or> stored (dw_repository w) x" if snd: "sound s" and h: "held s x" for x
      using s' h sp.append_keeps [OF snd ok h] by auto
  qed
  have same: "same_work w u" using Some by (simp add: u_def same_work_def)
  show thesis
  proof (cases res)
    case (Ret n)
    then have v: "v = u\<lparr>dw_spooled_poll_results := dw_spooled_poll_results u + n\<rparr>" "out = Ret True"
      using assms(1) Some sc by (simp_all add: spool_batch_def)
    have app: "so_append (dv_spool env) xs s = (s', Inr n)"
      using call Ret by (cases rule: in_thread_cases) auto
    have "secured stored held v x" if x: "x \<in> set xs" and wi: "confined sound held U w" for x
    proof -
      have wfs: "sound s" "\<forall>y. held s y \<longrightarrow> y \<in> U" using wi Some by (auto simp: confined_def)
      obtain y where y: "held s' y" "wp_id y = wp_id x" using sp.append_has [OF wfs(1) ok app x] by blast
      have "y \<in> U" using sp.append_only [OF wfs(1) ok, of y] app y(1) wfs(2) assms(3) by auto
      then have "y = x" using assms(2,3) x y(2) by (auto simp: distinct_executions_def)
      then show ?thesis using y(1) by (simp add: v(1) u_def secured_def)
    qed
    moreover have "careful stored sound held U w v"
      using car by (rule careful_later) (simp_all add: v(1) losses_def)
    moreover have "same_work w v" using same by (simp add: v(1) same_work_def)
    ultimately show thesis using that(2) v by (simp add: u_def)
  next
    case (Raise e)
    then have v: "v = u\<lparr>dw_last_error := Some (error_text e), dw_spool_full_failures := Suc (dw_spool_full_failures u)\<rparr>"
      "out = Ret False"
      using assms(1) Some sc by (simp_all add: spool_batch_def)
    have "careful stored sound held U w v"
      using car by (rule careful_later) (simp_all add: v(1) losses_def)
    moreover have "same_work w v" using same by (simp add: v(1) same_work_def)
    ultimately show thesis using that(3) v Some by (simp add: u_def)
  next
    case Cancelled
    then have "v = u" "out = Cancelled" using assms(1) Some sc by (simp_all add: spool_batch_def)
    with car same show thesis by (intro that(4)) simp_all
  qed
qed

end

lemma careful_not_confined: "\<not> confined sound held U w \<Longrightarrow> careful stored sound held U w v"
  by (simp add: careful_def)

context durable_writer
begin

lemma flush_pending_careful:
  assumes "flush_pending env w = (v, out)" "distinct_executions U"
  shows "careful stored sound held U w v"
proof (cases "confined sound held U w \<and> dw_pending_batch w \<noteq> []")
  case False
  then show ?thesis using assms(1) careful_not_confined careful_refl by (auto simp: flush_pending_def)
next
  case True
  let ?xs = "dw_pending_batch w"
  have sub: "set ?xs \<subseteq> U" using True by (auto simp: confined_def work_of_def)
  obtain w1 res where p: "persist_batch env ?xs w = (w1, res)" by fastforce
  have saved: "only_saved stored w w1" by (rule persist_batch_saved [OF p])
  have car1: "careful stored sound held U w w1" by (rule persist_batch_careful [OF p])
  have conf1: "confined sound held U w1" using car1 True by (simp add: careful_def)
  have pend1: "dw_pending_batch w1 = ?xs" using saved by (simp add: only_saved_def same_work_def)
  show ?thesis
  proof (cases res)
    case (Raise e)
    then show ?thesis using persist_batch_saved(3) [OF p] by simp
  next
    case Cancelled
    then show ?thesis using assms(1) p True car1 by (simp add: flush_pending_def Let_def)
  next
    case (Ret b)
    show ?thesis
    proof (cases b)
      case True
      define u where "u = w1\<lparr>dw_successful_batches := Suc (dw_successful_batches w1),
          dw_successful_poll_results := dw_successful_poll_results w1 + length ?xs, dw_last_error := None\<rparr>"
      have ack: "ack_batch (length ?xs) u = (v, out)"
        using assms(1) p Ret True \<open>confined sound held U w \<and> dw_pending_batch w \<noteq> []\<close>
        by (simp add: flush_pending_def u_def Let_def)
      have "secured stored held u x" if "x \<in> set (take (length ?xs) (dw_pending_batch u))" for x
        using persist_batch_saved(2) [OF p] Ret True that pend1 by (simp add: u_def secured_def)
      then have "careful stored sound held U u v" by (rule ack_batch_careful [OF ack])
      moreover have "careful stored sound held U w u"
        using car1 by (rule careful_later) (simp_all add: u_def losses_def)
      ultimately show ?thesis by (rule careful_trans [rotated])
    next
      case False
      obtain w2 sres where s: "spool_batch env ?xs w1 = (w2, sres)" by fastforce
      define u where "u = w2\<lparr>dw_failed_batches := Suc (dw_failed_batches w2),
          dw_failed_poll_results := dw_failed_poll_results w2 + length ?xs\<rparr>"
      have ack: "ack_batch (length ?xs) u = (v, out)" if "sres = Ret b'" for b'
        using assms(1) p s Ret False that \<open>confined sound held U w \<and> dw_pending_batch w \<noteq> []\<close>
        by (simp add: flush_pending_def u_def Let_def)
      have canc: "v = w2" if "sres = Cancelled"
        using assms(1) p s Ret False that \<open>confined sound held U w \<and> dw_pending_batch w \<noteq> []\<close>
        by (simp add: flush_pending_def Let_def)
      have len: "0 < length ?xs" using True by simp
      from s assms(2) sub show ?thesis
      proof (cases rule: spool_batch_cases)
        case 1
        have "careful stored sound held U w u"
          using car1 by (rule careful_later) (simp_all add: u_def 1 losses_def)
        moreover have "losses w < losses u"
          using saved len 1 by (simp add: u_def losses_def only_saved_def)
        ultimately show ?thesis by (rule ack_batch_lossy [OF ack [OF 1(3)]])
      next
        case 2
        have w2: "careful stored sound held U w w2" by (rule careful_trans [OF car1 2(2)])
        have "careful stored sound held U w u"
          using w2 by (rule careful_later) (simp_all add: u_def losses_def)
        moreover have "secured stored held u x" if "x \<in> set (take (length ?xs) (dw_pending_batch u))" for x
        proof -
          have "dw_pending_batch u = ?xs" using 2(4) pend1 by (simp add: u_def same_work_def)
          then have "secured stored held w2 x" using 2(3) [OF conf1] that by simp
          then show ?thesis by (simp add: u_def secured_def)
        qed
        then have "careful stored sound held U u v" by (rule ack_batch_careful [OF ack [OF 2(1)]])
        ultimately show ?thesis by (rule careful_trans)
      next
        case 3
        have w2: "careful stored sound held U w w2" by (rule careful_trans [OF car1 3(2)])
        have "careful stored sound held U w u"
          using w2 by (rule careful_later) (simp_all add: u_def losses_def)
        moreover have "losses w < losses u"
        proof -
          have "dw_spool w \<noteq> None" "dw_spool w2 \<noteq> None" "dw_spool_full_failures w1 = dw_spool_full_failures w"
            using saved 3(3,4) by (auto simp: only_saved_def same_work_def)
          then show ?thesis using 3(5) by (auto simp: u_def losses_def)
        qed
        ultimately show ?thesis by (rule ack_batch_lossy [OF ack [OF 3(1)]])
      next
        case 4
        then show ?thesis using canc careful_trans [OF car1 4(2)] by simp
      qed
    qed
  qed
qed

end

lemma spool_call_eq:
  "spool_call env f s w = (v, out) \<Longrightarrow> \<exists>s'. v = w\<lparr>dw_spool := Some s', dw_ios := Suc (dw_ios w)\<rparr> \<and>
     in_thread (dv_io env (dw_ios w)) f s = (s', out)"
  by (auto simp: spool_call_def split: prod.splits)

context durable_writer
begin

lemma settle_replayed_careful:
  assumes "settle_replayed env ids n w = (v, out)"
    and stored: "\<And>x. x \<in> U \<Longrightarrow> wp_id x \<in> set ids \<Longrightarrow> stored (dw_repository w) x"
  shows "careful stored sound held U w v"
proof (cases "dw_spool w")
  case None
  then show ?thesis using assms(1) careful_refl by (simp add: settle_replayed_def)
next
  case (Some s)
  obtain u res where call: "spool_call env (so_mark_replayed (dv_spool env) ids) s w = (u, res)" by fastforce
  obtain s' where u: "u = w\<lparr>dw_spool := Some s', dw_ios := Suc (dw_ios w)\<rparr>"
    and th: "in_thread (dv_io env (dw_ios w)) (so_mark_replayed (dv_spool env) ids) s = (s', res)"
    using spool_call_eq [OF call] by blast
  have s': "s' = s \<or> s' = fst (so_mark_replayed (dv_spool env) ids s)"
    using th by (cases rule: in_thread_cases) auto
  have "careful stored sound held U w u"
    using Some u
  proof (rule spool_change_careful)
    show "sound s'" if "sound s" using that s' sp.replayed_wf by auto
    show "held s x \<or> x \<in> U" if "sound s" "held s' x" for x
      using that s' sp.replayed_only [of s ids x] by auto
    show "held s' x \<or> stored (dw_repository w) x" if "sound s" "x \<in> U" "held s x" for x
      using that s' sp.replayed_keeps [of s x ids] stored [OF that(2)] by auto
  qed
  then show ?thesis
    using assms(1) Some call
    by (cases res) (auto simp: settle_replayed_def losses_def elim!: careful_later)
qed

lemma settle_failed_careful:
  assumes "settle_failed env ids n w = (v, out)"
  shows "careful stored sound held U w v"
proof (cases "dw_spool w")
  case None
  then show ?thesis using assms(1) careful_refl by (simp add: settle_failed_def)
next
  case (Some s)
  let ?f = "so_mark_failed (dv_spool env) ids (dw_spool_retry_delay_s w)"
  obtain u res where call: "spool_call env ?f s w = (u, res)" by fastforce
  obtain s' where u: "u = w\<lparr>dw_spool := Some s', dw_ios := Suc (dw_ios w)\<rparr>"
    and th: "in_thread (dv_io env (dw_ios w)) ?f s = (s', res)"
    using spool_call_eq [OF call] by blast
  have s': "s' = s \<or> s' = fst (?f s)"
    using th by (cases rule: in_thread_cases) auto
  have "careful stored sound held U w u"
    using Some u
  proof (rule spool_change_careful)
    show "sound s'" if "sound s" using that s' sp.failed_wf by auto
    show "held s x \<or> x \<in> U" if "sound s" "held s' x" for x
      using that s' sp.failed_same [of s ids _ x] by auto
    show "held s' x \<or> stored (dw_repository w) x" if "sound s" "held s x" for x
      using that s' sp.failed_same [of s ids _ x] by auto
  qed
  then show ?thesis
    using assms(1) Some call
    by (cases res) (auto simp: settle_failed_def losses_def elim!: careful_later)
qed

lemma fetch_careful:
  assumes "spool_call env (so_fetch_due (dv_spool env) k) s w = (u, res)" "dw_spool w = Some s"
  shows "careful stored sound held U w u"
    and "res = Ret es \<Longrightarrow> e \<in> set es \<Longrightarrow> confined sound held U w \<Longrightarrow>
      se_poll_result e \<in> U \<and> wp_id (se_poll_result e) = se_execution_id e"
proof -
  let ?f = "so_fetch_due (dv_spool env) k"
  obtain s' where u: "u = w\<lparr>dw_spool := Some s', dw_ios := Suc (dw_ios w)\<rparr>"
    and th: "in_thread (dv_io env (dw_ios w)) ?f s = (s', res)"
    using spool_call_eq [OF assms(1)] by blast
  have s': "s' = s \<or> s' = fst (?f s)"
    using th by (cases rule: in_thread_cases) auto
  show "careful stored sound held U w u"
    using assms(2) u
  proof (rule spool_change_careful)
    show "sound s'" if "sound s" using that s' sp.fetch_wf by auto
    show "held s x \<or> x \<in> U" if "sound s" "held s' x" for x
      using that s' sp.fetch_same [of k s x] by auto
    show "held s' x \<or> stored (dw_repository w) x" if "sound s" "held s x" for x
      using that s' sp.fetch_same [of k s x] by auto
  qed
  assume r: "res = Ret es" "e \<in> set es" "confined sound held U w"
  have "?f s = (s', Inr es)" using th r(1) by (cases rule: in_thread_cases) auto
  moreover have "sound s" "\<And>x. held s x \<Longrightarrow> x \<in> U" using r(3) assms(2) by (auto simp: confined_def)
  ultimately show "se_poll_result e \<in> U \<and> wp_id (se_poll_result e) = se_execution_id e"
    using sp.fetch_held r(2) by blast
qed

lemma replay_careful:
  assumes "replay_spool_once env w = (v, out)" "distinct_executions U"
  shows "careful stored sound held U w v"
proof (cases "confined sound held U w \<and> dw_spool w \<noteq> None")
  case False
  then show ?thesis
    using assms(1) careful_not_confined careful_refl by (auto simp: replay_spool_once_def)
next
  case True
  then obtain s where s: "dw_spool w = Some s" and conf: "confined sound held U w" by blast
  obtain w1 res where f: "spool_call env (so_fetch_due (dv_spool env) (dw_replay_batch_size w)) s w = (w1, res)"
    by fastforce
  note car1 = fetch_careful(1) [OF f s]
  show ?thesis
  proof (cases "\<exists>e es. res = Ret (e # es)")
    case False
    have "v = w1 \<or> (\<exists>m. v = w1\<lparr>dw_last_error := m\<rparr>)"
    proof (cases res)
      case (Ret es)
      then have "es = []" using False by (cases es) auto
      then show ?thesis using assms(1) s f Ret by (simp add: replay_spool_once_def)
    qed (use assms(1) s f in \<open>auto simp: replay_spool_once_def\<close>)
    then show ?thesis using car1 careful_later [OF car1, of v] by (auto simp: losses_def)
  next
    case True
    then obtain e es where res: "res = Ret (e # es)" by blast
    let ?xs = "map se_poll_result (e # es)" and ?ids = "map se_execution_id (e # es)"
    obtain w2 pres where p: "persist_batch env ?xs w1 = (w2, pres)" by fastforce
    have car2: "careful stored sound held U w w2" by (rule careful_trans [OF car1 persist_batch_careful [OF p]])
    show ?thesis
    proof (cases pres)
      case (Raise e')
      then show ?thesis using persist_batch_saved(3) [OF p] by simp
    next
      case Cancelled
      then show ?thesis using assms(1) s f res p car2 by (simp add: replay_spool_once_def Let_def)
    next
      case (Ret b)
      show ?thesis
      proof (cases b)
        case True
        have set: "settle_replayed env ?ids (length ?xs) w2 = (v, out)"
          using assms(1) s f res p Ret True by (simp add: replay_spool_once_def Let_def)
        have "stored (dw_repository w2) x" if x: "x \<in> U" "wp_id x \<in> set ?ids" for x
        proof -
          obtain d where d: "d \<in> set (e # es)" "wp_id x = se_execution_id d" using x(2) by auto
          have "se_poll_result d \<in> U" "wp_id (se_poll_result d) = se_execution_id d"
            using fetch_careful(2) [OF f s res d(1) conf] by simp_all
          then have "x = se_poll_result d" using assms(2) x(1) d(2) by (auto simp: distinct_executions_def)
          then show ?thesis using persist_batch_saved(2) [OF p, of x] Ret True d(1) by auto
        qed
        then have "careful stored sound held U w2 v" by (rule settle_replayed_careful [OF set])
        with car2 show ?thesis by (rule careful_trans)
      next
        case False
        have "settle_failed env ?ids (length ?xs) w2 = (v, out)"
          using assms(1) s f res p Ret False by (simp add: replay_spool_once_def Let_def)
        with car2 show ?thesis using careful_trans settle_failed_careful by blast
      qed
    qed
  qed
qed

end

context durable_writer
begin

lemma take_item_careful:
  assumes "rq_get (dw_queue w) = Some (q, x)"
    "v = w\<lparr>dw_waits := k, dw_queue := q, dw_pending_batch := dw_pending_batch w @ [x]\<rparr>"
  shows "careful stored sound held U w v"
proof -
  have items: "rq_items (dw_queue w) = x # rq_items q"
    using assms(1) by (auto simp: rq_get_def split: list.splits)
  have "work_of v = work_of w" using items by (auto simp: assms(2) work_of_def)
  then show ?thesis by (auto simp: careful_def confined_def losses_def secured_def assms(2))
qed

lemma consume_careful:
  assumes "consume env w = (v, out)" "distinct_executions U"
  shows "careful stored sound held U w v"
proof (cases "dw_batch_size w \<le> int (length (dw_pending_batch w)) \<or> dw_stop_requested w \<and> rq_size (dw_queue w) = 0")
  case True
  then have "flush_pending env w = (v, out)" using assms(1) by (auto simp: consume_def split: if_splits)
  then show ?thesis using assms(2) by (rule flush_pending_careful)
next
  case False
  let ?w1 = "w\<lparr>dw_waits := Suc (dw_waits w)\<rparr>"
  show ?thesis
  proof (cases "dv_wait_cancelled env (dw_waits w)")
    case True
    then have "v = ?w1\<lparr>dw_orphan_gets := Suc (dw_orphan_gets w)\<rparr>"
      using assms(1) False by (auto simp: consume_def wait_for_item_def Let_def split: if_splits)
    then show ?thesis by (intro careful_later [OF careful_refl [of _ _ _ _ w]]) (simp_all add: losses_def)
  next
    case wait: False
    show ?thesis
    proof (cases "rq_get (dw_queue w)")
      case None
      then have "flush_pending env ?w1 = (v, out)"
        using assms(1) False wait by (auto simp: consume_def wait_for_item_def Let_def split: if_splits)
      then have "careful stored sound held U ?w1 v" using assms(2) by (rule flush_pending_careful)
      moreover have "careful stored sound held U w ?w1"
        by (intro careful_later [OF careful_refl [of _ _ _ _ w]]) (simp_all add: losses_def)
      ultimately show ?thesis by (rule careful_trans [rotated])
    next
      case (Some p)
      obtain q x where p: "p = (q, x)" by fastforce
      define u where "u = w\<lparr>dw_waits := Suc (dw_waits w), dw_queue := q,
          dw_pending_batch := dw_pending_batch w @ [x]\<rparr>"
      have "v = u \<or> flush_pending env u = (v, out)"
        using assms(1) False wait Some p
        by (auto simp: consume_def wait_for_item_def Let_def u_def split: if_splits)
      moreover have "careful stored sound held U w u"
        using take_item_careful Some p u_def by blast
      ultimately show ?thesis using careful_trans flush_pending_careful assms(2) by blast
    qed
  qed
qed

lemma consume_or_flush_careful:
  assumes "consume_or_flush env w = (v, out)" "distinct_executions U"
  shows "careful stored sound held U w v"
proof (cases "dw_pending_batch w = []")
  case True
  obtain w1 res where r: "replay_spool_once env w = (w1, res)" by fastforce
  have car: "careful stored sound held U w w1" by (rule replay_careful [OF r assms(2)])
  show ?thesis
  proof (cases "res = Ret False")
    case True
    then have "consume env w1 = (v, out)"
      using assms(1) r \<open>dw_pending_batch w = []\<close> by (simp add: consume_or_flush_def)
    then show ?thesis using car careful_trans consume_careful assms(2) by blast
  next
    case False
    then have "v = w1"
      using assms(1) r \<open>dw_pending_batch w = []\<close> by (auto simp: consume_or_flush_def split: outcome.splits bool.splits)
    then show ?thesis using car by simp
  qed
qed (use assms in \<open>simp add: consume_or_flush_def consume_careful\<close>)

lemma final_flush_careful:
  assumes "final_flush env out w = (v, res)" "distinct_executions U"
  shows "careful stored sound held U w v"
proof -
  obtain w1 r where f: "flush_pending env w = (w1, r)" by fastforce
  have car: "careful stored sound held U w w1" by (rule flush_pending_careful [OF f assms(2)])
  have "v = w1 \<or> v = w1\<lparr>dw_running := False, dw_stopped := True\<rparr>"
    using assms(1) f by (auto simp: final_flush_def split: outcome.splits)
  then show ?thesis using car careful_later [OF car, of v] by (auto simp: losses_def)
qed

lemma leave_run_careful:
  assumes "leave_run env out w = (v, res)" "distinct_executions U"
  shows "careful stored sound held U w v"
proof (cases "out = Cancelled")
  case True
  obtain w1 r where f: "flush_pending env w = (w1, r)" by fastforce
  have car: "careful stored sound held U w w1" by (rule flush_pending_careful [OF f assms(2)])
  have "\<exists>o'. final_flush env o' w1 = (v, res)"
    using assms(1) f True by (auto simp: leave_run_def split: outcome.splits)
  then show ?thesis using car careful_trans final_flush_careful assms(2) by blast
next
  case False
  then have "final_flush env out w = (v, res)" using assms(1) by (auto simp: leave_run_def split: outcome.splits)
  then show ?thesis using assms(2) by (rule final_flush_careful)
qed

lemma run_turn_careful:
  assumes "run_turn env w = (v, res)" "distinct_executions U"
  shows "careful stored sound held U w v"
proof (cases "should_stop w")
  case True
  then have "\<exists>o'. leave_run env (Ret ()) w = (v, o')"
    using assms(1) by (auto simp: run_turn_def split: prod.splits)
  then show ?thesis using leave_run_careful assms(2) by blast
next
  case False
  obtain w1 r where c: "consume_or_flush env w = (w1, r)" by fastforce
  have car: "careful stored sound held U w w1" by (rule consume_or_flush_careful [OF c assms(2)])
  have "v = w1 \<or> (\<exists>o' o''. leave_run env o' w1 = (v, o''))"
    using assms(1) c False by (auto simp: run_turn_def split: outcome.splits prod.splits)
  then show ?thesis using car careful_trans leave_run_careful assms(2) by blast
qed

end

section \<open>The counts of the queue\<close>

text \<open>
  The unfinished tasks of the queue are the items still queued, the items of the batch and
  \<open>k\<close> items that orphaned \<^verbatim>\<open>get\<close> tasks took.
\<close>

definition balanced :: "nat \<Rightarrow> ('r, 's) writer \<Rightarrow> bool" where
  "balanced k w \<longleftrightarrow> rq_unfinished (dw_queue w) = rq_size (dw_queue w) + length (dw_pending_batch w) + k"

text \<open>What a flush leaves alone.\<close>

definition same_shell :: "('r, 's) writer \<Rightarrow> ('r, 's) writer \<Rightarrow> bool" where
  "same_shell w v \<longleftrightarrow> rq_items (dw_queue v) = rq_items (dw_queue w) \<and> dw_batch_size v = dw_batch_size w \<and>
     dw_stop_requested v = dw_stop_requested w \<and> dw_running v = dw_running w \<and>
     dw_stopped v = dw_stopped w \<and> (dw_spool v = None \<longleftrightarrow> dw_spool w = None)"

lemma same_shell_refl: "same_shell w w"
  by (simp add: same_shell_def)

lemma same_shell_trans: "same_shell u v \<Longrightarrow> same_shell v w \<Longrightarrow> same_shell u w"
  by (auto simp: same_shell_def)

lemma same_work_shell: "same_work w v \<Longrightarrow> same_shell w v"
  by (simp add: same_work_def same_shell_def)

lemma same_work_balanced: "same_work w v \<Longrightarrow> balanced k v \<longleftrightarrow> balanced k w"
  by (simp add: same_work_def balanced_def)

lemma tasks_done_enough:
  "n \<le> rq_unfinished q \<Longrightarrow> tasks_done n q = (q\<lparr>rq_unfinished := rq_unfinished q - n\<rparr>, Ret ())"
  by (induction n arbitrary: q) (simp_all add: rq_task_done_def)

lemma ack_batch_balanced:
  assumes "balanced k w" "n = length (dw_pending_batch w)"
  shows "\<exists>v. ack_batch n w = (v, Ret ()) \<and> balanced k v \<and> same_shell w v \<and> dw_pending_batch v = []"
proof -
  have "n \<le> rq_unfinished (dw_queue w)" using assms by (simp add: balanced_def)
  then show ?thesis
    using assms by (auto simp: ack_batch_def tasks_done_enough balanced_def same_shell_def rq_size_def)
qed

lemma spool_call_same:
  "spool_call env f s w = (v, out) \<Longrightarrow> dw_spool w = Some s \<Longrightarrow> same_work w v"
  by (auto simp: spool_call_def same_work_def split: prod.splits)

lemma spool_batch_same:
  assumes "spool_batch env xs w = (v, out)"
  shows "same_work w v \<and> out \<noteq> Raise e"
proof (cases "dw_spool w")
  case None
  then show ?thesis using assms by (auto simp: spool_batch_def same_work_refl)
next
  case (Some s)
  obtain u res where c: "spool_call env (so_append (dv_spool env) xs) s w = (u, res)" by fastforce
  have "same_work w u" by (rule spool_call_same [OF c Some])
  then show ?thesis using assms Some c by (cases res) (auto simp: spool_batch_def same_work_def)
qed

context durable_writer
begin

lemma persist_batch_same: "persist_batch env xs w = (v, out) \<Longrightarrow> same_work w v"
  using persist_batch_saved(1) by (simp add: only_saved_def)

lemma flush_pending_balanced:
  assumes "flush_pending env w = (v, out)" "balanced k w"
  shows "balanced k v \<and> same_shell w v \<and> out \<noteq> Raise e \<and> (out = Ret () \<longrightarrow> dw_pending_batch v = [])"
proof (cases "dw_pending_batch w = []")
  case True
  then show ?thesis using assms by (auto simp: flush_pending_def same_shell_refl)
next
  case False
  let ?xs = "dw_pending_batch w"
  have ack: "\<exists>v. ack_batch (length ?xs) u = (v, Ret ()) \<and> balanced k v \<and> same_shell w v \<and> dw_pending_batch v = []"
    if u: "same_work w u" for u
  proof -
    have "length ?xs = length (dw_pending_batch u)" using u by (simp add: same_work_def)
    then show ?thesis
      using ack_batch_balanced [of k u] same_work_balanced [OF u, of k] assms(2)
        same_shell_trans [OF same_work_shell [OF u]] by auto
  qed
  obtain w1 res where p: "persist_batch env ?xs w = (w1, res)" by fastforce
  have s1: "same_work w w1" by (rule persist_batch_same [OF p])
  show ?thesis
  proof (cases res)
    case (Raise e')
    then show ?thesis using persist_batch_saved(3) [OF p] by simp
  next
    case Cancelled
    then have "v = w1" "out = Cancelled" using assms(1) p False by (simp_all add: flush_pending_def Let_def)
    then show ?thesis using same_work_balanced [OF s1] same_work_shell [OF s1] assms(2) by simp
  next
    case (Ret b)
    show ?thesis
    proof (cases b)
      case True
      let ?u = "w1\<lparr>dw_successful_batches := Suc (dw_successful_batches w1),
          dw_successful_poll_results := dw_successful_poll_results w1 + length ?xs, dw_last_error := None\<rparr>"
      have "same_work w ?u" using s1 by (simp add: same_work_def)
      moreover have "ack_batch (length ?xs) ?u = (v, out)"
        using assms(1) p Ret True False by (simp add: flush_pending_def Let_def)
      ultimately show ?thesis using ack by fastforce
    next
      case nb: False
      obtain w2 sres where s: "spool_batch env ?xs w1 = (w2, sres)" by fastforce
      have s2: "same_work w w2" "\<And>e. sres \<noteq> Raise e"
        using spool_batch_same [OF s] same_work_trans [OF s1] by auto
      let ?u = "w2\<lparr>dw_failed_batches := Suc (dw_failed_batches w2),
          dw_failed_poll_results := dw_failed_poll_results w2 + length ?xs\<rparr>"
      have u: "same_work w ?u" using s2(1) by (simp add: same_work_def)
      show ?thesis
      proof (cases sres)
        case (Ret b')
        then have "ack_batch (length ?xs) ?u = (v, out)"
          using assms(1) p \<open>res = Ret b\<close> nb False s by (simp add: flush_pending_def Let_def)
        then show ?thesis using ack [OF u] by fastforce
      next
        case Cancelled
        then have "v = w2" "out = Cancelled"
          using assms(1) p \<open>res = Ret b\<close> nb False s by (simp_all add: flush_pending_def Let_def)
        then show ?thesis using same_work_balanced [OF s2(1)] same_work_shell [OF s2(1)] assms(2) by simp
      qed (use s2(2) in simp)
    qed
  qed
qed

lemma settle_same:
  "settle_replayed env ids n w = (v, out) \<Longrightarrow> same_work w v \<and> out \<noteq> Raise e"
  "settle_failed env ids n w = (v, out) \<Longrightarrow> same_work w v \<and> out \<noteq> Raise e"
proof -
  have up: "same_work w (u\<lparr>dw_spool_replayed := a\<rparr>)" "same_work w (u\<lparr>dw_spool_failed_replays := a\<rparr>)"
    "same_work w (u\<lparr>dw_last_error := m\<rparr>)" if "same_work w u" for u a m
    using that by (simp_all add: same_work_def)
  show "same_work w v \<and> out \<noteq> Raise e" if r: "settle_replayed env ids n w = (v, out)"
  proof (cases "dw_spool w")
    case None
    then show ?thesis using r by (auto simp: settle_replayed_def same_work_refl)
  next
    case (Some s)
    obtain u res where c: "spool_call env (so_mark_replayed (dv_spool env) ids) s w = (u, res)" by fastforce
    show ?thesis
      using r Some c up [OF spool_call_same [OF c Some]] spool_call_same [OF c Some]
      by (cases res) (auto simp: settle_replayed_def)
  qed
  show "same_work w v \<and> out \<noteq> Raise e" if r: "settle_failed env ids n w = (v, out)"
  proof (cases "dw_spool w")
    case None
    then show ?thesis using r by (auto simp: settle_failed_def same_work_refl)
  next
    case (Some s)
    obtain u res where
      c: "spool_call env (so_mark_failed (dv_spool env) ids (dw_spool_retry_delay_s w)) s w = (u, res)" by fastforce
    show ?thesis
      using r Some c up [OF spool_call_same [OF c Some]] spool_call_same [OF c Some]
      by (cases res) (auto simp: settle_failed_def)
  qed
qed

lemma replay_same:
  assumes "replay_spool_once env w = (v, out)"
  shows "same_work w v \<and> out \<noteq> Raise e"
proof (cases "dw_spool w")
  case None
  then show ?thesis using assms by (auto simp: replay_spool_once_def same_work_refl)
next
  case (Some s)
  obtain w1 res where f: "spool_call env (so_fetch_due (dv_spool env) (dw_replay_batch_size w)) s w = (w1, res)"
    by fastforce
  have s1: "same_work w w1" by (rule spool_call_same [OF f Some])
  show ?thesis
  proof (cases "\<exists>e es. res = Ret (e # es)")
    case False
    have "(v = w1 \<or> (\<exists>m. v = w1\<lparr>dw_last_error := m\<rparr>)) \<and> out \<noteq> Raise e"
    proof (cases res)
      case (Ret es)
      then have "es = []" using False by (cases es) auto
      then show ?thesis using assms Some f Ret by (auto simp: replay_spool_once_def)
    qed (use assms Some f in \<open>auto simp: replay_spool_once_def\<close>)
    then show ?thesis using s1 by (auto simp: same_work_def)
  next
    case True
    then obtain d ds where res: "res = Ret (d # ds)" by blast
    obtain w2 pres where p: "persist_batch env (map se_poll_result (d # ds)) w1 = (w2, pres)" by fastforce
    have s2: "same_work w w2" by (rule same_work_trans [OF s1 persist_batch_same [OF p]])
    show ?thesis
    proof (cases pres)
      case (Raise e')
      then show ?thesis using persist_batch_saved(3) [OF p] by simp
    next
      case Cancelled
      then show ?thesis using assms Some f res p s2 by (simp add: replay_spool_once_def Let_def)
    next
      case (Ret b)
      have "settle_replayed env (map se_execution_id (d # ds)) (length (map se_poll_result (d # ds))) w2 = (v, out) \<or>
          settle_failed env (map se_execution_id (d # ds)) (length (map se_poll_result (d # ds))) w2 = (v, out)"
        using assms Some f res p Ret by (cases b) (simp_all add: replay_spool_once_def Let_def)
      then show ?thesis using settle_same same_work_trans [OF s2] by blast
    qed
  qed
qed

end

context durable_writer
begin

lemma consume_balanced:
  assumes "consume env w = (v, out)" "balanced k w"
  shows "balanced k v \<and> out \<noteq> Raise e"
proof (cases "dw_batch_size w \<le> int (length (dw_pending_batch w)) \<or> dw_stop_requested w \<and> rq_size (dw_queue w) = 0")
  case True
  then have "flush_pending env w = (v, out)" using assms(1) by (auto simp: consume_def split: if_splits)
  then show ?thesis using flush_pending_balanced assms(2) by blast
next
  case False
  let ?w1 = "w\<lparr>dw_waits := Suc (dw_waits w)\<rparr>"
  show ?thesis
  proof (cases "dv_wait_cancelled env (dw_waits w)")
    case True
    then have "v = ?w1\<lparr>dw_orphan_gets := Suc (dw_orphan_gets w)\<rparr>" "out = Cancelled"
      using assms(1) False by (auto simp: consume_def wait_for_item_def Let_def split: if_splits)
    then show ?thesis using assms(2) by (simp add: balanced_def)
  next
    case wait: False
    show ?thesis
    proof (cases "rq_get (dw_queue w)")
      case None
      then have "flush_pending env ?w1 = (v, out)"
        using assms(1) False wait by (auto simp: consume_def wait_for_item_def Let_def split: if_splits)
      moreover have "balanced k ?w1" using assms(2) by (simp add: balanced_def)
      ultimately show ?thesis using flush_pending_balanced by blast
    next
      case (Some p)
      obtain q x where p: "p = (q, x)" by fastforce
      define u where "u = w\<lparr>dw_waits := Suc (dw_waits w), dw_queue := q,
          dw_pending_batch := dw_pending_batch w @ [x]\<rparr>"
      have "(v = u \<and> out = Ret ()) \<or> flush_pending env u = (v, out)"
        using assms(1) False wait Some p
        by (auto simp: consume_def wait_for_item_def Let_def u_def split: if_splits)
      moreover have "balanced k u"
        using assms(2) Some p by (auto simp: balanced_def u_def rq_get_def rq_size_def split: list.splits)
      ultimately show ?thesis using flush_pending_balanced [of u v out k e] by auto
    qed
  qed
qed

lemma consume_or_flush_balanced:
  assumes "consume_or_flush env w = (v, out)" "balanced k w"
  shows "balanced k v \<and> out \<noteq> Raise e"
proof (cases "dw_pending_batch w = []")
  case True
  obtain w1 res where r: "replay_spool_once env w = (w1, res)" by fastforce
  have same: "same_work w w1" "\<And>e. res \<noteq> Raise e" using replay_same [OF r] by auto
  have b1: "balanced k w1" using same_work_balanced [OF same(1)] assms(2) by simp
  have "consume env w1 = (v, out) \<or> v = w1 \<and> out \<noteq> Raise e"
    using assms(1) r True same(2)
    by (auto simp: consume_or_flush_def split: outcome.splits bool.splits)
  then show ?thesis using consume_balanced b1 by blast
qed (use assms in \<open>simp add: consume_or_flush_def consume_balanced\<close>)

lemma final_flush_balanced:
  assumes "final_flush env out w = (v, res)" "balanced k w"
  shows "balanced k v \<and> (res = out \<or> res = Cancelled) \<and> (res = Ret () \<longrightarrow> dw_pending_batch v = [] \<and>
    rq_items (dw_queue v) = rq_items (dw_queue w) \<and> \<not> dw_running v \<and> dw_stopped v)"
proof -
  obtain w1 r where f: "flush_pending env w = (w1, r)" by fastforce
  have b: "balanced k w1" "same_shell w w1" "\<And>e. r \<noteq> Raise e" "r = Ret () \<Longrightarrow> dw_pending_batch w1 = []"
    using flush_pending_balanced [OF f assms(2)] by auto
  show ?thesis
    using assms(1) f b by (cases r) (auto simp: final_flush_def balanced_def same_shell_def)
qed

lemma leave_run_balanced:
  assumes "leave_run env out w = (v, res)" "balanced k w" "\<And>e. out \<noteq> Raise e"
  shows "balanced k v \<and> res \<noteq> Raise e \<and> (res = Ret () \<longrightarrow> out = Ret () \<and> dw_pending_batch v = [] \<and>
    rq_items (dw_queue v) = rq_items (dw_queue w) \<and> \<not> dw_running v \<and> dw_stopped v)"
proof (cases "out = Cancelled")
  case True
  obtain w1 r where f: "flush_pending env w = (w1, r)" by fastforce
  have b: "balanced k w1" "\<And>e. r \<noteq> Raise e" using flush_pending_balanced [OF f assms(2)] by auto
  have "final_flush env Cancelled w1 = (v, res)"
    using assms(1) f True b(2) by (auto simp: leave_run_def split: outcome.splits)
  then show ?thesis using final_flush_balanced [OF _ b(1)] by fastforce
next
  case False
  then have "final_flush env out w = (v, res)" using assms(1) by (auto simp: leave_run_def split: outcome.splits)
  from final_flush_balanced [OF this assms(2)] show ?thesis using assms(3) by auto
qed

lemma run_turn_balanced:
  assumes "run_turn env w = (v, res)" "balanced k w"
  shows "balanced k v \<and> res \<noteq> Some (Raise e) \<and>
    (res = Some (Ret ()) \<longrightarrow> dw_pending_batch v = [] \<and> rq_size (dw_queue v) = 0 \<and> \<not> dw_running v \<and> dw_stopped v)"
proof (cases "should_stop w")
  case True
  then obtain o' where l: "leave_run env (Ret ()) w = (v, o')" "res = Some o'"
    using assms(1) by (auto simp: run_turn_def split: prod.splits)
  show ?thesis using leave_run_balanced [OF l(1) assms(2)] l(2) True by (auto simp: should_stop_def rq_size_def)
next
  case False
  obtain w1 r where c: "consume_or_flush env w = (w1, r)" by fastforce
  have b: "balanced k w1" "\<And>e. r \<noteq> Raise e" using consume_or_flush_balanced [OF c assms(2)] by auto
  show ?thesis
  proof (cases r)
    case (Ret u)
    then show ?thesis using assms(1) c False b by (simp add: run_turn_def)
  next
    case Cancelled
    then obtain o' where l: "leave_run env Cancelled w1 = (v, o')" "res = Some o'"
      using assms(1) c False by (auto simp: run_turn_def split: prod.splits)
    show ?thesis using leave_run_balanced [OF l(1) b(1)] l(2) by auto
  qed (use b(2) in simp)
qed

end

section \<open>Runs of the writer\<close>

text \<open>
  A run: the writer, its producers and its owner in any interleaving. \<open>ins\<close> are the items
  that entered the queue, \<open>os\<close> the items taken by orphaned \<^verbatim>\<open>get\<close> tasks, and the last
  argument says whether the task of \<^verbatim>\<open>run\<close> is alive.
\<close>

fun producer_event :: "'a queue_event \<Rightarrow> bool" where
  "producer_event (QE_Get x) = False"
| "producer_event QE_Done = False"
| "producer_event QE_Drop = False"
| "producer_event _ = True"

inductive writer_trace ::
  "('r, 's) writer_env \<Rightarrow> ('r, 's) writer \<Rightarrow> worker_poll_result list \<Rightarrow> worker_poll_result list
     \<Rightarrow> ('r, 's) writer \<Rightarrow> bool \<Rightarrow> bool" for env w0 where
  new: "writer_trace env w0 [] [] w0 False"
| run: "writer_trace env w0 ins os w alive \<Longrightarrow> start_run w = (v, Ret ()) \<Longrightarrow> writer_trace env w0 ins os v True"
| turn: "writer_trace env w0 ins os w True \<Longrightarrow> run_turn env w = (v, res) \<Longrightarrow>
    writer_trace env w0 ins os v (res = None)"
| stop: "writer_trace env w0 ins os w alive \<Longrightarrow> writer_trace env w0 ins os (writer_stop w) alive"
| producer: "writer_trace env w0 ins os w alive \<Longrightarrow> queue_step (dw_queue w) ev q \<Longrightarrow> producer_event ev \<Longrightarrow>
    writer_trace env w0 (ins @ entered (dw_queue w) ev) os (w\<lparr>dw_queue := q\<rparr>) alive"
| orphan: "writer_trace env w0 ins os w alive \<Longrightarrow> 0 < dw_orphan_gets w \<Longrightarrow> rq_get (dw_queue w) = Some (q, x) \<Longrightarrow>
    writer_trace env w0 ins (os @ [x]) (w\<lparr>dw_queue := q, dw_orphan_gets := dw_orphan_gets w - 1\<rparr>) alive"

lemma producer_step_items:
  assumes "queue_step q ev q'" "producer_event ev"
  shows "rq_items q' = rq_items q @ entered q ev \<and>
    rq_unfinished q' = rq_unfinished q + length (entered q ev)"
  using assms
  by (cases rule: queue_step.cases)
    (auto simp: rq_put_def rq_resume_def rq_put_timeout_def enqueue_def drop_waiting_def rq_close_def Let_def
      split: option.splits)

text \<open>What holds after a run that started with an empty queue and batch.\<close>

definition run_accounted ::
  "('r \<Rightarrow> worker_poll_result \<Rightarrow> bool) \<Rightarrow> ('s \<Rightarrow> bool) \<Rightarrow> ('s \<Rightarrow> worker_poll_result \<Rightarrow> bool)
     \<Rightarrow> worker_poll_result set \<Rightarrow> ('r, 's) writer \<Rightarrow> worker_poll_result list \<Rightarrow> worker_poll_result list
     \<Rightarrow> ('r, 's) writer \<Rightarrow> bool" where
  "run_accounted stored sound held U w0 ins os w \<longleftrightarrow>
     confined sound held U w \<and> balanced (length os) w \<and> losses w0 \<le> losses w \<and>
     (dw_spool w = None \<longleftrightarrow> dw_spool w0 = None) \<and>
     (\<forall>x \<in> U. secured stored held w0 x \<longrightarrow> secured stored held w x) \<and>
     (losses w = losses w0 \<longrightarrow>
        (\<forall>x \<in> set ins. x \<in> work_of w \<or> secured stored held w x \<or> x \<in> set os))"

lemma run_accounted_same:
  assumes "run_accounted stored sound held U w0 ins os w" "dw_queue v = dw_queue w"
    "dw_pending_batch v = dw_pending_batch w" "dw_spool v = dw_spool w" "dw_repository v = dw_repository w"
    "losses v = losses w"
  shows "run_accounted stored sound held U w0 ins os v"
proof -
  have "work_of v = work_of w" "balanced k v \<longleftrightarrow> balanced k w" "confined sound held U v \<longleftrightarrow> confined sound held U w" for k
    using assms by (simp_all add: work_of_def balanced_def confined_def)
  moreover have "secured stored held v x \<longleftrightarrow> secured stored held w x" for x using assms by (simp add: secured_def)
  ultimately show ?thesis using assms by (simp add: run_accounted_def)
qed

context durable_writer
begin

lemma trace_accounted:
  assumes "writer_trace env w0 ins os w alive" "distinct_executions U" "set ins \<subseteq> U"
    and "confined sound held U w0" "work_of w0 = {}" "balanced 0 w0"
  shows "run_accounted stored sound held U w0 ins os w"
  using assms(1,3)
proof (induction rule: writer_trace.induct)
  case new
  then show ?case using assms by (simp add: run_accounted_def)
next
  case (run ins os w alive v)
  have "v = w\<lparr>dw_running := True, dw_stopped := False\<rparr>"
    using run.hyps(2) by (simp add: start_run_def split: if_splits)
  then show ?case by (intro run_accounted_same [OF run.IH [OF run.prems]]) (simp_all add: losses_def)
next
  case (turn ins os w v res)
  then have w: "run_accounted stored sound held U w0 ins os w" by simp
  have car: "careful stored sound held U w v" by (rule run_turn_careful [OF turn.hyps(2) assms(2)])
  have bal: "balanced (length os) v"
    using run_turn_balanced [OF turn.hyps(2)] w by (auto simp: run_accounted_def)
  have conf: "confined sound held U w" using w by (simp add: run_accounted_def)
  note c = car [unfolded careful_def, rule_format, OF conf]
  have "x \<in> work_of v \<or> secured stored held v x \<or> x \<in> set os" if "losses v = losses w0" "x \<in> set ins" for x
  proof -
    have l: "losses v = losses w" "losses w = losses w0"
      using that(1) c w unfolding run_accounted_def by linarith+
    have xU: "x \<in> U" using that(2) turn.prems by blast
    have "x \<in> work_of w \<or> secured stored held w x \<or> x \<in> set os"
      using w l(2) that(2) by (simp add: run_accounted_def)
    then show ?thesis using c l(1) xU by blast
  qed
  moreover have "losses w0 \<le> losses v" using c w by (auto simp: run_accounted_def)
  moreover have "dw_spool v = None \<longleftrightarrow> dw_spool w0 = None" using c w by (simp add: run_accounted_def)
  moreover have "\<forall>x \<in> U. secured stored held w0 x \<longrightarrow> secured stored held v x"
    using c w by (simp add: run_accounted_def)
  ultimately show ?case using c bal unfolding run_accounted_def by blast
next
  case (stop ins os w alive)
  show ?case by (rule run_accounted_same [OF stop.IH [OF stop.prems]]) (simp_all add: losses_def writer_stop_def)
next
  case (producer ins os w alive ev q)
  then have w: "run_accounted stored sound held U w0 ins os w" by simp
  have q: "rq_items q = rq_items (dw_queue w) @ entered (dw_queue w) ev"
    "rq_unfinished q = rq_unfinished (dw_queue w) + length (entered (dw_queue w) ev)"
    using producer_step_items [OF producer.hyps(2,3)] by simp_all
  let ?v = "w\<lparr>dw_queue := q\<rparr>"
  have wk: "work_of ?v = work_of w \<union> set (entered (dw_queue w) ev)" using q(1) by (auto simp: work_of_def)
  have sec: "secured stored held ?v x \<longleftrightarrow> secured stored held w x" for x by (simp add: secured_def)
  have "confined sound held U ?v" using w wk producer.prems by (simp add: run_accounted_def confined_def)
  moreover have "balanced (length os) ?v" using w q by (simp add: run_accounted_def balanced_def rq_size_def)
  ultimately show ?case using w unfolding run_accounted_def sec wk by (auto simp: losses_def)
next
  case (orphan ins os w alive q x)
  then have w: "run_accounted stored sound held U w0 ins os w" by simp
  have items: "rq_items (dw_queue w) = x # rq_items q" "rq_unfinished q = rq_unfinished (dw_queue w)"
    using orphan.hyps(3) by (auto simp: rq_get_def split: list.splits)
  let ?v = "w\<lparr>dw_queue := q, dw_orphan_gets := dw_orphan_gets w - 1\<rparr>"
  have wk: "work_of w = insert x (work_of ?v)" using items by (auto simp: work_of_def)
  have sec: "secured stored held ?v y \<longleftrightarrow> secured stored held w y" for y by (simp add: secured_def)
  have "confined sound held U ?v" using w items by (auto simp: run_accounted_def confined_def work_of_def)
  moreover have "balanced (length (os @ [x])) ?v"
    using w items by (simp add: run_accounted_def balanced_def rq_size_def)
  moreover have "losses ?v = losses w" by (simp add: losses_def)
  moreover have "dw_spool ?v = dw_spool w" by simp
  moreover have "\<forall>y \<in> set ins. y \<in> work_of ?v \<or> secured stored held w y \<or> y \<in> set (os @ [x])"
    if "losses w = losses w0"
    using w that unfolding run_accounted_def wk by auto
  ultimately show ?case using w unfolding run_accounted_def sec by auto
qed

end

section \<open>Draining\<close>

text \<open>An environment in which nothing is cancelled; calls may still fail and time out.\<close>

definition calm_writer_env :: "('r, 's) writer_env \<Rightarrow> bool" where
  "calm_writer_env env \<longleftrightarrow> (\<forall>n b. dv_io env n \<noteq> IO_Cancelled b) \<and> (\<forall>n d. dv_sleep env n d \<noteq> Cancelled) \<and>
     (\<forall>n. \<not> dv_wait_cancelled env n)"

lemma in_thread_calm: "(\<forall>b. fate \<noteq> IO_Cancelled b) \<Longrightarrow> snd (in_thread fate f s) \<noteq> Cancelled"
  by (cases fate) (auto simp: in_thread_def split: prod.splits)

lemma persist_loop_calm:
  fixes env :: "('r, 's) writer_env"
  assumes "calm_writer_env env"
  shows "snd (retry_loop (persist_env env xs) p n r w) \<noteq> Cancelled"
proof (rule retry_loop_rule [where P = "\<lambda>n r w res. snd res \<noteq> Cancelled"])
  fix s s1 :: "('r, 's) writer"
  assume "re_operation (persist_env env xs) s = (s1, Cancelled)"
  moreover have "snd (in_thread (dv_io env (dw_ios s)) (ro_save (dv_repository env) xs) (dw_repository s)) \<noteq> Cancelled"
    using assms by (intro in_thread_calm) (simp add: calm_writer_env_def)
  ultimately show "snd (s1, Cancelled) \<noteq> Cancelled"
    by (auto simp: persist_env_def save_batch_def repository_call_def split: prod.splits)
next
  fix s1 s2 :: "('r, 's) writer" and e d r
  assume "re_sleep (persist_env env xs) d (re_on_retry (persist_env env xs) e d (Suc r) s1) = (s2, Cancelled)"
  then show "snd (s2, Cancelled) \<noteq> Cancelled"
    using assms by (simp add: persist_env_def writer_sleep_def calm_writer_env_def)
qed simp_all

lemma persist_batch_calm:
  assumes "persist_batch env xs w = (v, out)" "calm_writer_env env"
  shows "out \<noteq> Cancelled"
proof -
  obtain u res where r: "run_with_retry (persist_env env xs) (dw_policy w) w = (u, res)" by fastforce
  have "res \<noteq> Cancelled"
    using persist_loop_calm [OF assms(2), of xs "dw_policy w" 0 0 w] r by (simp add: run_with_retry_def)
  then show ?thesis using assms(1) r by (cases res) (auto simp: persist_batch_def)
qed

lemma spool_batch_calm:
  assumes "spool_batch env xs w = (v, out)" "calm_writer_env env"
  shows "out \<noteq> Cancelled"
proof (cases "dw_spool w")
  case (Some s)
  obtain u res where c: "spool_call env (so_append (dv_spool env) xs) s w = (u, res)" by fastforce
  have "snd (in_thread (dv_io env (dw_ios w)) (so_append (dv_spool env) xs) s) \<noteq> Cancelled"
    using assms(2) by (intro in_thread_calm) (simp add: calm_writer_env_def)
  then have "res \<noteq> Cancelled" using c by (auto simp: spool_call_def split: prod.splits)
  then show ?thesis using assms(1) Some c by (cases res) (auto simp: spool_batch_def)
qed (use assms(1) in \<open>auto simp: spool_batch_def\<close>)

context durable_writer
begin

lemma flush_pending_calm:
  assumes "balanced k w" "calm_writer_env env"
  obtains v where "flush_pending env w = (v, Ret ())" "balanced k v" "same_shell w v" "dw_pending_batch v = []"
proof -
  obtain v out where f: "flush_pending env w = (v, out)" by fastforce
  note b = flush_pending_balanced [OF f assms(1)]
  have "out \<noteq> Cancelled"
  proof (cases "dw_pending_batch w = []")
    case True
    then show ?thesis using f by (auto simp: flush_pending_def)
  next
    case False
    obtain w1 res where p: "persist_batch env (dw_pending_batch w) w = (w1, res)" by fastforce
    obtain w2 sres where s: "spool_batch env (dw_pending_batch w) w1 = (w2, sres)" by fastforce
    have nc: "res \<noteq> Cancelled" "sres \<noteq> Cancelled"
      using persist_batch_calm [OF p assms(2)] spool_batch_calm [OF s assms(2)] by simp_all
    have ack: "snd (ack_batch n u) \<noteq> Cancelled" for n and u :: "('r, 's) writer"
    proof -
      have "snd (tasks_done n q) \<noteq> Cancelled" for q :: "worker_poll_result reading_queue"
        by (induction n arbitrary: q) (auto split: sum.splits)
      from this [of "dw_queue u"] show ?thesis
        by (cases "tasks_done n (dw_queue u)") (simp add: ack_batch_def)
    qed
    show ?thesis
      using f False p s nc ack
      by (cases res; cases sres)
        (auto simp: flush_pending_def Let_def split: bool.splits dest: arg_cong [where f = snd])
  qed
  then have "out = Ret ()" using b by (cases out) auto
  then show thesis using that f b by blast
qed

text \<open>The work that is left, with a batch counting as one more step.\<close>

lemma turn_drains:
  assumes "calm_writer_env env" "balanced k w" "dw_spool w = None" "dw_stop_requested w" "0 < dw_batch_size w"
  obtains v where "run_turn env w = (v, Some (Ret ()))" "should_stop w"
  | v where "run_turn env w = (v, None)" "balanced k v" "dw_spool v = None" "dw_stop_requested v" "0 < dw_batch_size v"
    "2 * rq_size (dw_queue v) + (if dw_pending_batch v = [] then 0 else 1)
       < 2 * rq_size (dw_queue w) + (if dw_pending_batch w = [] then 0 else (1::nat))"
proof (cases "should_stop w")
  case True
  obtain v where f: "flush_pending env w = (v, Ret ())" by (rule flush_pending_calm [OF assms(2,1)])
  then have "run_turn env w = (v\<lparr>dw_running := False, dw_stopped := True\<rparr>, Some (Ret ()))"
    using True by (simp add: run_turn_def leave_run_def final_flush_def)
  then show thesis using that(1) True by blast
next
  case stop: False
  have c: "consume_or_flush env w = consume env w"
    using assms(3) by (simp add: consume_or_flush_def replay_spool_once_def)
  show thesis
  proof (cases "dw_batch_size w \<le> int (length (dw_pending_batch w)) \<or> rq_size (dw_queue w) = 0")
    case True
    then have pend: "dw_pending_batch w \<noteq> []" using stop assms(4,5) by (auto simp: should_stop_def)
    obtain v where f: "flush_pending env w = (v, Ret ())" "balanced k v" "same_shell w v" "dw_pending_batch v = []"
      by (rule flush_pending_calm [OF assms(2,1)])
    have "consume env w = (v, Ret ())" using True assms(4) f(1) by (auto simp: consume_def)
    then have "run_turn env w = (v, None)" using stop c by (simp add: run_turn_def)
    then show thesis using that(2) f pend assms(3-5) by (simp add: same_shell_def rq_size_def)
  next
    case False
    then obtain x xs where xs: "rq_items (dw_queue w) = x # xs" by (cases "rq_items (dw_queue w)") (auto simp: rq_size_def)
    define q where "q = (dw_queue w)\<lparr>rq_items := xs\<rparr>"
    have q: "rq_get (dw_queue w) = Some (q, x)" "Suc (rq_size q) = rq_size (dw_queue w)"
      using xs by (simp_all add: rq_get_def rq_size_def q_def)
    define u where "u = w\<lparr>dw_waits := Suc (dw_waits w), dw_queue := q,
        dw_pending_batch := dw_pending_batch w @ [x]\<rparr>"
    have wc: "\<not> dv_wait_cancelled env (dw_waits w)" using assms(1) by (simp add: calm_writer_env_def)
    have cons: "consume env w = (if dw_batch_size u \<le> int (length (dw_pending_batch u))
        then flush_pending env u else (u, Ret ()))"
      using False assms(4) wc q(1) by (auto simp: consume_def wait_for_item_def Let_def u_def)
    have ub: "balanced k u"
      using assms(2) q by (auto simp: balanced_def u_def rq_get_def rq_size_def split: list.splits)
    show thesis
    proof (cases "dw_batch_size u \<le> int (length (dw_pending_batch u))")
      case True
      obtain v where f: "flush_pending env u = (v, Ret ())" "balanced k v" "same_shell u v" "dw_pending_batch v = []"
        by (rule flush_pending_calm [OF ub assms(1)])
      have "run_turn env w = (v, None)" using stop c cons True f(1) by (simp add: run_turn_def)
      moreover have "rq_size (dw_queue v) = rq_size q" using f(3) by (simp add: same_shell_def rq_size_def u_def)
      ultimately show thesis using that(2) f assms(3-5) q(2) by (simp add: same_shell_def u_def)
    next
      case nf: False
      have "run_turn env w = (u, None)" using stop c cons nf by (simp add: run_turn_def)
      then show thesis using that(2) ub assms(3-5) q(2) by (simp add: u_def)
    qed
  qed
qed

lemma loop_drains:
  assumes "calm_writer_env env" "balanced k w" "dw_spool w = None" "dw_stop_requested w" "0 < dw_batch_size w"
    and "2 * rq_size (dw_queue w) + (if dw_pending_batch w = [] then 0 else 1) < n"
  shows "\<exists>v. run_loop n env w = (v, Some (Ret ())) \<and> balanced k v \<and> dw_pending_batch v = [] \<and>
    rq_size (dw_queue v) = 0 \<and> \<not> dw_running v \<and> dw_stopped v"
  using assms(2-)
proof (induction n arbitrary: w)
  case (Suc n)
  from turn_drains [OF assms(1) Suc.prems(1-4)] show ?case
  proof cases
    case (1 v)
    then show ?thesis using run_turn_balanced [OF 1(1) Suc.prems(1)] by simp
  next
    case (2 v)
    then show ?thesis using Suc.IH [of v] Suc.prems(5) by simp
  qed
qed simp

end

section \<open>The gateway's writer\<close>

text \<open>The writer over the database and the SQLite spool, under any fates of its calls.\<close>

definition gateway_env ::
  "(nat \<Rightarrow> io_fate) \<Rightarrow> (nat \<Rightarrow> rat \<Rightarrow> unit outcome) \<Rightarrow> (nat \<Rightarrow> bool) \<Rightarrow> (database, spool_service) writer_env" where
  "gateway_env io sl wc = \<lparr>dv_repository = reading_repository, dv_spool = sqlite_spool, dv_io = io,
     dv_sleep = sl, dv_wait_cancelled = wc\<rparr>"

interpretation gw: durable_writer "gateway_env io sl wc" persisted service_ok service_holds for io sl wc
  by (rule durable_writer.intro)
    (simp_all add: gateway_env_def db.poll_repository_axioms sq.poll_spool_axioms)

text \<open>A writer just built, on a new queue and a sound spool.\<close>

definition fresh_writer :: "spool_service option \<Rightarrow> (database, spool_service) writer \<Rightarrow> bool" where
  "fresh_writer sp w \<longleftrightarrow> (\<exists>q n t db c. reading_queue_new n t = Inr q \<and> writer_new q db sp c = Inr w) \<and>
     (case sp of None \<Rightarrow> True | Some s \<Rightarrow> service_ok s)"

definition spooled_before :: "spool_service option \<Rightarrow> worker_poll_result set" where
  "spooled_before sp = (case sp of None \<Rightarrow> {} | Some s \<Rightarrow> {x. service_holds s x})"

lemma fresh_writer_facts:
  assumes "fresh_writer sp w"
  shows "work_of w = {}" "balanced 0 w" "losses w = 0" "dw_spool w = sp"
proof -
  obtain q n t db c where q: "reading_queue_new n t = Inr q" "writer_new q db sp c = Inr w"
    using assms(1) by (auto simp: fresh_writer_def)
  have f: "dw_queue w = q \<and> dw_pending_batch w = [] \<and> dw_spool w = sp \<and> dw_spool_full_failures w = 0 \<and>
      dw_failed_poll_results w = 0"
    using q(2) by (auto simp: writer_new_def value_error_def split: if_splits)
  have qq: "rq_items q = []" "rq_unfinished q = 0"
    using q(1) by (auto simp: reading_queue_new_def value_error_def split: if_splits)
  show "work_of w = {}" "balanced 0 w" "losses w = 0" "dw_spool w = sp"
    using f qq by (simp_all add: work_of_def balanced_def losses_def rq_size_def)
qed

lemma fresh_writer_confined:
  assumes "fresh_writer sp w" "spooled_before sp \<subseteq> U"
  shows "confined service_ok service_holds U w"
  using assms fresh_writer_facts [OF assms(1)]
  by (auto simp: confined_def fresh_writer_def spooled_before_def split: option.splits)

lemma gateway_trace:
  assumes "fresh_writer sp w0" "writer_trace (gateway_env io sl wc) w0 ins os w alive"
    and "distinct_executions (set ins \<union> spooled_before sp)"
  shows "run_accounted persisted service_ok service_holds (set ins \<union> spooled_before sp) w0 ins os w"
  by (rule gw.trace_accounted [OF assms(2,3) _ fresh_writer_confined [OF assms(1)]
        fresh_writer_facts(1,2) [OF assms(1)]]) simp_all

lemma accounted_everywhere:
  assumes "run_accounted persisted service_ok service_holds U w0 ins os w" "losses w0 = 0" "losses w = 0" "x \<in> set ins"
  shows "x \<in> set (rq_items (dw_queue w)) \<or> x \<in> set (dw_pending_batch w) \<or>
    persisted (dw_repository w) x \<or> (\<exists>s. dw_spool w = Some s \<and> service_holds s x) \<or> x \<in> set os"
  using assms by (auto simp: run_accounted_def work_of_def secured_def split: option.splits)

section \<open>Properties\<close>

text \<open>
  C1: no item is lost silently. Whatever happens to the threaded calls, the sleeps and the
  writer's own task, and however producers and restarts interleave: while the writer has
  counted no loss, every item that entered the queue is still queued, in the batch, in the
  database, or in the spool; the only way out is an orphaned \<^verbatim>\<open>get\<close> of a cancelled wait.
\<close>

theorem writer_no_silent_loss:
  assumes "fresh_writer sp w0" "writer_trace (gateway_env io sl wc) w0 ins os w alive"
    and "distinct_executions (set ins \<union> spooled_before sp)" "losses w = 0" "x \<in> set ins"
  shows "x \<in> set (rq_items (dw_queue w)) \<or> x \<in> set (dw_pending_batch w) \<or>
    persisted (dw_repository w) x \<or> (\<exists>s. dw_spool w = Some s \<and> service_holds s x) \<or> x \<in> set os"
  using accounted_everywhere [OF gateway_trace [OF assms(1-3)] fresh_writer_facts(3) [OF assms(1)] assms(4,5)] .

text \<open>
  C2: what is in the spool when a writer starts is replayed or kept: after any run it is in
  the database or still in the spool. An entry is never deleted before it is stored.
\<close>

theorem spooled_results_survive:
  assumes "fresh_writer (Some s0) w0" "writer_trace (gateway_env io sl wc) w0 ins os w alive"
    and "distinct_executions (set ins \<union> spooled_before (Some s0))" "service_holds s0 x"
  shows "persisted (dw_repository w) x \<or> (\<exists>s. dw_spool w = Some s \<and> service_holds s x)"
proof -
  have "x \<in> spooled_before (Some s0)" using assms(4) by (simp add: spooled_before_def)
  moreover have "secured persisted service_holds w0 x"
    using fresh_writer_facts(4) [OF assms(1)] assms(4) by (simp add: secured_def)
  ultimately have "secured persisted service_holds w x"
    using gateway_trace [OF assms(1-3)] by (simp add: run_accounted_def)
  then show ?thesis by (auto simp: secured_def split: option.splits)
qed

text \<open>
  The books of the queue stay balanced. In every state of a run the unfinished tasks of
  the queue are its items, the batch and the orphaned items, so that acknowledging a batch
  never raises and \<^verbatim>\<open>run\<close> ends in no error: it goes on, returns, or is cancelled.
\<close>

lemma writer_books_balance:
  assumes "fresh_writer sp w0" "writer_trace (gateway_env io sl wc) w0 ins os w alive"
    and "distinct_executions (set ins \<union> spooled_before sp)" "run_turn (gateway_env io sl wc) w = (v, res)"
  shows "rq_unfinished (dw_queue w) = rq_size (dw_queue w) + length (dw_pending_batch w) + length os \<and>
    res \<in> {None, Some (Ret ()), Some Cancelled}"
proof -
  have b: "balanced (length os) w" using gateway_trace [OF assms(1-3)] by (simp add: run_accounted_def)
  have ne: "res \<noteq> Some (Raise e)" for e using gw.run_turn_balanced [OF assms(4) b] by simp
  have "res \<in> {None, Some (Ret ()), Some Cancelled}"
  proof (cases res)
    case (Some out)
    then show ?thesis using ne by (cases out) auto
  qed simp
  then show ?thesis using b by (simp add: balanced_def)
qed

text \<open>
  C3: a writer that is shut down drains. Without a spool and without cancellations, for a running
  writer whose books balance, the loop returns after at most two turns for each queued item and
  two more, however the calls fail: everything is acknowledged, and a shutdown whose time limit
  allows for these turns reports a drained writer with nothing left.
\<close>

theorem stopped_writer_drains:
  assumes "calm_writer_env (gateway_env io sl wc)" "balanced 0 w" "dw_spool w = None"
    and "\<not> dw_stopped w" "0 < dw_batch_size w" "0 < timeout_s" "2 * rq_size (dw_queue w) + 2 \<le> turns"
  shows "\<exists>v. run_loop turns (gateway_env io sl wc) (writer_stop w) = (v, Some (Ret ())) \<and>
    shutdown_writer turns (gateway_env io sl wc) timeout_s w =
      (v, Ret \<lparr>wh_drained = True, wh_pending_queue_items = 0, wh_pending_batch_items = 0\<rparr>) \<and>
    rq_joined (dw_queue v) \<and> dw_stopped v \<and> \<not> dw_running v"
proof -
  let ?w = "writer_stop w"
  have "balanced 0 ?w" "dw_spool ?w = None" "dw_stop_requested ?w" "0 < dw_batch_size ?w"
    using assms(2,3,5) by (simp_all add: writer_stop_def balanced_def)
  moreover have "2 * rq_size (dw_queue ?w) + (if dw_pending_batch ?w = [] then 0 else 1) < turns"
    using assms(7) by (auto simp: writer_stop_def)
  ultimately obtain v where v: "run_loop turns (gateway_env io sl wc) ?w = (v, Some (Ret ()))" "balanced 0 v"
    "dw_pending_batch v = []" "rq_size (dw_queue v) = 0" "\<not> dw_running v" "dw_stopped v"
    using gw.loop_drains [OF assms(1)] by blast
  have "shutdown_writer turns (gateway_env io sl wc) timeout_s w = (v, Ret (shutdown_report False v))"
    using assms(4,6) v(1,6) by (simp add: shutdown_writer_def begin_shutdown_def writer_stop_def)
  then show ?thesis using v by (auto simp: balanced_def rq_joined_def shutdown_report_def)
qed

text \<open>
  A writer with one item per batch, whose first save fails outside the program: the item
  goes to the spool.
\<close>

definition ex_settings :: writer_settings where
  "ex_settings = \<lparr>ws_batch_size = 1, ws_flush_interval_s = 1, ws_storage_timeout_s = 1,
     ws_max_retries = 0, ws_retry_delay_s = 0, ws_retry_policy = None, ws_spool_replay_batch_size = None,
     ws_spool_retry_delay_s = 1, ws_spool_timeout_s = None\<rparr>"

definition ex_service :: "spool \<Rightarrow> spool_service" where
  "ex_service s = \<lparr>ss_spool = s, ss_clock = (\<lambda>n. 100), ss_reads = 0\<rparr>"

definition ex_writer :: "spool_service option \<Rightarrow> (database, spool_service) writer" where
  "ex_writer sp = (case reading_queue_new 5 1 of Inr q \<Rightarrow> (case writer_new q ex_db sp ex_settings of Inr w \<Rightarrow> w))"

definition ex_fates :: "nat \<Rightarrow> io_fate" where
  "ex_fates n = (if n = 1 then IO_Fails (exn PyOSError ''disk I/O error'') else IO_Completes)"

definition ex_gateway :: "(database, spool_service) writer_env" where
  "ex_gateway = gateway_env ex_fates (\<lambda>n d. Ret ()) (\<lambda>n. False)"

definition ex_running :: "spool_service option \<Rightarrow> (database, spool_service) writer" where
  "ex_running sp = (ex_writer sp)\<lparr>dw_running := True, dw_stopped := False\<rparr>"

definition ex_fed :: "spool_service option \<Rightarrow> (database, spool_service) writer" where
  "ex_fed sp = (ex_running sp)\<lparr>dw_queue := enqueue (ex_poll_result ''e1'') (dw_queue (ex_running sp))\<rparr>"

definition ex_turned :: "(database, spool_service) writer" where
  "ex_turned = fst (run_turn ex_gateway (ex_fed (Some (ex_service ex_empty_spool))))"

lemma ex_service_ok: "rows_ok (sp_rows s) \<Longrightarrow> service_ok (ex_service s)"
  by (simp add: service_ok_def ex_service_def valid_wall_def max_wall_def)

lemma ex_empty_rows: "rows_ok (sp_rows ex_empty_spool)"
proof -
  have "sp_rows ex_empty_spool = []" by code_simp
  then show ?thesis by (simp add: rows_ok_def)
qed

lemma ex_writer_eq:
  "ex_writer sp = \<lparr>dw_queue = \<lparr>rq_max_size = 5, rq_timeout_s = 1, rq_items = [], rq_waiting = [],
       rq_unfinished = 0, rq_closed = False, rq_dropped_items = 0, rq_put_timeouts = 0\<rparr>,
     dw_repository = ex_db, dw_spool = sp, dw_batch_size = 1,
     dw_policy = \<lparr>rp_max_attempts = 1, rp_initial_delay_s = 0, rp_max_delay_s = 0, rp_multiplier = 2,
       rp_jitter_ratio = 0\<rparr>,
     dw_replay_batch_size = 1, dw_spool_retry_delay_s = 1, dw_stop_requested = False, dw_stopped = True,
     dw_running = False, dw_pending_batch = [], dw_successful_batches = 0, dw_failed_batches = 0,
     dw_successful_poll_results = 0, dw_failed_poll_results = 0, dw_inserted_readings = 0,
     dw_retry_attempts = 0, dw_spooled_poll_results = 0, dw_spool_replayed = 0,
     dw_spool_failed_replays = 0, dw_spool_full_failures = 0, dw_last_error = None, dw_ios = 0,
     dw_sleeps = 0, dw_waits = 0, dw_orphan_gets = 0\<rparr>"
  by (simp add: ex_writer_def reading_queue_new_def writer_new_def ex_settings_def
      retry_policy_from_legacy_settings_def retry_policy_new_def)

lemma ex_fresh: "(case sp of None \<Rightarrow> True | Some s \<Rightarrow> service_ok s) \<Longrightarrow> fresh_writer sp (ex_writer sp)"
  unfolding fresh_writer_def
  by (intro conjI exI [of _ "dw_queue (ex_writer sp)"] exI [of _ 5] exI [of _ 1] exI [of _ ex_db]
      exI [of _ ex_settings])
    (simp_all add: ex_writer_eq reading_queue_new_def writer_new_def ex_settings_def
      retry_policy_from_legacy_settings_def retry_policy_new_def)

lemma ex_fed_trace: "writer_trace env (ex_writer sp) [ex_poll_result ''e1''] [] (ex_fed sp) True"
proof -
  have "start_run (ex_writer sp) = (ex_running sp, Ret ())"
    by (simp add: start_run_def ex_running_def ex_writer_eq)
  from writer_trace.run [OF writer_trace.new this]
  have r: "writer_trace env (ex_writer sp) [] [] (ex_running sp) True" .
  let ?q = "dw_queue (ex_running sp)" and ?x = "ex_poll_result ''e1''"
  have "queue_step ?q (QE_Put 0 ?x) (fst (rq_put 0 ?x ?q))"
    by (rule queue_step.put) (simp add: ex_running_def ex_writer_eq)
  moreover have "rq_put 0 ?x ?q = (enqueue ?x ?q, Put_Returned)"
    by (simp add: rq_put_def rq_full_def rq_size_def ex_running_def ex_writer_eq)
  ultimately have q: "queue_step ?q (QE_Put 0 ?x) (enqueue ?x ?q)" by simp
  have "entered ?q (QE_Put 0 ?x) = [?x]"
    by (simp add: rq_full_def rq_size_def ex_running_def ex_writer_eq)
  then show ?thesis using writer_trace.producer [OF r q] by (simp add: ex_fed_def)
qed

lemma ex_distinct: "distinct_executions {ex_poll_result ''e1'', ex_poll_result ''e2''}"
  by (auto simp: distinct_executions_def ex_poll_result_ok) (simp_all add: ex_poll_result_def wp_id_def)

lemma ex_turn: "run_turn ex_gateway (ex_fed (Some (ex_service ex_empty_spool))) = (ex_turned, None)"
proof -
  have "snd (run_turn ex_gateway (ex_fed (Some (ex_service ex_empty_spool)))) = None" by code_simp
  then show ?thesis by (simp add: ex_turned_def prod_eq_iff)
qed

lemma ex_turned_trace:
  "writer_trace ex_gateway (ex_writer (Some (ex_service ex_empty_spool))) [ex_poll_result ''e1''] [] ex_turned True"
  using writer_trace.turn [OF ex_fed_trace ex_turn] by simp

definition ex_summary :: "(database, 's) writer \<Rightarrow> nat \<times> bool \<times> bool \<times> bool" where
  "ex_summary w = (losses w, rq_items (dw_queue w) = [], dw_pending_batch w = [],
     map_of (db_executions (dw_repository w)) ''e1'' = None)"

lemma ex_turned_summary: "ex_summary ex_turned = (0, True, True, True)"
  by code_simp

theorem writer_no_silent_loss_witness:
  "\<exists>s. dw_spool ex_turned = Some s \<and> service_holds s (ex_poll_result ''e1'')"
proof -
  let ?sp = "Some (ex_service ex_empty_spool)"
  have fresh: "fresh_writer ?sp (ex_writer ?sp)" using ex_fresh [of ?sp] ex_service_ok [OF ex_empty_rows] by simp
  have "sp_rows ex_empty_spool = []" by code_simp
  then have "spooled_before ?sp = {}"
    by (simp add: spooled_before_def service_holds_def ex_service_def spool_holds_def)
  then have dist: "distinct_executions (set [ex_poll_result ''e1''] \<union> spooled_before ?sp)"
    using ex_distinct by (auto simp: distinct_executions_def)
  have "losses ex_turned = 0" "rq_items (dw_queue ex_turned) = []" "dw_pending_batch ex_turned = []"
    "map_of (db_executions (dw_repository ex_turned)) ''e1'' = None"
    using ex_turned_summary by (simp_all add: ex_summary_def)
  moreover have "wp_id (ex_poll_result ''e1'') = ''e1''" by code_simp
  ultimately show ?thesis
    using writer_no_silent_loss [OF fresh ex_turned_trace [unfolded ex_gateway_def] dist, of "ex_poll_result ''e1''"]
    by (simp add: persisted_def)
qed

lemma ex_spooled_before:
  "spooled_before (Some (ex_service ex_spool)) \<subseteq> {ex_poll_result ''e1'', ex_poll_result ''e2''}"
  "service_holds (ex_service ex_spool) (ex_poll_result ''e2'')"
proof -
  have rows: "map fst (sp_rows ex_spool) = [''e1'', ''e2'']" by (rule ex_spool_ids)
  have held: "poll_result_from_json (sr_payload (the (map_of (sp_rows ex_spool) ''e1''))) = Inr (ex_poll_result ''e1'')"
    "poll_result_from_json (sr_payload (the (map_of (sp_rows ex_spool) ''e2''))) = Inr (ex_poll_result ''e2'')"
    by code_simp+
  have "x = ex_poll_result ''e1'' \<or> x = ex_poll_result ''e2''" if held_x: "spool_holds ex_spool x" for x
  proof -
    obtain row where row: "map_of (sp_rows ex_spool) (wp_id x) = Some row" "poll_result_from_json (sr_payload row) = Inr x"
      using held_x by (auto simp: spool_holds_def)
    then have "wp_id x \<in> set (map fst (sp_rows ex_spool))" by (force dest: map_of_SomeD)
    then have "wp_id x = ''e1'' \<or> wp_id x = ''e2''" unfolding rows by simp
    then show ?thesis using row held by auto
  qed
  then show "spooled_before (Some (ex_service ex_spool)) \<subseteq> {ex_poll_result ''e1'', ex_poll_result ''e2''}"
    by (fastforce simp: spooled_before_def service_holds_def ex_service_def)
  have "map_of (sp_rows ex_spool) ''e2'' \<noteq> None" using rows by (auto simp: map_of_eq_None_iff simp flip: set_map)
  moreover have "wp_id (ex_poll_result ''e2'') = ''e2''" by code_simp
  ultimately show "service_holds (ex_service ex_spool) (ex_poll_result ''e2'')"
    using held by (auto simp: service_holds_def ex_service_def spool_holds_def)
qed

lemma ex_spooled_distinct:
  "distinct_executions (set [ex_poll_result ''e1''] \<union> spooled_before (Some (ex_service ex_spool)))"
  using ex_distinct ex_spooled_before(1) by (auto simp: distinct_executions_def)

lemma ex_spool_fresh: "fresh_writer (Some (ex_service ex_spool)) (ex_writer (Some (ex_service ex_spool)))"
  using ex_fresh [of "Some (ex_service ex_spool)"] ex_service_ok ex_spool_ok(3) by simp

definition ex_replayed :: "(database, spool_service) writer" where
  "ex_replayed = fst (run_turn ex_gateway (ex_fed (Some (ex_service ex_spool))))"

lemma ex_replay_turn: "run_turn ex_gateway (ex_fed (Some (ex_service ex_spool))) = (ex_replayed, None)"
proof -
  have "snd (run_turn ex_gateway (ex_fed (Some (ex_service ex_spool)))) = None" by code_simp
  then show ?thesis by (simp add: ex_replayed_def prod_eq_iff)
qed

theorem spooled_results_survive_witness:
  "persisted (dw_repository ex_replayed) (ex_poll_result ''e2'') \<or>
     (\<exists>s. dw_spool ex_replayed = Some s \<and> service_holds s (ex_poll_result ''e2''))"
proof -
  have "writer_trace ex_gateway (ex_writer (Some (ex_service ex_spool))) [ex_poll_result ''e1''] [] ex_replayed True"
    using writer_trace.turn [OF ex_fed_trace ex_replay_turn] by simp
  then show ?thesis
    using spooled_results_survive [OF ex_spool_fresh _ ex_spooled_distinct ex_spooled_before(2)]
    unfolding ex_gateway_def by blast
qed

theorem stopped_writer_drains_witness:
  "\<exists>v. run_loop 4 ex_gateway (writer_stop (ex_fed None)) = (v, Some (Ret ())) \<and>
    shutdown_writer 4 ex_gateway 5 (ex_fed None) =
      (v, Ret \<lparr>wh_drained = True, wh_pending_queue_items = 0, wh_pending_batch_items = 0\<rparr>) \<and>
    rq_joined (dw_queue v) \<and> dw_stopped v \<and> \<not> dw_running v"
  unfolding ex_gateway_def
  by (rule stopped_writer_drains)
    (simp_all add: ex_fed_def ex_running_def ex_writer_eq enqueue_def rq_size_def balanced_def
      calm_writer_env_def gateway_env_def ex_fates_def)

end
