(* ===== verification/Driver.thy ===== *)
theory Driver
  imports Retry
begin

text \<open>
  src/plc_gateway/protocols/driver.py and registry.py: the capabilities a driver declares,
  the contract of the \<^verbatim>\<open>CommunicationDriver\<close> protocol class as a locale, and the registry
  of driver factories. A driver is a state with four operations; the connection worker
  relies on the contract only, and the mock driver is shown to satisfy it.
\<close>

section \<open>Capabilities\<close>

record driver_capabilities =
  dc_protocol :: string
  dc_supports_batch_read :: bool
  dc_supports_health_check :: bool
  dc_max_batch_size :: "int option"

definition driver_capabilities_new ::
  "string \<Rightarrow> bool \<Rightarrow> bool \<Rightarrow> int option \<Rightarrow> driver_capabilities result" where
  "driver_capabilities_new protocol batch health max_batch =
     (let p = py_lower (py_strip protocol)
      in if p = [] then value_error ''protocol cannot be empty.''
         else if (case max_batch of None \<Rightarrow> False | Some n \<Rightarrow> n \<le> 0)
           then value_error ''max_batch_size must be positive when provided.''
         else Inr \<lparr>dc_protocol = p, dc_supports_batch_read = batch,
                dc_supports_health_check = health, dc_max_batch_size = max_batch\<rparr>)"

section \<open>The driver contract\<close>

record 'd driver_ops =
  drv_connect :: "'d \<Rightarrow> 'd \<times> unit outcome"
  drv_disconnect :: "'d \<Rightarrow> 'd \<times> unit outcome"
  drv_read :: "tag_request list \<Rightarrow> 'd \<Rightarrow> 'd \<times> tag_result list outcome"
  drv_health_check :: "'d \<Rightarrow> 'd \<times> bool outcome"

definition results_match :: "tag_request list \<Rightarrow> tag_result list \<Rightarrow> bool" where
  "results_match reqs res \<longleftrightarrow>
     list_all2 (\<lambda>q r. tr_tag_id r = rq_tag_id q \<and> tag_result_ok r \<and>
        (case tr_value r of None \<Rightarrow> True | Some v \<Rightarrow> tag_value_ok v)) reqs res"

lemma results_match_length: "results_match reqs res \<Longrightarrow> length res = length reqs"
  by (simp add: results_match_def list_all2_lengthD)

lemma results_match_ids: "results_match reqs res \<Longrightarrow> map tr_tag_id res = map rq_tag_id reqs"
  unfolding results_match_def by (induction reqs res rule: list_all2_induct) auto

lemma results_match_ok:
  "results_match reqs res \<Longrightarrow> r \<in> set res \<Longrightarrow>
     tag_result_ok r \<and> (case tr_value r of None \<Rightarrow> True | Some v \<Rightarrow> tag_value_ok v)"
  unfolding results_match_def by (induction reqs res rule: list_all2_induct) auto

text \<open>
  \<^verbatim>\<open>read\<close>: "return one result per requested tag"; every operation keeps the driver's own
  invariant, whatever its outcome.
\<close>

locale communication_driver =
  fixes ops :: "'d driver_ops"
    and inv :: "'d \<Rightarrow> bool"
  assumes connect_inv: "inv d \<Longrightarrow> inv (fst (drv_connect ops d))"
    and disconnect_inv: "inv d \<Longrightarrow> inv (fst (drv_disconnect ops d))"
    and read_inv: "inv d \<Longrightarrow> inv (fst (drv_read ops reqs d))"
    and health_inv: "inv d \<Longrightarrow> inv (fst (drv_health_check ops d))"
    and read_match: "inv d \<Longrightarrow> \<forall>q \<in> set reqs. request_ok q \<Longrightarrow>
      drv_read ops reqs d = (d', Ret res) \<Longrightarrow> results_match reqs res"

section \<open>Registry\<close>

type_synonym 'd driver_factory = "connection_config \<Rightarrow> 'd result"

type_synonym 'd registry = "(string \<times> 'd driver_factory) list"

definition normalize_protocol :: "string \<Rightarrow> string result" where
  "normalize_protocol protocol =
     (let normalized = py_lower (py_strip protocol)
      in if normalized = []
         then Inl (exn_coded ConfigurationError ''Driver protocol cannot be empty.''
                ''invalid_driver_protocol'' [])
         else Inr normalized)"

definition register :: "string \<Rightarrow> 'd driver_factory \<Rightarrow> 'd registry \<Rightarrow> 'd registry result" where
  "register protocol factory reg =
     rbind (normalize_protocol protocol) (\<lambda>n.
       if map_of reg n \<noteq> None
       then Inl (exn_coded ConfigurationError
              (''Driver for protocol '' @ quoted n @ '' is already registered.'')
              ''duplicate_driver_protocol'' [(''protocol'', PStr n)])
       else Inr (AList.update n factory reg))"

definition create_driver :: "'d registry \<Rightarrow> connection_config \<Rightarrow> 'd result" where
  "create_driver reg connection =
     rbind (normalize_protocol (cc_protocol connection)) (\<lambda>n.
       case map_of reg n of
         None \<Rightarrow> Inl (exn_coded ConfigurationError
              (''No communication driver registered for protocol '' @ quoted n @ ''.'')
              ''unknown_driver_protocol'' [(''protocol'', PStr n)])
       | Some factory \<Rightarrow> factory connection)"

definition registered_protocols :: "'d registry \<Rightarrow> string list" where
  "registered_protocols reg = sort (map fst reg)"

fun register_all :: "(string \<times> 'd driver_factory) list \<Rightarrow> 'd registry \<Rightarrow> 'd registry result" where
  "register_all [] reg = Inr reg"
| "register_all ((p, f) # rest) reg = rbind (register p f reg) (register_all rest)"

definition build_driver_registry :: "(string \<times> 'd driver_factory) list \<Rightarrow> 'd registry result" where
  "build_driver_registry registrations = register_all registrations []"

lemma normalize_protocol_Inr:
  "normalize_protocol p = Inr n \<longleftrightarrow> n = py_lower (py_strip p) \<and> n \<noteq> []"
  by (auto simp: normalize_protocol_def Let_def)

lemma register_Inr:
  "register p f reg = Inr reg' \<longleftrightarrow>
     py_lower (py_strip p) \<noteq> [] \<and> map_of reg (py_lower (py_strip p)) = None \<and>
     reg' = AList.update (py_lower (py_strip p)) f reg"
  by (auto simp: register_def normalize_protocol_Inr)

lemma register_lookup:
  "register p f reg = Inr reg' \<Longrightarrow> map_of reg' = (map_of reg)(py_lower (py_strip p) \<mapsto> f)"
  by (simp add: register_Inr)

lemma register_distinct:
  "register p f reg = Inr reg' \<Longrightarrow> distinct (map fst reg) \<Longrightarrow> distinct (map fst reg')"
  by (auto simp: register_Inr distinct_update)

lemma create_driver_eq:
  "py_lower (py_strip (cc_protocol c)) \<noteq> [] \<Longrightarrow>
   map_of reg (py_lower (py_strip (cc_protocol c))) = Some f \<Longrightarrow> create_driver reg c = f c"
  by (simp add: create_driver_def normalize_protocol_def Let_def)

text \<open>
  A registry built from a list of registrations holds exactly these, under their
  normalised names, each name once.
\<close>

lemma register_all_spec:
  assumes "register_all regs reg = Inr reg'" "distinct (map fst reg)"
  shows "distinct (map fst reg') \<and> map fst reg' = map fst reg @ map (py_lower \<circ> py_strip \<circ> fst) regs \<and>
    (\<forall>(p, f) \<in> set regs. map_of reg' (py_lower (py_strip p)) = Some f) \<and>
    (\<forall>n f. map_of reg n = Some f \<longrightarrow> map_of reg' n = Some f)"
  using assms
proof (induction regs reg rule: register_all.induct)
  case (1 reg)
  then show ?case by simp
next
  case (2 p f rest reg)
  let ?n = "py_lower (py_strip p)"
  obtain reg1 where r1: "register p f reg = Inr reg1" "register_all rest reg1 = Inr reg'"
    using "2.prems"(1) by auto
  then have upd: "map_of reg ?n = None" "reg1 = reg @ [(?n, f)]" "?n \<noteq> []"
    by (auto simp: register_Inr length_update_new)
  have IH: "distinct (map fst reg') \<and>
      map fst reg' = map fst reg1 @ map (py_lower \<circ> py_strip \<circ> fst) rest \<and>
      (\<forall>(p, f) \<in> set rest. map_of reg' (py_lower (py_strip p)) = Some f) \<and>
      (\<forall>n f. map_of reg1 n = Some f \<longrightarrow> map_of reg' n = Some f)"
    using "2.IH" [OF r1(2)] register_distinct [OF r1(1) "2.prems"(2)] by blast
  have old: "map_of reg1 n = Some g" if "map_of reg n = Some g" for n g
    using that upd by (simp add: map_add_def)
  have new: "map_of reg1 ?n = Some f" using upd by (simp add: map_add_def)
  have keys: "map fst reg' = map fst reg @ map (py_lower \<circ> py_strip \<circ> fst) ((p, f) # rest)"
    using IH upd(2) by (simp only: map_append list.map comp_apply fst_conv append_assoc append.simps)
  have all: "map_of reg' (py_lower (py_strip q)) = Some g" if "(q, g) \<in> set ((p, f) # rest)" for q g
  proof (cases "(q, g) \<in> set rest")
    case True
    then show ?thesis using IH by blast
  next
    case False
    then have "q = p" "g = f" using that by auto
    then show ?thesis using IH new by blast
  qed
  show ?case using IH keys all old by blast
qed

section \<open>Properties\<close>

text \<open>
  A registry built from a list of registrations creates a connection's driver with the
  factory registered under the connection's protocol, compared without case and surrounding
  white space, and lists each protocol once, sorted.
\<close>

lemma registry_finds_factory:
  assumes "build_driver_registry regs = Inr reg" "(p, f) \<in> set regs"
    and "py_lower (py_strip (cc_protocol c)) = py_lower (py_strip p)"
  shows "create_driver reg c = f c \<and> distinct (registered_protocols reg) \<and>
    sorted (registered_protocols reg) \<and>
    set (registered_protocols reg) = (py_lower \<circ> py_strip \<circ> fst) ` set regs"
proof -
  have all: "register_all regs [] = Inr reg" using assms(1) by (simp add: build_driver_registry_def)
  note spec = register_all_spec [OF all, simplified]
  have f: "map_of reg (py_lower (py_strip p)) = Some f" using spec assms(2) by blast
  have "py_lower (py_strip p) \<noteq> []"
  proof -
    have ne: "\<forall>(p, f) \<in> set regs. py_lower (py_strip p) \<noteq> []"
      if "register_all regs r = Inr r'" for r r'
      using that by (induction regs r rule: register_all.induct) (auto simp: register_Inr)
    show ?thesis using ne [OF all] assms(2) by blast
  qed
  then have "create_driver reg c = f c" using create_driver_eq [of c reg f] f assms(3) by simp
  moreover have "set (registered_protocols reg) = (py_lower \<circ> py_strip \<circ> fst) ` set regs"
    unfolding registered_protocols_def set_sort using spec by (metis image_comp list.set_map)
  moreover have "distinct (registered_protocols reg)"
    unfolding registered_protocols_def distinct_sort using spec by (rule conjunct1)
  moreover have "sorted (registered_protocols reg)" by (simp add: registered_protocols_def)
  ultimately show ?thesis by blast
qed

end
