(* ===== verification/Mock_Driver.thy ===== *)
theory Mock_Driver
  imports Driver
begin

text \<open>
  src/plc_gateway/protocols/mock.py: the deterministic driver. Its options come from the
  connection's untyped mapping and are validated here as the code does; its clock and its
  sleeper are parameters (the value of the clock's \<open>n\<close>-th reading, the outcome of the
  \<open>n\<close>-th sleep). Shown: the driver satisfies the driver contract
  (\<open>interpretation mock\<close>), it fails to connect exactly as often as configured, and a
  sequence is replayed cyclically.
\<close>

section \<open>Options\<close>

definition mock_error :: "string \<Rightarrow> (string \<times> pyval) list \<Rightarrow> 'a result" where
  "mock_error m ds = Inl (exn_coded ConfigurationError m ''invalid_mock_options'' ds)"

record mock_tag_behavior =
  mb_value :: pyval
  mb_sequence :: "pyval list"
  mb_error_code :: "string option"
  mb_error_message :: "string option"

definition mock_tag_behavior_new ::
  "pyval \<Rightarrow> pyval list \<Rightarrow> string option \<Rightarrow> string option \<Rightarrow> mock_tag_behavior result" where
  "mock_tag_behavior_new v sequence code message =
     (let has_constant = v \<noteq> PNone;
          has_sequence = sequence \<noteq> [];
          has_error = code \<noteq> None \<or> message \<noteq> None;
          enabled_modes = length (filter id [has_constant, has_sequence, has_error])
      in if enabled_modes > 1
         then Inl (exn_coded ConfigurationError
           ''Mock tag behavior must define only one of value, sequence, or error.''
           ''invalid_mock_tag_behavior'' [])
         else if has_error \<and> (code = None \<or> message = None)
         then Inl (exn_coded ConfigurationError
           ''Mock tag error behavior requires error_code and error_message.''
           ''invalid_mock_tag_behavior'' [])
         else Inr \<lparr>mb_value = v, mb_sequence = sequence, mb_error_code = code,
                mb_error_message = message\<rparr>)"

definition require_non_negative :: "int \<Rightarrow> string \<Rightarrow> unit result" where
  "require_non_negative n field =
     (if n < 0
      then mock_error (''Mock protocol option '' @ quoted field @ '' must be non-negative.'')
             [(''field'', PStr field)]
      else Inr ())"

definition read_non_negative_int :: "pydict \<Rightarrow> string \<Rightarrow> int \<Rightarrow> int result" where
  "read_non_negative_int options key dflt =
     (case (case dict_get options key of None \<Rightarrow> PInt dflt | Some v \<Rightarrow> v) of
        PInt n \<Rightarrow> rbind (require_non_negative n key) (\<lambda>_. Inr n)
      | _ \<Rightarrow> mock_error (''Mock protocol option '' @ quoted key @ '' must be a non-negative integer.'')
               [(''field'', PStr key)])"

definition mock_read_bool :: "pydict \<Rightarrow> string \<Rightarrow> bool \<Rightarrow> bool result" where
  "mock_read_bool options key dflt =
     (case (case dict_get options key of None \<Rightarrow> PBool dflt | Some v \<Rightarrow> v) of
        PBool b \<Rightarrow> Inr b
      | _ \<Rightarrow> mock_error (''Mock protocol option '' @ quoted key @ '' must be a boolean.'')
               [(''field'', PStr key)])"

definition mock_optional_str :: "pyval \<Rightarrow> string \<Rightarrow> string option result" where
  "mock_optional_str v field =
     (case v of
        PNone \<Rightarrow> Inr None
      | PStr s \<Rightarrow> Inr (set_optional_stripped (Some s))
      | _ \<Rightarrow> mock_error (''Mock tag field '' @ quoted field @ '' must be a string.'')
               [(''field'', PStr field)])"

definition get_or_none :: "pydict \<Rightarrow> string \<Rightarrow> pyval" where
  "get_or_none d k = (case dict_get d k of None \<Rightarrow> PNone | Some v \<Rightarrow> v)"

definition read_tag_behavior :: "pydict \<Rightarrow> mock_tag_behavior result" where
  "read_tag_behavior raw =
     rbind (mock_optional_str (get_or_none raw ''error_code'') ''error_code'') (\<lambda>code.
     rbind (mock_optional_str (get_or_none raw ''error_message'') ''error_message'') (\<lambda>message.
     rbind (case dict_get raw ''sequence'' of
              None \<Rightarrow> Inr []
            | Some (PTuple []) \<Rightarrow> Inr []
            | Some (PList xs) \<Rightarrow>
                if xs = [] then mock_error ''Mock tag sequence cannot be empty.'' [] else Inr xs
            | Some _ \<Rightarrow> mock_error ''Mock tag sequence must be an array.'' []) (\<lambda>sequence.
       mock_tag_behavior_new (get_or_none raw ''value'') sequence code message)))"

fun read_behaviors ::
  "pydict \<Rightarrow> (string \<times> mock_tag_behavior) list \<Rightarrow> (string \<times> mock_tag_behavior) list result" where
  "read_behaviors [] acc = Inr acc"
| "read_behaviors ((k, v) # rest) acc =
     (case k of
        PStr tag_id \<Rightarrow>
          if py_strip tag_id = []
          then mock_error ''Mock tag behavior keys must be non-empty strings.'' []
          else (case v of
              PDict raw \<Rightarrow> rbind (read_tag_behavior raw) (\<lambda>b.
                read_behaviors rest (AList.update (py_strip tag_id) b acc))
            | _ \<Rightarrow> mock_error (''Mock tag behavior for '' @ quoted tag_id @ '' must be an object.'')
                    [(''tag_id'', PStr tag_id)])
      | _ \<Rightarrow> mock_error ''Mock tag behavior keys must be non-empty strings.'' [])"

definition read_tag_behaviors :: "pydict \<Rightarrow> (string \<times> mock_tag_behavior) list result" where
  "read_tag_behaviors options =
     (case dict_get options ''tags'' of
        None \<Rightarrow> Inr []
      | Some (PDict d) \<Rightarrow> read_behaviors d []
      | Some _ \<Rightarrow> mock_error (''Mock protocol option '' @ quoted ''tags'' @ '' must be an object.'') [])"

record mock_driver_config =
  mc_delay_ms :: int
  mc_connect_failures :: int
  mc_timeout_on_read :: bool
  mc_timeout_on_connect :: bool
  mc_tag_behaviors :: "(string \<times> mock_tag_behavior) list"

definition mock_config_from_options :: "pydict \<Rightarrow> mock_driver_config result" where
  "mock_config_from_options options =
     rbind (read_non_negative_int options ''delay_ms'' 0) (\<lambda>delay.
     rbind (read_non_negative_int options ''connect_failures_before_success'' 0) (\<lambda>failures.
     rbind (mock_read_bool options ''timeout_on_read'' False) (\<lambda>on_read.
     rbind (mock_read_bool options ''timeout_on_connect'' False) (\<lambda>on_connect.
     rbind (read_tag_behaviors options) (\<lambda>behaviors.
     rbind (require_non_negative delay ''delay_ms'') (\<lambda>_.
     rbind (require_non_negative failures ''connect_failures_before_success'') (\<lambda>_.
       Inr \<lparr>mc_delay_ms = delay, mc_connect_failures = failures, mc_timeout_on_read = on_read,
            mc_timeout_on_connect = on_connect, mc_tag_behaviors = behaviors\<rparr>)))))))"

section \<open>Raw values\<close>

definition tag_value_from_raw :: "value_type \<Rightarrow> pyval \<Rightarrow> tag_value result" where
  "tag_value_from_raw vt raw =
     (case vt of
        VT_Numeric \<Rightarrow> (case raw of
            PFloat f \<Rightarrow> tag_value_numeric raw
          | PInt z \<Rightarrow> tag_value_numeric raw
          | _ \<Rightarrow> config_error ''Mock numeric value must be int or float.'')
      | VT_Integer \<Rightarrow> (case raw of
            PInt z \<Rightarrow> tag_value_integer raw
          | _ \<Rightarrow> config_error ''Mock integer value must be int.'')
      | VT_Boolean \<Rightarrow> (case raw of
            PBool b \<Rightarrow> tag_value_boolean raw
          | _ \<Rightarrow> config_error ''Mock boolean value must be bool.'')
      | VT_Text \<Rightarrow> (case raw of
            PStr s \<Rightarrow> tag_value_text raw
          | _ \<Rightarrow> config_error ''Mock text value must be str.'')
      | VT_Binary \<Rightarrow> (case raw of
            PStr s \<Rightarrow> tag_value_binary (PBytes (utf8_encode s))
          | PBytes b \<Rightarrow> tag_value_binary raw
          | _ \<Rightarrow> config_error ''Mock binary value must be bytes or str.''))"

definition default_raw_value :: "value_type \<Rightarrow> pyval" where
  "default_raw_value vt =
     (case vt of VT_Numeric \<Rightarrow> PFloat (Fin 0) | VT_Integer \<Rightarrow> PInt 0 | VT_Boolean \<Rightarrow> PBool False
      | VT_Text \<Rightarrow> PStr [] | VT_Binary \<Rightarrow> PBytes [])"

definition batch_timeout_ms :: "tag_request list \<Rightarrow> int \<Rightarrow> int" where
  "batch_timeout_ms reqs dflt =
     (case List.map_filter rq_timeout_ms reqs of [] \<Rightarrow> dflt | t # ts \<Rightarrow> fold min ts t)"

section \<open>The driver\<close>

text \<open>
  The readings of the clock and the outcomes of the sleeper; a clock reading is an
  instant, already in UTC.
\<close>

record mock_env =
  me_clock :: "nat \<Rightarrow> int"
  me_sleep :: "nat \<Rightarrow> unit outcome"

record mock_driver =
  md_connection :: connection_config
  md_config :: mock_driver_config
  md_connected :: bool
  md_remaining_connect_failures :: int
  md_sequence_offsets :: "(string \<times> nat) list"
  md_clock_reads :: nat
  md_sleeps :: nat

definition mock_driver_new :: "connection_config \<Rightarrow> mock_driver result" where
  "mock_driver_new connection =
     rbind (mock_config_from_options (cc_protocol_options connection)) (\<lambda>cfg.
       Inr \<lparr>md_connection = connection, md_config = cfg, md_connected = False,
            md_remaining_connect_failures = mc_connect_failures cfg,
            md_sequence_offsets = [], md_clock_reads = 0, md_sleeps = 0\<rparr>)"

definition mock_apply_delay ::
  "mock_env \<Rightarrow> int \<Rightarrow> bool \<Rightarrow> string \<Rightarrow> mock_driver \<Rightarrow> mock_driver \<times> unit outcome" where
  "mock_apply_delay env timeout_ms force_timeout operation d =
     (let delay = mc_delay_ms (md_config d)
      in if force_timeout \<or> timeout_ms < delay
         then (d, Raise (exn_coded TransientCommunicationError
                (''Mock '' @ operation @ '' timed out.'') ''mock_timeout''
                [(''connection_id'', PStr (cc_id (md_connection d))),
                 (''operation'', PStr operation), (''timeout_ms'', PInt timeout_ms),
                 (''delay_ms'', PInt delay)]))
         else if 0 < delay
         then (d\<lparr>md_sleeps := Suc (md_sleeps d)\<rparr>, me_sleep env (md_sleeps d))
         else (d, Ret ()))"

definition mock_connect :: "mock_env \<Rightarrow> mock_driver \<Rightarrow> mock_driver \<times> unit outcome" where
  "mock_connect env d =
     (case mock_apply_delay env (cc_timeout_ms (md_connection d))
             (mc_timeout_on_connect (md_config d)) ''connect'' d of
        (d1, Ret _) \<Rightarrow>
          if 0 < md_remaining_connect_failures d1
          then (d1\<lparr>md_remaining_connect_failures := md_remaining_connect_failures d1 - 1,
                   md_connected := False\<rparr>,
                Raise (exn_coded TransientCommunicationError ''Mock connection failed.''
                  ''mock_connection_failed''
                  [(''connection_id'', PStr (cc_id (md_connection d1)))]))
          else (d1\<lparr>md_connected := True\<rparr>, Ret ())
      | (d1, Raise e) \<Rightarrow> (d1, Raise e)
      | (d1, Cancelled) \<Rightarrow> (d1, Cancelled))"

definition mock_disconnect :: "mock_driver \<Rightarrow> mock_driver \<times> unit outcome" where
  "mock_disconnect d = (d\<lparr>md_connected := False\<rparr>, Ret ())"

definition next_raw_value ::
  "tag_request \<Rightarrow> mock_tag_behavior option \<Rightarrow> mock_driver \<Rightarrow> mock_driver \<times> pyval" where
  "next_raw_value tag behavior d =
     (case behavior of
        None \<Rightarrow> (d, default_raw_value (rq_value_type tag))
      | Some b \<Rightarrow>
          if mb_sequence b \<noteq> [] then
            (let index = (case map_of (md_sequence_offsets d) (rq_tag_id tag) of
                 None \<Rightarrow> 0 | Some i \<Rightarrow> i)
             in (d\<lparr>md_sequence_offsets :=
                     AList.update (rq_tag_id tag) (Suc index) (md_sequence_offsets d)\<rparr>,
                 mb_sequence b ! (index mod length (mb_sequence b))))
          else if mb_value b \<noteq> PNone then (d, mb_value b)
          else (d, default_raw_value (rq_value_type tag)))"

definition mock_read_tag ::
  "tag_request \<Rightarrow> datetime \<Rightarrow> mock_driver \<Rightarrow> mock_driver \<times> tag_result result" where
  "mock_read_tag tag received_at d =
     (let behavior = map_of (mc_tag_behaviors (md_config d)) (rq_tag_id tag)
      in case (case behavior of None \<Rightarrow> None | Some b \<Rightarrow> mb_error_code b) of
           Some code \<Rightarrow>
             (d, tag_result_failure (rq_tag_id tag) code
                   (case (case behavior of None \<Rightarrow> None | Some b \<Rightarrow> mb_error_message b) of
                      None \<Rightarrow> ''Mock tag failure.'' | Some m \<Rightarrow> str_or m ''Mock tag failure.'')
                   received_at None Q_Bad)
         | None \<Rightarrow>
             (case next_raw_value tag behavior d of
                (d1, raw) \<Rightarrow>
                  (d1, rbind (tag_value_from_raw (rq_value_type tag) raw) (\<lambda>v.
                     tag_result_success (rq_tag_id tag) v received_at received_at Q_Good))))"

fun mock_read_tags ::
  "tag_request list \<Rightarrow> datetime \<Rightarrow> mock_driver \<Rightarrow> mock_driver \<times> tag_result list result" where
  "mock_read_tags [] received_at d = (d, Inr [])"
| "mock_read_tags (t # ts) received_at d =
     (case mock_read_tag t received_at d of
        (d1, Inl e) \<Rightarrow> (d1, Inl e)
      | (d1, Inr r) \<Rightarrow>
          (case mock_read_tags ts received_at d1 of
             (d2, Inl e) \<Rightarrow> (d2, Inl e)
           | (d2, Inr rs) \<Rightarrow> (d2, Inr (r # rs))))"

definition mock_require_connected :: "mock_driver \<Rightarrow> unit result" where
  "mock_require_connected d = raise_if (\<not> md_connected d)
     (exn_coded TransientCommunicationError ''Mock driver is not connected.'' ''mock_not_connected''
        [(''connection_id'', PStr (cc_id (md_connection d)))])"

definition mock_read ::
  "mock_env \<Rightarrow> tag_request list \<Rightarrow> mock_driver \<Rightarrow> mock_driver \<times> tag_result list outcome" where
  "mock_read env tags d =
     (case mock_require_connected d of
        Inl e \<Rightarrow> (d, Raise e)
      | Inr _ \<Rightarrow> case mock_apply_delay env (batch_timeout_ms tags (cc_timeout_ms (md_connection d)))
                  (mc_timeout_on_read (md_config d)) ''read'' d of
          (d1, Ret _) \<Rightarrow>
            (case mock_read_tags tags (utc_dt (me_clock env (md_clock_reads d1)))
                    (d1\<lparr>md_clock_reads := Suc (md_clock_reads d1)\<rparr>) of
               (d2, r) \<Rightarrow> (d2, outcome_of r))
        | (d1, Raise e) \<Rightarrow> (d1, Raise e)
        | (d1, Cancelled) \<Rightarrow> (d1, Cancelled))"

lemmas mock_read_eq = mock_read_def [unfolded mock_require_connected_def raise_if_def]

definition mock_health_check :: "mock_driver \<Rightarrow> mock_driver \<times> bool outcome" where
  "mock_health_check d = (d, Ret (md_connected d))"

definition mock_ops :: "mock_env \<Rightarrow> mock_driver driver_ops" where
  "mock_ops env =
     \<lparr>drv_connect = mock_connect env, drv_disconnect = mock_disconnect,
      drv_read = mock_read env, drv_health_check = mock_health_check\<rparr>"

section \<open>The driver contract\<close>

definition mock_inv :: "mock_driver \<Rightarrow> bool" where
  "mock_inv d \<longleftrightarrow> 0 \<le> md_remaining_connect_failures d \<and>
     md_remaining_connect_failures d \<le> mc_connect_failures (md_config d)"

lemma mock_config_ok:
  "mock_config_from_options opts = Inr cfg \<Longrightarrow> 0 \<le> mc_delay_ms cfg \<and> 0 \<le> mc_connect_failures cfg"
  by (auto simp: mock_config_from_options_def require_non_negative_def mock_error_def
      split: if_splits)

text \<open>The factory for the registry.\<close>

definition create_mock_driver :: "mock_driver driver_factory" where
  "create_mock_driver connection = mock_driver_new connection"

lemma mock_driver_new_inv: "mock_driver_new c = Inr d \<Longrightarrow> mock_inv d"
  by (auto simp: mock_driver_new_def mock_inv_def dest: mock_config_ok)

lemma mock_apply_delay_frame:
  assumes "mock_apply_delay env t f op d = (d1, r)"
  shows "md_connection d1 = md_connection d" "md_config d1 = md_config d"
    "md_connected d1 = md_connected d"
    "md_remaining_connect_failures d1 = md_remaining_connect_failures d"
    "md_sequence_offsets d1 = md_sequence_offsets d"
  using assms by (auto simp: mock_apply_delay_def Let_def split: if_splits)

lemma mock_connect_frame:
  "mock_connect env d = (d1, r) \<Longrightarrow> md_config d1 = md_config d \<and> md_connection d1 = md_connection d"
  by (auto simp: mock_connect_def dest: mock_apply_delay_frame split: prod.splits outcome.splits if_splits)

lemma mock_connect_inv: "mock_inv d \<Longrightarrow> mock_inv (fst (mock_connect env d))"
proof -
  assume inv: "mock_inv d"
  obtain d1 x where a: "mock_apply_delay env (cc_timeout_ms (md_connection d))
      (mc_timeout_on_connect (md_config d)) ''connect'' d = (d1, x)" by fastforce
  show ?thesis using inv a mock_apply_delay_frame [OF a]
    by (cases x) (simp_all add: mock_connect_def mock_inv_def)
qed

lemma mock_read_tag_frame:
  "mock_read_tag t ra d = (d1, r) \<Longrightarrow> md_config d1 = md_config d \<and>
     md_remaining_connect_failures d1 = md_remaining_connect_failures d \<and>
     md_connected d1 = md_connected d \<and> md_connection d1 = md_connection d"
  by (auto simp: mock_read_tag_def next_raw_value_def Let_def
      split: option.splits prod.splits if_splits)

lemma mock_read_tags_frame:
  "mock_read_tags ts ra d = (d1, r) \<Longrightarrow> md_config d1 = md_config d \<and>
     md_remaining_connect_failures d1 = md_remaining_connect_failures d \<and>
     md_connected d1 = md_connected d \<and> md_connection d1 = md_connection d"
proof (induction ts ra d arbitrary: d1 r rule: mock_read_tags.induct)
  case (1 ra d)
  then show ?case by simp
next
  case (2 t ts ra d)
  obtain d2 r2 where t: "mock_read_tag t ra d = (d2, r2)" by fastforce
  show ?case
  proof (cases r2)
    case (Inl e)
    then show ?thesis using "2.prems" t mock_read_tag_frame [OF t] by auto
  next
    case (Inr x)
    obtain d3 r3 where ts: "mock_read_tags ts ra d2 = (d3, r3)" by fastforce
    have "d1 = d3" using "2.prems" t Inr ts by (auto split: sum.splits)
    then show ?thesis using "2.IH" [OF t [symmetric] Inr ts] mock_read_tag_frame [OF t] by simp
  qed
qed

lemma mock_read_frame:
  assumes "mock_read env reqs d = (d1, r)"
  shows "md_config d1 = md_config d \<and>
    md_remaining_connect_failures d1 = md_remaining_connect_failures d"
proof (cases "md_connected d")
  case False
  then show ?thesis using assms by (simp add: mock_read_eq)
next
  case True
  obtain d2 x where a: "mock_apply_delay env (batch_timeout_ms reqs (cc_timeout_ms (md_connection d)))
      (mc_timeout_on_read (md_config d)) ''read'' d = (d2, x)" by fastforce
  show ?thesis
    using assms True a mock_apply_delay_frame [OF a]
    by (auto simp: mock_read_eq dest!: mock_read_tags_frame split: outcome.splits prod.splits)
qed

lemma tag_value_from_raw_ok: "tag_value_from_raw vt raw = Inr v \<Longrightarrow> tag_value_ok v \<and> tv_type v = vt"
  unfolding tag_value_from_raw_def
  by (cases vt; cases raw)
    (auto simp: config_error_def simp del: tag_value_ctor_simps dest: tag_value_ctor_ok)

lemma mock_read_tag_match:
  assumes "mock_read_tag t ra d = (d1, Inr r)" "request_ok t"
  shows "tr_tag_id r = rq_tag_id t \<and> tag_result_ok r \<and>
    (case tr_value r of None \<Rightarrow> True | Some v \<Rightarrow> tag_value_ok v \<and> tv_type v = rq_value_type t)"
proof -
  have id: "py_strip (rq_tag_id t) = rq_tag_id t" using assms(2) by (simp add: request_ok_def stripped_def)
  show ?thesis using assms(1) id
    by (auto simp: mock_read_tag_def Let_def tag_result_failure_def tag_result_success_def
        dest!: tag_value_from_raw_ok dest: tag_result_new_ok tag_result_new_tag_id
        split: option.splits prod.splits)
qed

lemma mock_read_tags_match:
  "mock_read_tags ts ra d = (d1, Inr rs) \<Longrightarrow> \<forall>q \<in> set ts. request_ok q \<Longrightarrow>
     list_all2 (\<lambda>q r. tr_tag_id r = rq_tag_id q \<and> tag_result_ok r \<and>
       (case tr_value r of None \<Rightarrow> True | Some v \<Rightarrow> tag_value_ok v \<and> tv_type v = rq_value_type q)) ts rs"
proof (induction ts ra d arbitrary: d1 rs rule: mock_read_tags.induct)
  case (1 ra d)
  then show ?case by simp
next
  case (2 t ts ra d)
  obtain d2 x d3 xs where t: "mock_read_tag t ra d = (d2, Inr x)"
    and ts: "mock_read_tags ts ra d2 = (d3, Inr xs)" and rs: "rs = x # xs"
    using "2.prems"(1) by (auto split: prod.splits sum.splits)
  show ?case using "2.IH" [OF t [symmetric] refl ts] mock_read_tag_match [OF t] "2.prems"(2) rs
    by simp
qed

lemma mock_read_Ret:
  assumes "mock_read env reqs d = (d', Ret res)"
  obtains ra d1 d2 where "mock_read_tags reqs ra d1 = (d2, Inr res)" "d' = d2"
    "md_config d1 = md_config d" "md_sequence_offsets d1 = md_sequence_offsets d"
proof -
  have c: "md_connected d" using assms by (auto simp: mock_read_eq split: if_splits)
  obtain d0 x where a: "mock_apply_delay env (batch_timeout_ms reqs (cc_timeout_ms (md_connection d)))
      (mc_timeout_on_read (md_config d)) ''read'' d = (d0, x)" by fastforce
  have "\<exists>u. x = Ret u" using assms c a by (auto simp: mock_read_eq split: outcome.splits)
  then obtain u where x: "x = Ret u" by blast
  let ?d1 = "d0\<lparr>md_clock_reads := Suc (md_clock_reads d0)\<rparr>"
  have "mock_read_tags reqs (utc_dt (me_clock env (md_clock_reads d0))) ?d1 = (d', Inr res)"
    using assms c a x by (auto simp: mock_read_eq split: prod.splits)
  then show thesis using that [of _ ?d1 d'] mock_apply_delay_frame [OF a] by simp
qed

lemma mock_read_match:
  assumes "\<forall>q \<in> set reqs. request_ok q" "mock_read env reqs d = (d', Ret res)"
  shows "results_match reqs res"
proof -
  obtain ra d1 d2 where "mock_read_tags reqs ra d1 = (d2, Inr res)"
    using assms(2) by (rule mock_read_Ret)
  from mock_read_tags_match [OF this assms(1)] show ?thesis unfolding results_match_def
    by (rule list_all2_mono) (auto split: option.splits)
qed

interpretation mock: communication_driver "mock_ops env" mock_inv for env
proof unfold_locales
  fix d
  assume "mock_inv d"
  then show "mock_inv (fst (drv_connect (mock_ops env) d))"
    by (simp add: mock_ops_def mock_connect_inv)
next
  fix d
  assume "mock_inv d"
  then show "mock_inv (fst (drv_disconnect (mock_ops env) d))"
    by (simp add: mock_ops_def mock_disconnect_def mock_inv_def)
next
  fix d reqs
  assume "mock_inv d"
  then show "mock_inv (fst (drv_read (mock_ops env) reqs d))"
    using mock_read_frame [of env reqs d] by (cases "mock_read env reqs d") (auto simp: mock_ops_def mock_inv_def)
next
  fix d
  assume "mock_inv d"
  then show "mock_inv (fst (drv_health_check (mock_ops env) d))"
    by (simp add: mock_ops_def mock_health_check_def)
next
  fix d reqs d' res
  assume "\<forall>q \<in> set reqs. request_ok q" "drv_read (mock_ops env) reqs d = (d', Ret res)"
  then show "results_match reqs res"
    using mock_read_match by (simp add: mock_ops_def)
qed

section \<open>Repeated calls\<close>

text \<open>The outcomes of \<open>n\<close> calls of an operation, one after the other.\<close>

fun repeated :: "nat \<Rightarrow> ('d \<Rightarrow> 'd \<times> 'a) \<Rightarrow> 'd \<Rightarrow> 'd \<times> 'a list" where
  "repeated 0 f d = (d, [])"
| "repeated (Suc n) f d =
     (case f d of (d1, x) \<Rightarrow> case repeated n f d1 of (d2, xs) \<Rightarrow> (d2, x # xs))"

lemma repeated_Suc [simp]:
  "snd (repeated (Suc n) f d) = snd (f d) # snd (repeated n f (fst (f d)))"
  by (simp split: prod.splits)

declare repeated.simps(2) [simp del]

text \<open>The simulated delay passes: nothing is forced to time out and no sleep is interrupted.\<close>

definition delay_passes :: "mock_env \<Rightarrow> int \<Rightarrow> bool \<Rightarrow> mock_driver \<Rightarrow> bool" where
  "delay_passes env timeout_ms force d \<longleftrightarrow>
     \<not> force \<and> mc_delay_ms (md_config d) \<le> timeout_ms \<and> (\<forall>n. me_sleep env n = Ret ())"

lemma mock_apply_delay_passes:
  "delay_passes env t f d \<Longrightarrow> \<exists>n. mock_apply_delay env t f op d = (d\<lparr>md_sleeps := n\<rparr>, Ret ())"
  by (cases d) (auto simp: mock_apply_delay_def delay_passes_def Let_def)

definition connection_failed :: "mock_driver \<Rightarrow> unit outcome" where
  "connection_failed d = Raise (exn_coded TransientCommunicationError ''Mock connection failed.''
     ''mock_connection_failed'' [(''connection_id'', PStr (cc_id (md_connection d)))])"

lemma mock_connect_passes:
  assumes "delay_passes env (cc_timeout_ms (md_connection d)) (mc_timeout_on_connect (md_config d)) d"
  obtains n where "mock_connect env d = (if 0 < md_remaining_connect_failures d
     then (d\<lparr>md_sleeps := n, md_remaining_connect_failures := md_remaining_connect_failures d - 1,
             md_connected := False\<rparr>, connection_failed d)
     else (d\<lparr>md_sleeps := n, md_connected := True\<rparr>, Ret ()))"
proof -
  obtain n where "mock_apply_delay env (cc_timeout_ms (md_connection d))
      (mc_timeout_on_connect (md_config d)) ''connect'' d = (d\<lparr>md_sleeps := n\<rparr>, Ret ())"
    using mock_apply_delay_passes [OF assms] by blast
  then show thesis by (intro that [of n]) (simp add: mock_connect_def connection_failed_def)
qed

lemma repeated_connects:
  assumes "delay_passes env (cc_timeout_ms (md_connection d)) (mc_timeout_on_connect (md_config d)) d"
    and "0 \<le> md_remaining_connect_failures d"
  shows "snd (repeated n (mock_connect env) d) =
     (let k = min n (nat (md_remaining_connect_failures d))
      in replicate k (connection_failed d) @ replicate (n - k) (Ret ()))"
  using assms
proof (induction n arbitrary: d)
  case 0
  then show ?case by (simp add: Let_def)
next
  case (Suc n)
  let ?k = "md_remaining_connect_failures d"
  obtain m where m: "mock_connect env d = (if 0 < ?k
     then (d\<lparr>md_sleeps := m, md_remaining_connect_failures := ?k - 1, md_connected := False\<rparr>,
           connection_failed d)
     else (d\<lparr>md_sleeps := m, md_connected := True\<rparr>, Ret ()))"
    using mock_connect_passes [OF Suc.prems(1)] by blast
  show ?case
  proof (cases "0 < ?k")
    case True
    let ?d = "d\<lparr>md_sleeps := m, md_remaining_connect_failures := ?k - 1, md_connected := False\<rparr>"
    have f: "connection_failed ?d = connection_failed d" by (simp add: connection_failed_def)
    have "snd (repeated n (mock_connect env) ?d) =
       (let k = min n (nat (?k - 1))
        in replicate k (connection_failed d) @ replicate (n - k) (Ret ()))"
      using Suc.IH [of ?d] Suc.prems True by (simp add: delay_passes_def f)
    moreover have "nat ?k = Suc (nat (?k - 1))" using True by simp
    ultimately show ?thesis using True m by (simp add: Let_def)
  next
    case False
    let ?d = "d\<lparr>md_sleeps := m, md_connected := True\<rparr>"
    have "snd (repeated n (mock_connect env) ?d) = replicate n (Ret ())"
      using Suc.IH [of ?d] Suc.prems False by (simp add: delay_passes_def Let_def)
    then show ?thesis using False m by (simp add: Let_def)
  qed
qed

text \<open>Where a tag's sequence stands.\<close>

definition offset_of :: "string \<Rightarrow> mock_driver \<Rightarrow> nat" where
  "offset_of i d = (case map_of (md_sequence_offsets d) i of None \<Rightarrow> 0 | Some n \<Rightarrow> n)"

lemma mock_read_tag_sequence:
  assumes "map_of (mc_tag_behaviors (md_config d)) (rq_tag_id q) = Some b"
    and "mb_error_code b = None" "mb_sequence b \<noteq> []"
  shows "mock_read_tag q ra d =
    (d\<lparr>md_sequence_offsets := AList.update (rq_tag_id q) (Suc (offset_of (rq_tag_id q) d))
        (md_sequence_offsets d)\<rparr>,
     rbind (tag_value_from_raw (rq_value_type q)
         (mb_sequence b ! (offset_of (rq_tag_id q) d mod length (mb_sequence b)))) (\<lambda>v.
       tag_result_success (rq_tag_id q) v ra ra Q_Good))"
  using assms by (simp add: mock_read_tag_def next_raw_value_def offset_of_def Let_def)

text \<open>Reading one tag over and over replays its sequence from where it stands, cyclically.\<close>

definition sequence_result :: "tag_request \<Rightarrow> mock_tag_behavior \<Rightarrow> datetime \<Rightarrow> nat \<Rightarrow> tag_result result" where
  "sequence_result q b ra i =
     rbind (tag_value_from_raw (rq_value_type q) (mb_sequence b ! (i mod length (mb_sequence b)))) (\<lambda>v.
       tag_result_success (rq_tag_id q) v ra ra Q_Good)"

lemma repeated_reads:
  assumes "map_of (mc_tag_behaviors (md_config d)) (rq_tag_id q) = Some b"
    and "mb_error_code b = None" "mb_sequence b \<noteq> []"
  shows "snd (repeated n (mock_read_tag q ra) d) =
    map (sequence_result q b ra) [offset_of (rq_tag_id q) d..<offset_of (rq_tag_id q) d + n]"
  using assms
proof (induction n arbitrary: d)
  case 0
  then show ?case by simp
next
  case (Suc n)
  let ?i = "offset_of (rq_tag_id q) d"
  let ?d = "d\<lparr>md_sequence_offsets := AList.update (rq_tag_id q) (Suc ?i) (md_sequence_offsets d)\<rparr>"
  have r: "mock_read_tag q ra d = (?d, sequence_result q b ra ?i)"
    using mock_read_tag_sequence [OF Suc.prems] by (simp add: sequence_result_def)
  have i: "offset_of (rq_tag_id q) ?d = Suc ?i" by (simp add: offset_of_def)
  have "snd (repeated n (mock_read_tag q ra) ?d) =
      map (sequence_result q b ra) [Suc ?i..<Suc ?i + n]"
    using Suc.IH [of ?d] Suc.prems i by simp
  then show ?case using r
    by (simp add: upt_conv_Cons del: upt_Suc)
qed

section \<open>Properties\<close>

text \<open>
  A mock driver just created, whose simulated delay does not exceed the timeout, fails
  its first connects, exactly as many as \<open>connect_failures_before_success\<close> says, and
  succeeds in all later ones.
\<close>

lemma mock_fails_as_configured:
  assumes "mock_driver_new c = Inr d"
    and "delay_passes env (cc_timeout_ms (md_connection d)) (mc_timeout_on_connect (md_config d)) d"
  shows "snd (repeated n (mock_connect env) d) =
     (let k = min n (nat (mc_connect_failures (md_config d)))
      in replicate k (connection_failed d) @ replicate (n - k) (Ret ()))"
proof -
  have r: "md_remaining_connect_failures d = mc_connect_failures (md_config d)"
    "0 \<le> md_remaining_connect_failures d"
    using assms(1) mock_config_ok by (auto simp: mock_driver_new_def)
  show ?thesis using repeated_connects [OF assms(2) r(2)] r(1) by simp
qed

text \<open>
  A mock read that returns has one result per requested tag, in order, each valid and
  with the id of its tag.
\<close>

lemma mock_read_contract:
  assumes "\<forall>q \<in> set reqs. request_ok q" "mock_read env reqs d = (d', Ret res)"
  shows "length res = length reqs \<and> map tr_tag_id res = map rq_tag_id reqs \<and>
    (\<forall>r \<in> set res. tag_result_ok r)"
  using results_match_length results_match_ids results_match_ok mock_read_match [OF assms] by blast

end
