(* ===== verification/Worker.thy ===== *)
theory Worker
  imports Mock_Driver
begin

text \<open>
  src/plc_gateway/runtime/connection_worker.py: the worker that owns one connection and
  one driver. Its state is the record \<open>worker\<close>, polymorphic in the driver's state; every
  method is a function from the worker to the worker and an outcome. The clock, the UUID
  source, the retry sleeper and the jitter source are the readings of \<open>worker_env\<close>;
  logging is not modelled.

  Shown, inside the driver contract \<open>communication_driver\<close>: what a poll returns and
  records on every path, the counters of connect and poll against the retry loop
  (interpretations of \<open>attempt_counter\<close> and \<open>retry_counter\<close>), the state a worker is left in
  by each operation, and an invariant of every sequence of operations.
\<close>

section \<open>State\<close>

text \<open>
  \<open>we_clock n\<close> is the instant of the \<open>n\<close>-th reading of the clock, \<open>we_uuid n\<close> the \<open>n\<close>-th
  UUID, \<open>we_sleep n d\<close> the outcome of the \<open>n\<close>-th retry sleep, \<open>we_jitter k n\<close> the jitter value
  at the \<open>n\<close>-th retry of the operation that drew UUID number \<open>k\<close>.
\<close>

record 'd worker_env =
  we_ops :: "'d driver_ops"
  we_clock :: "nat \<Rightarrow> int"
  we_uuid :: "nat \<Rightarrow> string"
  we_sleep :: "nat \<Rightarrow> rat \<Rightarrow> unit outcome"
  we_jitter :: "nat \<Rightarrow> nat \<Rightarrow> rat"

record 'd worker =
  cw_connection :: connection_config
  cw_driver :: 'd
  cw_connect_policy :: retry_policy
  cw_poll_policy :: retry_policy
  cw_state :: worker_state
  cw_message :: "string option"
  cw_error_code :: "string option"
  cw_error_message :: "string option"
  cw_heartbeat_at :: "datetime option"
  cw_connect_attempts :: nat
  cw_connect_successes :: nat
  cw_connect_failures :: nat
  cw_connect_retry_attempts :: nat
  cw_poll_attempts :: nat
  cw_poll_successes :: nat
  cw_poll_failures :: nat
  cw_poll_retry_attempts :: nat
  cw_tag_successes :: int
  cw_tag_failures :: int
  cw_last_poll_correlation_id :: "string option"
  cw_last_reconnect_correlation_id :: "string option"
  cw_last_error :: "string option"
  cw_clock_reads :: nat
  cw_uuids :: nat
  cw_sleeps :: nat

definition default_connect_retry_policy :: "retry_policy result" where
  "default_connect_retry_policy = retry_policy_new 3 (1 / 10) 2 2 (1 / 5)"

definition default_poll_retry_policy :: "retry_policy result" where
  "default_poll_retry_policy = retry_policy_new 2 (1 / 20) 1 2 (1 / 5)"

definition worker_new ::
  "connection_config \<Rightarrow> 'd registry \<Rightarrow> retry_policy \<Rightarrow> retry_policy \<Rightarrow> 'd worker result" where
  "worker_new connection registry connect_policy poll_policy =
     rbind (create_driver registry connection) (\<lambda>driver.
       Inr \<lparr>cw_connection = connection, cw_driver = driver, cw_connect_policy = connect_policy,
            cw_poll_policy = poll_policy, cw_state = WS_Stopped, cw_message = None,
            cw_error_code = None, cw_error_message = None, cw_heartbeat_at = None,
            cw_connect_attempts = 0, cw_connect_successes = 0, cw_connect_failures = 0,
            cw_connect_retry_attempts = 0, cw_poll_attempts = 0, cw_poll_successes = 0,
            cw_poll_failures = 0, cw_poll_retry_attempts = 0, cw_tag_successes = 0,
            cw_tag_failures = 0, cw_last_poll_correlation_id = None,
            cw_last_reconnect_correlation_id = None, cw_last_error = None,
            cw_clock_reads = 0, cw_uuids = 0, cw_sleeps = 0\<rparr>)"

definition component_id :: "'d worker \<Rightarrow> string" where
  "component_id w = ''connection-worker:'' @ cc_id (cw_connection w)"

section \<open>Status and metrics\<close>

definition worker_now :: "'d worker_env \<Rightarrow> 'd worker \<Rightarrow> 'd worker \<times> datetime" where
  "worker_now env w =
     (w\<lparr>cw_clock_reads := Suc (cw_clock_reads w)\<rparr>, utc_dt (we_clock env (cw_clock_reads w)))"

definition set_state ::
  "'d worker_env \<Rightarrow> worker_state \<Rightarrow> string option \<Rightarrow> string option \<Rightarrow> string option
     \<Rightarrow> 'd worker \<Rightarrow> 'd worker" where
  "set_state env state message code error_message w =
     (let w1 = w\<lparr>cw_state := state, cw_message := message, cw_error_code := code,
                cw_error_message := error_message\<rparr>
      in case worker_now env w1 of (w2, now) \<Rightarrow> w2\<lparr>cw_heartbeat_at := Some now\<rparr>)"

definition worker_status :: "'d worker_env \<Rightarrow> 'd worker \<Rightarrow> 'd worker \<times> component_status result" where
  "worker_status env w =
     (case (case cw_heartbeat_at w of Some h \<Rightarrow> (w, h) | None \<Rightarrow> worker_now env w) of
        (w1, updated_at) \<Rightarrow>
          (w1, component_status_new (component_id w1) (cw_state w1) updated_at (cw_message w1)
                 (cw_error_code w1) (cw_error_message w1)))"

record worker_metrics =
  wm_component_id :: string
  wm_connect_attempts :: nat
  wm_connect_successes :: nat
  wm_connect_failures :: nat
  wm_connect_retry_attempts :: nat
  wm_poll_attempts :: nat
  wm_poll_successes :: nat
  wm_poll_failures :: nat
  wm_poll_retry_attempts :: nat
  wm_tag_successes :: int
  wm_tag_failures :: int
  wm_last_poll_correlation_id :: "string option"
  wm_last_reconnect_correlation_id :: "string option"
  wm_last_error :: "string option"

definition worker_metrics_of :: "'d worker \<Rightarrow> worker_metrics" where
  "worker_metrics_of w =
     \<lparr>wm_component_id = component_id w,
      wm_connect_attempts = cw_connect_attempts w,
      wm_connect_successes = cw_connect_successes w,
      wm_connect_failures = cw_connect_failures w,
      wm_connect_retry_attempts = cw_connect_retry_attempts w,
      wm_poll_attempts = cw_poll_attempts w,
      wm_poll_successes = cw_poll_successes w,
      wm_poll_failures = cw_poll_failures w,
      wm_poll_retry_attempts = cw_poll_retry_attempts w,
      wm_tag_successes = cw_tag_successes w,
      wm_tag_failures = cw_tag_failures w,
      wm_last_poll_correlation_id = cw_last_poll_correlation_id w,
      wm_last_reconnect_correlation_id = cw_last_reconnect_correlation_id w,
      wm_last_error = cw_last_error w\<rparr>"

text \<open>The error code and text are those of retry.py: the module repeats its helper.\<close>

definition record_failure :: "'d worker_env \<Rightarrow> pyexn \<Rightarrow> worker_state \<Rightarrow> 'd worker \<Rightarrow> 'd worker" where
  "record_failure env e state w =
     set_state env state (Some ''Worker operation failed.'') (Some (error_code e))
       (Some (exn_message e)) (w\<lparr>cw_last_error := Some (error_text e)\<rparr>)"

section \<open>Connecting and disconnecting\<close>

text \<open>An awaited call of the driver, with its state put back into the worker.\<close>

definition driver_call :: "('d \<Rightarrow> 'd \<times> 'a) \<Rightarrow> 'd worker \<Rightarrow> 'd worker \<times> 'a" where
  "driver_call f w = (case f (cw_driver w) of (d, x) \<Rightarrow> (w\<lparr>cw_driver := d\<rparr>, x))"

definition disconnect_after_cancellation ::
  "'d worker_env \<Rightarrow> 'd worker \<Rightarrow> 'd worker \<times> unit outcome" where
  "disconnect_after_cancellation env w =
     (let w1 = set_state env WS_Stopping (Some ''Cancellation requested.'') None None w
      in case driver_call (drv_disconnect (we_ops env)) w1 of
           (w2, Ret _) \<Rightarrow> (set_state env WS_Stopped (Some ''Cancelled.'') None None w2, Ret ())
         | (w2, Raise e) \<Rightarrow> (record_failure env e WS_Failed w2, Ret ())
         | (w2, Cancelled) \<Rightarrow> (w2, Cancelled))"

text \<open>
  \<^verbatim>\<open>except CancelledError: await self._disconnect_after_cancellation(); raise\<close>: the
  outcome is the cancellation, whichever of the two it is.
\<close>

definition cancelled_cleanup :: "'d worker_env \<Rightarrow> 'd worker \<Rightarrow> 'd worker \<times> 'a outcome" where
  "cancelled_cleanup env w = (fst (disconnect_after_cancellation env w), Cancelled)"

definition retry_sleep :: "'d worker_env \<Rightarrow> rat \<Rightarrow> 'd worker \<Rightarrow> 'd worker \<times> unit outcome" where
  "retry_sleep env d w = (w\<lparr>cw_sleeps := Suc (cw_sleeps w)\<rparr>, we_sleep env (cw_sleeps w) d)"

definition connect_once :: "'d worker_env \<Rightarrow> 'd worker \<Rightarrow> 'd worker \<times> unit outcome" where
  "connect_once env w =
     driver_call (drv_connect (we_ops env)) (w\<lparr>cw_connect_attempts := Suc (cw_connect_attempts w)\<rparr>)"

definition record_connect_retry :: "pyexn \<Rightarrow> rat \<Rightarrow> nat \<Rightarrow> 'd worker \<Rightarrow> 'd worker" where
  "record_connect_retry e d n w =
     w\<lparr>cw_connect_retry_attempts := Suc (cw_connect_retry_attempts w)\<rparr>"

definition connect_env :: "'d worker_env \<Rightarrow> nat \<Rightarrow> ('d worker, unit) retry_env" where
  "connect_env env k =
     \<lparr>re_operation = connect_once env, re_sleep = retry_sleep env, re_random = we_jitter env k,
      re_on_retry = record_connect_retry\<rparr>"

text \<open>Drawing a correlation id.\<close>

definition draw_uuid :: "'d worker \<Rightarrow> 'd worker" where
  "draw_uuid w = w\<lparr>cw_uuids := Suc (cw_uuids w)\<rparr>"

definition worker_connect :: "'d worker_env \<Rightarrow> 'd worker \<Rightarrow> 'd worker \<times> unit outcome" where
  "worker_connect env w =
     (let k = cw_uuids w;
          w1 = set_state env WS_Starting (Some ''Connecting.'') None None
                 ((draw_uuid w)\<lparr>cw_last_reconnect_correlation_id := Some (we_uuid env k)\<rparr>)
      in case run_with_retry (connect_env env k) (cw_connect_policy w1) w1 of
           (w2, Ret _) \<Rightarrow>
             (set_state env WS_Running (Some ''Connected.'') None None
                (w2\<lparr>cw_connect_successes := Suc (cw_connect_successes w2)\<rparr>), Ret ())
         | (w2, Raise e) \<Rightarrow>
             (record_failure env e WS_Failed
                (w2\<lparr>cw_connect_failures := Suc (cw_connect_failures w2)\<rparr>), Raise e)
         | (w2, Cancelled) \<Rightarrow> cancelled_cleanup env w2)"

definition worker_disconnect :: "'d worker_env \<Rightarrow> 'd worker \<Rightarrow> 'd worker \<times> unit outcome" where
  "worker_disconnect env w =
     (case driver_call (drv_disconnect (we_ops env))
             (set_state env WS_Stopping (Some ''Disconnecting.'') None None w) of
        (w1, Ret _) \<Rightarrow> (set_state env WS_Stopped (Some ''Disconnected.'') None None w1, Ret ())
      | (w1, Raise e) \<Rightarrow> (record_failure env e WS_Failed w1, Raise e)
      | (w1, Cancelled) \<Rightarrow> cancelled_cleanup env w1)"

section \<open>Polling\<close>

definition validate_poll_inputs ::
  "tag_group_config \<Rightarrow> tag_config list \<Rightarrow> 'd worker \<Rightarrow> unit result" where
  "validate_poll_inputs grp tags w =
     (if tg_connection_id grp \<noteq> cc_id (cw_connection w)
      then Inl (exn_coded ConfigurationError ''Tag group belongs to a different connection.''
             ''worker_group_connection_mismatch''
             [(''connection_id'', PStr (cc_id (cw_connection w))),
              (''tag_group_id'', PStr (tg_id grp)),
              (''tag_group_connection_id'', PStr (tg_connection_id grp))])
      else
        let invalid_tags = [tc_id t. t \<leftarrow> tags, tc_tag_group_id t \<noteq> tg_id grp]
        in if invalid_tags \<noteq> []
           then Inl (exn_coded ConfigurationError ''Tags must belong to the polled tag group.''
                  ''worker_tag_group_mismatch''
                  [(''tag_group_id'', PStr (tg_id grp)),
                   (''tag_ids'', PList (map PStr invalid_tags))])
           else Inr ())"

definition tag_request_from_config :: "int \<Rightarrow> tag_config \<Rightarrow> tag_request result" where
  "tag_request_from_config timeout_ms t =
     tag_request_new (tc_id t) (tc_address t) (tc_value_type t) (Some (AInt timeout_ms))"

definition failure_result :: "pyexn \<Rightarrow> datetime \<Rightarrow> tag_config \<Rightarrow> tag_result result" where
  "failure_result e received_at t =
     tag_result_failure (tc_id t) (error_code e) (error_text e) received_at None Q_Bad"

text \<open>One failure result per tag, each with its own reading of the clock.\<close>

fun failure_results ::
  "'d worker_env \<Rightarrow> pyexn \<Rightarrow> tag_config list \<Rightarrow> 'd worker \<Rightarrow> 'd worker \<times> tag_result list result" where
  "failure_results env e [] w = (w, Inr [])"
| "failure_results env e (t # ts) w =
     (case worker_now env w of
        (w1, now) \<Rightarrow>
          (case failure_result e now t of
             Inl err \<Rightarrow> (w1, Inl err)
           | Inr r \<Rightarrow>
               (case failure_results env e ts w1 of
                  (w2, Inl err) \<Rightarrow> (w2, Inl err)
                | (w2, Inr rs) \<Rightarrow> (w2, Inr (r # rs)))))"

definition poll_status_for :: "tag_result list \<Rightarrow> poll_status" where
  "poll_status_for results =
     (if results = [] then PS_Success
      else let failed = length (filter (\<lambda>r. \<not> is_success r) results)
           in if failed = 0 then PS_Success
              else if failed = length results then PS_Failed
              else PS_Partial_Failure)"

definition poll_error_message :: "tag_result list \<Rightarrow> string option" where
  "poll_error_message results =
     (let errors = [m. r \<leftarrow> results, m \<leftarrow> (case tr_error_message r of None \<Rightarrow> [] | Some m \<Rightarrow> [m]), m \<noteq> []]
      in if errors = [] then None else Some (str_join ''; '' errors))"

definition record_poll_metrics :: "poll_execution \<Rightarrow> 'd worker \<Rightarrow> 'd worker" where
  "record_poll_metrics x w =
     (let w1 = (if pe_status x = PS_Success
                then w\<lparr>cw_poll_successes := Suc (cw_poll_successes w)\<rparr>
                else w\<lparr>cw_poll_failures := Suc (cw_poll_failures w)\<rparr>)
      in w1\<lparr>cw_tag_successes := cw_tag_successes w1 + pe_successful_tags x,
            cw_tag_failures := cw_tag_failures w1 + pe_failed_tags x,
            cw_last_error := pe_error_message x\<rparr>)"

definition record_poll_retry :: "pyexn \<Rightarrow> rat \<Rightarrow> nat \<Rightarrow> 'd worker \<Rightarrow> 'd worker" where
  "record_poll_retry e d n w = w\<lparr>cw_poll_retry_attempts := Suc (cw_poll_retry_attempts w)\<rparr>"

definition poll_env ::
  "'d worker_env \<Rightarrow> nat \<Rightarrow> tag_request list \<Rightarrow> ('d worker, tag_result list) retry_env" where
  "poll_env env k requests =
     \<lparr>re_operation = driver_call (drv_read (we_ops env) requests), re_sleep = retry_sleep env,
      re_random = we_jitter env k, re_on_retry = record_poll_retry\<rparr>"

definition count_successes :: "tag_result list \<Rightarrow> int" where
  "count_successes results = int (length (filter is_success results))"

definition count_failures :: "tag_result list \<Rightarrow> int" where
  "count_failures results = int (length (filter (\<lambda>r. \<not> is_success r) results))"

text \<open>What \<^verbatim>\<open>poll_group\<close> does with the results: the part after the \<^verbatim>\<open>try\<close> statement.\<close>

definition state_of_poll :: "poll_status \<Rightarrow> worker_state \<times> string" where
  "state_of_poll s =
     (if s = PS_Success then (WS_Running, ''Poll succeeded.'')
      else if s = PS_Partial_Failure then (WS_Degraded, ''Poll partially failed.'')
      else (WS_Degraded, ''Poll failed.''))"

definition finish_poll ::
  "'d worker_env \<Rightarrow> string \<Rightarrow> tag_group_config \<Rightarrow> tag_config list \<Rightarrow> datetime \<Rightarrow> tag_result list
     \<Rightarrow> 'd worker \<Rightarrow> 'd worker \<times> worker_poll_result outcome" where
  "finish_poll env execution_id grp tags started_at results w =
     (case worker_now env w of
        (w1, finished_at) \<Rightarrow>
          (case poll_execution_new execution_id (cc_id (cw_connection w1)) (tg_id grp)
                  (poll_status_for results) started_at (Some finished_at) (AInt (int (length tags)))
                  (AInt (count_successes results)) (AInt (count_failures results))
                  (poll_error_message results) of
             Inl e \<Rightarrow> (w1, Raise e)
           | Inr x \<Rightarrow>
               (set_state env (fst (state_of_poll (pe_status x)))
                  (Some (snd (state_of_poll (pe_status x)))) None None (record_poll_metrics x w1),
                Ret \<lparr>wp_execution = x, wp_results = results\<rparr>)))"

definition poll_group ::
  "'d worker_env \<Rightarrow> tag_group_config \<Rightarrow> tag_config list \<Rightarrow> 'd worker
     \<Rightarrow> 'd worker \<times> worker_poll_result outcome" where
  "poll_group env grp tags w =
     (case validate_poll_inputs grp tags w of
        Inl e \<Rightarrow> (w, Raise e)
      | Inr _ \<Rightarrow>
          (case worker_now env w of
             (w1, started_at) \<Rightarrow>
               (let k = cw_uuids w1;
                    execution_id = we_uuid env k;
                    w2 = (draw_uuid w1)\<lparr>cw_last_poll_correlation_id := Some execution_id,
                            cw_poll_attempts := Suc (cw_poll_attempts w1)\<rparr>
                in case rmap (tag_request_from_config (tg_timeout_ms grp)) tags of
                     Inl e \<Rightarrow> (w2, Raise e)
                   | Inr requests \<Rightarrow>
                       (case run_with_retry (poll_env env k requests) (cw_poll_policy w2) w2 of
                          (w3, Ret (results, _)) \<Rightarrow>
                            finish_poll env execution_id grp tags started_at results w3
                        | (w3, Cancelled) \<Rightarrow> cancelled_cleanup env w3
                        | (w3, Raise e) \<Rightarrow>
                            (case failure_results env e tags (record_failure env e WS_Degraded w3) of
                               (w4, Inl e') \<Rightarrow> (w4, Raise e')
                             | (w4, Inr results) \<Rightarrow>
                                 finish_poll env execution_id grp tags started_at results w4)))))"

section \<open>Health checks and heartbeats\<close>

definition health_check ::
  "'d worker_env \<Rightarrow> 'd worker \<Rightarrow> 'd worker \<times> component_status outcome" where
  "health_check env w =
     (case driver_call (drv_health_check (we_ops env)) w of
        (w1, Cancelled) \<Rightarrow> cancelled_cleanup env w1
      | (w1, Raise e) \<Rightarrow>
          (case worker_status env (record_failure env e WS_Degraded w1) of
             (w2, s) \<Rightarrow> (w2, outcome_of s))
      | (w1, Ret healthy) \<Rightarrow>
          (case worker_status env
                  (if healthy then set_state env WS_Running (Some ''Healthy.'') None None w1
                   else set_state env WS_Degraded (Some ''Health check failed.'') None None w1) of
             (w2, s) \<Rightarrow> (w2, outcome_of s)))"

definition heartbeat :: "'d worker_env \<Rightarrow> 'd worker \<Rightarrow> 'd worker \<times> component_status result" where
  "heartbeat env w =
     (case worker_now env w of
        (w1, now) \<Rightarrow> worker_status env (w1\<lparr>cw_heartbeat_at := Some now\<rparr>))"

section \<open>Frames\<close>

lemma set_state_eq [simp]:
  "set_state env st m c e w = w\<lparr>cw_state := st, cw_message := m, cw_error_code := c,
     cw_error_message := e, cw_clock_reads := Suc (cw_clock_reads w),
     cw_heartbeat_at := Some (utc_dt (we_clock env (cw_clock_reads w)))\<rparr>"
  by (simp add: set_state_def worker_now_def)

lemma record_failure_eq [simp]:
  "record_failure env e st w = w\<lparr>cw_last_error := Some (error_text e), cw_state := st,
     cw_message := Some ''Worker operation failed.'', cw_error_code := Some (error_code e),
     cw_error_message := Some (exn_message e), cw_clock_reads := Suc (cw_clock_reads w),
     cw_heartbeat_at := Some (utc_dt (we_clock env (cw_clock_reads w)))\<rparr>"
  by (simp add: record_failure_def)

lemma driver_call_eq: "driver_call f w = (w\<lparr>cw_driver := fst (f (cw_driver w))\<rparr>, snd (f (cw_driver w)))"
  by (simp add: driver_call_def split: prod.split)

text \<open>What the two retry loops may change of the worker.\<close>

definition connect_changes :: "'d worker \<Rightarrow> 'd worker \<Rightarrow> bool" where
  "connect_changes w w' \<longleftrightarrow> w' = w\<lparr>cw_driver := cw_driver w',
     cw_connect_attempts := cw_connect_attempts w',
     cw_connect_retry_attempts := cw_connect_retry_attempts w', cw_sleeps := cw_sleeps w'\<rparr>"

definition poll_changes :: "'d worker \<Rightarrow> 'd worker \<Rightarrow> bool" where
  "poll_changes w w' \<longleftrightarrow> w' = w\<lparr>cw_driver := cw_driver w',
     cw_poll_retry_attempts := cw_poll_retry_attempts w', cw_sleeps := cw_sleeps w'\<rparr>"

lemma connect_changes_steps:
  "connect_changes w w"
  "connect_changes w s \<Longrightarrow> connect_changes w (fst (re_operation (connect_env env k) s))"
  "connect_changes w s \<Longrightarrow> connect_changes w (re_on_retry (connect_env env k) e d n s)"
  "connect_changes w s \<Longrightarrow> connect_changes w (fst (re_sleep (connect_env env k) d s))"
  by (cases w; cases s; simp add: connect_changes_def connect_env_def connect_once_def
      driver_call_eq record_connect_retry_def retry_sleep_def)+

lemma poll_changes_steps:
  "poll_changes w w"
  "poll_changes w s \<Longrightarrow> poll_changes w (fst (re_operation (poll_env env k reqs) s))"
  "poll_changes w s \<Longrightarrow> poll_changes w (re_on_retry (poll_env env k reqs) e d n s)"
  "poll_changes w s \<Longrightarrow> poll_changes w (fst (re_sleep (poll_env env k reqs) d s))"
  by (cases w; cases s; simp add: poll_changes_def poll_env_def driver_call_eq
      record_poll_retry_def retry_sleep_def)+

lemma connect_loop_frame:
  assumes "run_with_retry (connect_env env k) p w = (w', r)"
  shows "connect_changes w w'"
  using retry_loop_invariant [of "connect_changes w", OF connect_changes_steps, of env k p 0 0] assms
  by (simp add: run_with_retry_def)

lemma poll_loop_frame:
  assumes "run_with_retry (poll_env env k reqs) p w = (w', r)"
  shows "poll_changes w w'"
  using retry_loop_invariant [of "poll_changes w", OF poll_changes_steps, of env k reqs p 0 0] assms
  by (simp add: run_with_retry_def)

lemma connect_loop_update:
  assumes "run_with_retry (connect_env env k) p w = (w', r)"
  obtains d a t n where "w' = w\<lparr>cw_driver := d, cw_connect_attempts := a,
     cw_connect_retry_attempts := t, cw_sleeps := n\<rparr>"
  using connect_loop_frame [OF assms] unfolding connect_changes_def by blast

lemma poll_loop_update:
  assumes "run_with_retry (poll_env env k reqs) p w = (w', r)"
  obtains d t n where "w' = w\<lparr>cw_driver := d, cw_poll_retry_attempts := t, cw_sleeps := n\<rparr>"
  using poll_loop_frame [OF assms] unfolding poll_changes_def by blast

lemma failure_results_frame:
  "failure_results env e ts w = (w', r) \<Longrightarrow> \<exists>n. cw_clock_reads w \<le> n \<and> w' = w\<lparr>cw_clock_reads := n\<rparr>"
proof (induction ts arbitrary: w w' r)
  case Nil
  then show ?case by (cases w) auto
next
  case (Cons t ts)
  let ?w1 = "w\<lparr>cw_clock_reads := Suc (cw_clock_reads w)\<rparr>"
  obtain w2 x where x: "failure_results env e ts ?w1 = (w2, x)" by fastforce
  obtain n where n: "Suc (cw_clock_reads w) \<le> n" "w2 = w\<lparr>cw_clock_reads := n\<rparr>"
    using Cons.IH [OF x] by auto
  have "w' = w\<lparr>cw_clock_reads := Suc (cw_clock_reads w)\<rparr> \<or> w' = w2"
    using Cons.prems x by (auto simp: worker_now_def split: sum.splits)
  then show ?case using n by (metis Suc_leD le_SucI order_refl)
qed

interpretation connect_count: attempt_counter "connect_env env k" cw_connect_retry_attempts
  cw_connect_attempts for env k
  by unfold_locales
    (simp_all add: connect_env_def connect_once_def driver_call_eq retry_sleep_def
      record_connect_retry_def)

interpretation poll_count: retry_counter "poll_env env k reqs" cw_poll_retry_attempts for env k reqs
  by unfold_locales
    (simp_all add: poll_env_def driver_call_eq retry_sleep_def record_poll_retry_def)


section \<open>Results of a poll\<close>

lemma validate_poll_inputs_Inr [simp]:
  "validate_poll_inputs g ts w = Inr u \<longleftrightarrow> tg_connection_id g = cc_id (cw_connection w) \<and>
     (\<forall>t \<in> set ts. tc_tag_group_id t = tg_id g)"
  by (auto simp: validate_poll_inputs_def Let_def)

lemma tag_request_from_config_ok:
  "tag_ok t \<Longrightarrow> 0 < n \<Longrightarrow> tag_request_from_config n t = Inr \<lparr>rq_tag_id = tc_id t,
     rq_address = tc_address t, rq_value_type = tc_value_type t, rq_timeout_ms = Some n\<rparr>"
  by (simp add: tag_request_from_config_def tag_request_new_def tag_ok_def)

definition requests_of :: "int \<Rightarrow> tag_config list \<Rightarrow> tag_request list" where
  "requests_of n ts = map (\<lambda>t. \<lparr>rq_tag_id = tc_id t, rq_address = tc_address t,
     rq_value_type = tc_value_type t, rq_timeout_ms = Some n\<rparr>) ts"

lemma requests_of_config:
  assumes "\<forall>t \<in> set ts. tag_ok t" "0 < n"
  shows "rmap (tag_request_from_config n) ts = Inr (requests_of n ts)"
    "\<forall>q \<in> set (requests_of n ts). request_ok q" "map rq_tag_id (requests_of n ts) = map tc_id ts"
    "length (requests_of n ts) = length ts"
  using assms
  by (auto simp: requests_of_def request_ok_def tag_ok_def intro!: rmap_all_Inr
      tag_request_from_config_ok)

text \<open>What a poll hands on for its tags, whether they were read or the read failed.\<close>

definition tags_match :: "tag_config list \<Rightarrow> tag_result list \<Rightarrow> bool" where
  "tags_match ts rs \<longleftrightarrow> map tr_tag_id rs = map tc_id ts \<and>
     (\<forall>r \<in> set rs. tag_result_ok r \<and> (case tr_value r of None \<Rightarrow> True | Some v \<Rightarrow> tag_value_ok v))"

lemma tags_match_length: "tags_match ts rs \<Longrightarrow> length rs = length ts"
  unfolding tags_match_def by (metis length_map)

lemma results_match_tags:
  assumes "results_match (requests_of n ts) rs"
  shows "tags_match ts rs"
proof -
  have "map rq_tag_id (requests_of n ts) = map tc_id ts" by (simp add: requests_of_def)
  then show ?thesis
    using results_match_ids [OF assms] results_match_ok [OF assms] by (simp add: tags_match_def)
qed

lemma failure_result_ok:
  assumes "failure_result e now t = Inr r" "tag_ok t"
  shows "tr_tag_id r = tc_id t \<and> tag_result_ok r \<and> tr_value r = None"
  using assms tag_result_new_ok tag_result_new_tag_id
  by (auto simp: failure_result_def tag_result_failure_def tag_ok_def stripped_def)

lemma failure_results_match:
  assumes "failure_results env e ts w = (w', Inr rs)" "\<forall>t \<in> set ts. tag_ok t"
  shows "tags_match ts rs \<and> (\<forall>r \<in> set rs. \<not> is_success r)"
  using assms
proof (induction ts arbitrary: w rs)
  case Nil
  then show ?case by (simp add: tags_match_def)
next
  case (Cons t ts)
  obtain now w1 r rs' where r: "failure_result e now t = Inr r"
    and rs: "failure_results env e ts w1 = (w', Inr rs')" "rs = r # rs'"
    using Cons.prems(1) by (auto split: prod.splits sum.splits)
  show ?case using Cons.IH [OF rs(1)] failure_result_ok [OF r] Cons.prems(2) rs(2)
    by (auto simp: tags_match_def is_success_def)
qed

lemma failure_results_total:
  assumes "\<not> blank (error_code e)" "\<not> blank (error_text e)" "\<And>n. valid_wall (we_clock env n)"
    and "\<forall>t \<in> set ts. tag_ok t"
  shows "\<exists>w' rs. failure_results env e ts w = (w', Inr rs)"
  using assms(4)
proof (induction ts arbitrary: w)
  case Nil
  then show ?case by simp
next
  case (Cons t ts)
  have "\<exists>r. failure_result e (utc_dt (we_clock env (cw_clock_reads w))) t = Inr r"
    using Cons.prems assms(1-3) by (simp add: failure_result_def tag_result_failure_total tag_ok_def)
  moreover obtain w' rs where "failure_results env e ts (w\<lparr>cw_clock_reads := Suc (cw_clock_reads w)\<rparr>)
      = (w', Inr rs)" using Cons by fastforce
  ultimately show ?case by (auto simp: worker_now_def)
qed

lemma count_split: "count_successes rs + count_failures rs = int (length rs)"
proof -
  have "length (filter is_success rs) + length (filter (\<lambda>r. \<not> is_success r) rs) = length rs"
    by (rule sum_length_filter_compl)
  then show ?thesis by (simp add: count_successes_def count_failures_def flip: of_nat_add)
qed

lemma poll_status_for_iff:
  "poll_status_for rs = PS_Success \<longleftrightarrow> (\<forall>r \<in> set rs. is_success r)"
  "poll_status_for rs = PS_Failed \<longleftrightarrow> rs \<noteq> [] \<and> (\<forall>r \<in> set rs. \<not> is_success r)"
  "poll_status_for rs = PS_Partial_Failure \<longleftrightarrow>
     (\<exists>r \<in> set rs. is_success r) \<and> (\<exists>r \<in> set rs. \<not> is_success r)"
proof -
  have a: "length (filter (\<lambda>r. \<not> is_success r) rs) = 0 \<longleftrightarrow> (\<forall>r \<in> set rs. is_success r)"
    by (simp add: filter_empty_conv)
  have b: "length (filter (\<lambda>r. \<not> is_success r) rs) = length rs \<longleftrightarrow> (\<forall>r \<in> set rs. \<not> is_success r)"
    by (metis filter_True length_filter_less less_irrefl)
  have c: "rs \<noteq> [] \<longleftrightarrow> (\<exists>r. r \<in> set rs)" by (cases rs) auto
  show "poll_status_for rs = PS_Success \<longleftrightarrow> (\<forall>r \<in> set rs. is_success r)"
    "poll_status_for rs = PS_Failed \<longleftrightarrow> rs \<noteq> [] \<and> (\<forall>r \<in> set rs. \<not> is_success r)"
    "poll_status_for rs = PS_Partial_Failure \<longleftrightarrow>
     (\<exists>r \<in> set rs. is_success r) \<and> (\<exists>r \<in> set rs. \<not> is_success r)"
    unfolding poll_status_for_def Let_def a b using c by auto
qed

text \<open>The last part of a poll, when it returns.\<close>

lemma finish_poll_Ret:
  assumes "finish_poll env eid g ts started rs w = (w', Ret r)" "stripped (cc_id (cw_connection w))"
    and "stripped (tg_id g)" "utc_ok started" "length rs = length ts"
  shows "wp_results r = rs \<and> execution_ok (wp_execution r) \<and>
    pe_connection_id (wp_execution r) = cc_id (cw_connection w) \<and>
    pe_tag_group_id (wp_execution r) = tg_id g \<and> pe_execution_id (wp_execution r) = py_strip eid \<and>
    pe_status (wp_execution r) = poll_status_for rs \<and> pe_started_at (wp_execution r) = started \<and>
    pe_requested_tags (wp_execution r) = int (length ts) \<and>
    pe_successful_tags (wp_execution r) = count_successes rs \<and>
    pe_failed_tags (wp_execution r) = count_failures rs"
proof -
  let ?now = "utc_dt (we_clock env (cw_clock_reads w))"
  have "poll_execution_new eid (cc_id (cw_connection w)) (tg_id g) (poll_status_for rs) started
      (Some ?now) (AInt (int (length ts))) (AInt (count_successes rs)) (AInt (count_failures rs))
      (poll_error_message rs) = Inr (wp_execution r) \<and> wp_results r = rs"
    using assms(1) by (auto simp: finish_poll_def worker_now_def split: sum.splits)
  note x = conjunct1 [OF this] and rs = conjunct2 [OF this]
  show ?thesis using poll_execution_new_ok [OF x] poll_execution_new_fields [OF x] rs assms(2-4)
    by (auto simp: stripped_def)
qed

section \<open>The invariant of a worker\<close>

definition counters_ok :: "'d worker \<Rightarrow> bool" where
  "counters_ok w \<longleftrightarrow>
     cw_connect_successes w + cw_connect_failures w \<le> cw_connect_attempts w \<and>
     cw_connect_retry_attempts w \<le> cw_connect_attempts w \<and>
     cw_poll_successes w + cw_poll_failures w \<le> cw_poll_attempts w \<and>
     0 \<le> cw_tag_successes w \<and> 0 \<le> cw_tag_failures w"

text \<open>An error code is shown exactly by a failed, and at times by a degraded worker.\<close>

definition shown_state_ok :: "'d worker \<Rightarrow> bool" where
  "shown_state_ok w \<longleftrightarrow>
     (cw_state w = WS_Failed \<longrightarrow> cw_error_code w \<noteq> None) \<and>
     (cw_error_code w \<noteq> None \<longrightarrow> cw_state w \<in> {WS_Failed, WS_Degraded}) \<and>
     (cw_state w \<noteq> WS_Stopped \<longrightarrow> cw_heartbeat_at w \<noteq> None)"

definition worker_inv :: "('d \<Rightarrow> bool) \<Rightarrow> 'd worker \<Rightarrow> bool" where
  "worker_inv D w \<longleftrightarrow> D (cw_driver w) \<and> connection_ok (cw_connection w) \<and>
     policy_ok (cw_connect_policy w) \<and> policy_ok (cw_poll_policy w) \<and>
     counters_ok w \<and> shown_state_ok w"

lemmas worker_inv_defs = worker_inv_def counters_ok_def shown_state_ok_def

lemma worker_new_inv:
  assumes "worker_new c reg p q = Inr w" "connection_ok c" "policy_ok p" "policy_ok q"
    and "\<And>d. create_driver reg c = Inr d \<Longrightarrow> D d"
  shows "worker_inv D w"
  using assms by (auto simp: worker_new_def worker_inv_defs)

lemma policy_ok_positive: "policy_ok p \<Longrightarrow> 0 < rp_max_attempts p"
  by (simp add: policy_ok_def)

lemma worker_inv_driver: "worker_inv D w \<Longrightarrow> D d \<Longrightarrow> worker_inv D (w\<lparr>cw_driver := d\<rparr>)"
  by (simp add: worker_inv_defs)

lemma worker_inv_set_state:
  "worker_inv D w \<Longrightarrow> st \<noteq> WS_Failed \<Longrightarrow> worker_inv D (set_state env st m None None w)"
  by (simp add: worker_inv_defs)

lemma worker_inv_record_failure:
  "worker_inv D w \<Longrightarrow> st = WS_Failed \<or> st = WS_Degraded \<Longrightarrow> worker_inv D (record_failure env e st w)"
  by (auto simp: worker_inv_defs)

lemma worker_inv_clock: "worker_inv D w \<Longrightarrow> worker_inv D (w\<lparr>cw_clock_reads := n\<rparr>)"
  by (simp add: worker_inv_defs)

lemma worker_inv_policies:
  "worker_inv D w \<Longrightarrow> 0 < rp_max_attempts (cw_connect_policy w) \<and> 0 < rp_max_attempts (cw_poll_policy w)"
  by (simp add: worker_inv_def policy_ok_positive)

lemma worker_inv_status: "worker_inv D w \<Longrightarrow> worker_inv D (fst (worker_status env w))"
  by (auto simp: worker_status_def worker_now_def worker_inv_clock split: option.splits)

lemmas worker_inv_steps = worker_inv_driver worker_inv_set_state worker_inv_record_failure
  worker_inv_clock worker_inv_status

text \<open>The worker when it first calls the driver for a poll.\<close>

definition poll_started :: "'d worker_env \<Rightarrow> 'd worker \<Rightarrow> 'd worker" where
  "poll_started env w = w\<lparr>cw_clock_reads := Suc (cw_clock_reads w), cw_uuids := Suc (cw_uuids w),
     cw_last_poll_correlation_id := Some (we_uuid env (cw_uuids w)),
     cw_poll_attempts := Suc (cw_poll_attempts w)\<rparr>"

lemma poll_started_simps [simp]:
  "cw_poll_policy (poll_started env w) = cw_poll_policy w"
  "cw_poll_attempts (poll_started env w) = Suc (cw_poll_attempts w)"
  "cw_poll_successes (poll_started env w) = cw_poll_successes w"
  "cw_poll_failures (poll_started env w) = cw_poll_failures w"
  "cw_connection (poll_started env w) = cw_connection w"
  "cw_driver (poll_started env w) = cw_driver w"
  "cw_tag_successes (poll_started env w) = cw_tag_successes w"
  "cw_tag_failures (poll_started env w) = cw_tag_failures w"
  "cw_clock_reads (poll_started env w) = Suc (cw_clock_reads w)"
  by (simp_all add: poll_started_def)

lemma poll_started_inv: "worker_inv D w \<Longrightarrow> worker_inv D (poll_started env w)"
  by (auto simp: poll_started_def worker_inv_defs)

lemma poll_group_unfold:
  assumes "validate_poll_inputs g ts w = Inr ()"
    and "rmap (tag_request_from_config (tg_timeout_ms g)) ts = Inr reqs"
    and "run_with_retry (poll_env env (cw_uuids w) reqs) (cw_poll_policy w) (poll_started env w) = (w3, x)"
  shows "poll_group env g ts w = (case x of
      Ret (results, _) \<Rightarrow> finish_poll env (we_uuid env (cw_uuids w)) g ts
        (utc_dt (we_clock env (cw_clock_reads w))) results w3
    | Cancelled \<Rightarrow> cancelled_cleanup env w3
    | Raise e \<Rightarrow> (case failure_results env e ts (record_failure env e WS_Degraded w3) of
          (w4, Inl e') \<Rightarrow> (w4, Raise e')
        | (w4, Inr results) \<Rightarrow> finish_poll env (we_uuid env (cw_uuids w)) g ts
            (utc_dt (we_clock env (cw_clock_reads w))) results w4))"
proof -
  have "w\<lparr>cw_clock_reads := Suc (cw_clock_reads w), cw_uuids := Suc (cw_uuids w),
     cw_last_poll_correlation_id := Some (we_uuid env (cw_uuids w)),
     cw_poll_attempts := Suc (cw_poll_attempts w)\<rparr> = poll_started env w"
    by (simp add: poll_started_def)
  then show ?thesis using assms
    by (simp add: poll_group_def worker_now_def draw_uuid_def Let_def
        del: record_failure_eq validate_poll_inputs_Inr)
qed

lemma poll_group_bad_request:
  assumes "validate_poll_inputs g ts w = Inr ()"
    and "rmap (tag_request_from_config (tg_timeout_ms g)) ts = Inl e"
  shows "poll_group env g ts w = (poll_started env w, Raise e)"
  using assms by (simp add: poll_group_def worker_now_def draw_uuid_def Let_def poll_started_def
      del: validate_poll_inputs_Inr)

context communication_driver
begin

lemma driver_call_keeps:
  assumes "worker_inv inv w" "driver_call f w = (w', x)" "\<And>d. inv d \<Longrightarrow> inv (fst (f d))"
  shows "worker_inv inv w'"
  using assms by (auto simp: driver_call_eq worker_inv_defs)

lemma cleanup_keeps:
  assumes "worker_inv inv w" "we_ops env = ops"
  shows "worker_inv inv (fst (disconnect_after_cancellation env w))"
proof -
  let ?w1 = "set_state env WS_Stopping (Some ''Cancellation requested.'') None None w"
  obtain w2 x where call: "driver_call (drv_disconnect (we_ops env)) ?w1 = (w2, x)" by fastforce
  have "worker_inv inv ?w1" by (rule worker_inv_set_state) (use assms in simp_all)
  then have "worker_inv inv w2"
    using driver_call_keeps [OF _ call] assms(2) disconnect_inv by simp
  then show ?thesis using call
    by (cases x) (simp_all add: disconnect_after_cancellation_def Let_def
        worker_inv_steps del: set_state_eq record_failure_eq)
qed

lemma connect_loop_driver:
  assumes "inv (cw_driver w)" "we_ops env = ops" "run_with_retry (connect_env env k) p w = (w', r)"
  shows "inv (cw_driver w')"
proof -
  have "inv (cw_driver (fst (retry_loop (connect_env env k) p 0 0 w)))"
    by (rule retry_loop_invariant [where I = "\<lambda>w. inv (cw_driver w)"])
      (use assms(1,2) connect_inv in \<open>auto simp: connect_env_def connect_once_def driver_call_eq
        record_connect_retry_def retry_sleep_def\<close>)
  then show ?thesis using assms(3) by (simp add: run_with_retry_def)
qed

lemma poll_loop_driver:
  assumes "inv (cw_driver w)" "we_ops env = ops" "run_with_retry (poll_env env k reqs) p w = (w', r)"
  shows "inv (cw_driver w')"
proof -
  have "inv (cw_driver (fst (retry_loop (poll_env env k reqs) p 0 0 w)))"
    by (rule retry_loop_invariant [where I = "\<lambda>w. inv (cw_driver w)"])
      (use assms(1,2) read_inv in \<open>auto simp: poll_env_def driver_call_eq record_poll_retry_def
        retry_sleep_def\<close>)
  then show ?thesis using assms(3) by (simp add: run_with_retry_def)
qed

lemma poll_loop_results:
  assumes "inv (cw_driver w)" "we_ops env = ops" "\<forall>q \<in> set reqs. request_ok q"
    and "run_with_retry (poll_env env k reqs) p w = (w', Ret (results, out))"
  shows "results_match reqs results"
proof -
  have "\<exists>t t'. inv (cw_driver t) \<and> re_operation (poll_env env k reqs) t = (t', Ret results)"
    by (rule retry_loop_Ret [where I = "\<lambda>w. inv (cw_driver w)" and p = p and n = 0 and r = 0 and s = w
          and s' = w' and out = out])
      (use assms read_inv in \<open>auto simp: poll_env_def driver_call_eq record_poll_retry_def
        retry_sleep_def run_with_retry_def\<close>)
  then obtain t t' where t: "inv (cw_driver t)" "re_operation (poll_env env k reqs) t = (t', Ret results)"
    by blast
  then have "drv_read ops reqs (cw_driver t) = (fst (drv_read ops reqs (cw_driver t)), Ret results)"
    using assms(2) by (simp add: poll_env_def driver_call_eq prod_eq_iff)
  from read_match [OF t(1) assms(3) this] show ?thesis .
qed

text \<open>After the connect loop the worker's counters are still in order.\<close>

lemma connect_loop_keeps:
  assumes "worker_inv inv w" "we_ops env = ops"
    and run: "run_with_retry (connect_env env k) (cw_connect_policy w) w = (w', r)"
  shows "worker_inv inv w'" "cw_connect_attempts w < cw_connect_attempts w'"
    "cw_connect_successes w' = cw_connect_successes w" "cw_connect_failures w' = cw_connect_failures w"
proof -
  obtain d a t n where w': "w' = w\<lparr>cw_driver := d, cw_connect_attempts := a,
      cw_connect_retry_attempts := t, cw_sleeps := n\<rparr>"
    by (rule connect_loop_update [OF run])
  have d: "inv (cw_driver w')"
    using connect_loop_driver [OF _ assms(2) run] assms(1) by (simp add: worker_inv_def)
  have more: "cw_connect_attempts w < cw_connect_attempts w'"
    using connect_count.run_attempts(1) [OF run] worker_inv_policies [OF assms(1)] by simp
  have bal: "cw_connect_retry_attempts w' + cw_connect_attempts w
      \<le> cw_connect_attempts w' + cw_connect_retry_attempts w"
    using connect_count.run_balance [OF run] .
  show "worker_inv inv w'" using assms(1) w' d more bal by (auto simp: worker_inv_defs)
  show "cw_connect_attempts w < cw_connect_attempts w'" by (rule more)
  show "cw_connect_successes w' = cw_connect_successes w" "cw_connect_failures w' = cw_connect_failures w"
    using w' by simp_all
qed

lemma connect_keeps:
  assumes "worker_inv inv w" "we_ops env = ops"
  shows "worker_inv inv (fst (worker_connect env w))"
proof -
  define w1 where "w1 = set_state env WS_Starting (Some ''Connecting.'') None None
    ((draw_uuid w)\<lparr>cw_last_reconnect_correlation_id := Some (we_uuid env (cw_uuids w))\<rparr>)"
  obtain w2 x where run: "run_with_retry (connect_env env (cw_uuids w)) (cw_connect_policy w1) w1
      = (w2, x)" by fastforce
  have w1: "worker_inv inv w1" unfolding w1_def
    by (rule worker_inv_set_state) (use assms(1) in \<open>simp_all add: draw_uuid_def worker_inv_defs\<close>)
  note loop = connect_loop_keeps [OF w1 assms(2) run]
  have room: "cw_connect_successes w2 + cw_connect_failures w2 < cw_connect_attempts w2"
    using loop(2-4) w1 by (simp add: worker_inv_defs)
  have s: "worker_inv inv (w2\<lparr>cw_connect_successes := Suc (cw_connect_successes w2)\<rparr>)"
    and f: "worker_inv inv (w2\<lparr>cw_connect_failures := Suc (cw_connect_failures w2)\<rparr>)"
    using loop(1) room by (auto simp: worker_inv_defs)
  have split: "fst (worker_connect env w) = (case x of
      Ret _ \<Rightarrow> set_state env WS_Running (Some ''Connected.'') None None
        (w2\<lparr>cw_connect_successes := Suc (cw_connect_successes w2)\<rparr>)
    | Raise e \<Rightarrow> record_failure env e WS_Failed
        (w2\<lparr>cw_connect_failures := Suc (cw_connect_failures w2)\<rparr>)
    | Cancelled \<Rightarrow> fst (disconnect_after_cancellation env w2))"
    using run by (simp add: cancelled_cleanup_def worker_connect_def Let_def w1_def [symmetric] split: outcome.split
        del: set_state_eq record_failure_eq)
  show ?thesis unfolding split
    using worker_inv_set_state [OF s] worker_inv_record_failure [OF f] cleanup_keeps [OF loop(1) assms(2)]
    by (cases x) (simp_all del: set_state_eq record_failure_eq)
qed

lemma disconnect_keeps:
  assumes "worker_inv inv w" "we_ops env = ops"
  shows "worker_inv inv (fst (worker_disconnect env w))"
proof -
  let ?w1 = "set_state env WS_Stopping (Some ''Disconnecting.'') None None w"
  obtain w2 x where call: "driver_call (drv_disconnect (we_ops env)) ?w1 = (w2, x)" by fastforce
  have "worker_inv inv ?w1" by (rule worker_inv_set_state) (use assms in simp_all)
  then have "worker_inv inv w2"
    using driver_call_keeps [OF _ call] assms(2) disconnect_inv by simp
  then show ?thesis using call cleanup_keeps [OF _ assms(2)]
    by (cases x) (simp_all add: cancelled_cleanup_def worker_disconnect_def worker_inv_steps
        del: set_state_eq record_failure_eq)
qed

lemma health_keeps:
  assumes "worker_inv inv w" "we_ops env = ops"
  shows "worker_inv inv (fst (health_check env w))"
proof -
  obtain w2 x where call: "driver_call (drv_health_check (we_ops env)) w = (w2, x)" by fastforce
  have w2: "worker_inv inv w2"
    using driver_call_keeps [OF assms(1) call] assms(2) health_inv by simp
  show ?thesis
    using w2 call cleanup_keeps [OF _ assms(2)]
    by (cases x) (simp_all add: cancelled_cleanup_def health_check_def split_def worker_inv_steps
        del: set_state_eq record_failure_eq)
qed

lemma finish_poll_keeps:
  assumes "worker_inv inv w" "cw_poll_successes w + cw_poll_failures w < cw_poll_attempts w"
  shows "worker_inv inv (fst (finish_poll env eid g ts started rs w))"
proof -
  have ok: "worker_inv inv (record_poll_metrics x (w\<lparr>cw_clock_reads := n\<rparr>))" if "execution_ok x" for x n
    using that assms by (auto simp: record_poll_metrics_def worker_inv_defs execution_ok_def)
  have st: "fst (state_of_poll s) \<noteq> WS_Failed" for s by (simp add: state_of_poll_def)
  show ?thesis
    using ok st assms(1) poll_execution_new_ok
    by (auto simp: finish_poll_def worker_now_def worker_inv_steps simp del: set_state_eq
        split: sum.splits)
qed

lemma poll_loop_keeps:
  assumes "worker_inv inv w" "we_ops env = ops"
    and run: "run_with_retry (poll_env env k reqs) p w = (w', r)"
  shows "worker_inv inv w'" "cw_poll_attempts w' = cw_poll_attempts w"
    "cw_poll_successes w' = cw_poll_successes w" "cw_poll_failures w' = cw_poll_failures w"
    "cw_connection w' = cw_connection w"
proof -
  obtain d t n where w': "w' = w\<lparr>cw_driver := d, cw_poll_retry_attempts := t, cw_sleeps := n\<rparr>"
    by (rule poll_loop_update [OF run])
  have "inv (cw_driver w')"
    using poll_loop_driver [OF _ assms(2) run] assms(1) by (simp add: worker_inv_def)
  then show "worker_inv inv w'" "cw_poll_attempts w' = cw_poll_attempts w"
    "cw_poll_successes w' = cw_poll_successes w" "cw_poll_failures w' = cw_poll_failures w"
    "cw_connection w' = cw_connection w"
    using assms(1) w' by (simp_all add: worker_inv_defs)
qed

lemma poll_keeps:
  assumes "worker_inv inv w" "we_ops env = ops"
  shows "worker_inv inv (fst (poll_group env g ts w))"
proof (cases "validate_poll_inputs g ts w")
  case (Inl e)
  then show ?thesis using assms by (simp add: poll_group_def)
next
  case (Inr u)
  then have valid: "validate_poll_inputs g ts w = Inr ()" by simp
  show ?thesis
  proof (cases "rmap (tag_request_from_config (tg_timeout_ms g)) ts")
    case (Inl e)
    then show ?thesis using poll_group_bad_request [OF valid Inl] poll_started_inv assms by simp
  next
    case reqs: (Inr reqs)
    obtain w3 x where run: "run_with_retry (poll_env env (cw_uuids w) reqs) (cw_poll_policy w)
        (poll_started env w) = (w3, x)" by fastforce
    note loop = poll_loop_keeps [OF poll_started_inv [OF assms(1)] assms(2) run]
    have room: "cw_poll_successes w3 + cw_poll_failures w3 < cw_poll_attempts w3"
      using loop(2-4) assms(1) by (simp add: worker_inv_defs)
    note unfold = poll_group_unfold [OF valid reqs run]
    show ?thesis
    proof (cases x)
      case (Ret y)
      then show ?thesis using unfold finish_poll_keeps [OF loop(1) room] by (cases y) simp
    next
      case Cancelled
      then show ?thesis using unfold cleanup_keeps [OF loop(1) assms(2)] by (simp add: cancelled_cleanup_def)
    next
      case (Raise e)
      let ?w = "record_failure env e WS_Degraded w3"
      obtain w4 y where fr: "failure_results env e ts ?w = (w4, y)" by fastforce
      obtain n where w4: "w4 = ?w\<lparr>cw_clock_reads := n\<rparr>" using failure_results_frame [OF fr] by blast
      have inv4: "worker_inv inv w4" unfolding w4
        by (intro worker_inv_clock worker_inv_record_failure loop(1)) simp
      have "cw_poll_successes w4 + cw_poll_failures w4 < cw_poll_attempts w4"
        using room w4 by simp
      then show ?thesis using unfold Raise fr inv4 finish_poll_keeps [OF inv4]
        by (cases y) (simp_all del: record_failure_eq)
    qed
  qed
qed

lemma heartbeat_keeps:
  assumes "worker_inv inv w"
  shows "worker_inv inv (fst (heartbeat env w))"
  using assms by (auto simp: heartbeat_def worker_now_def intro!: worker_inv_status)
    (auto simp: worker_inv_defs)

text \<open>A poll that returns, whether the read succeeded or failed.\<close>

lemma poll_returns:
  assumes w: "worker_inv inv w" "we_ops env = ops"
    and inputs: "tag_group_ok g" "\<forall>t \<in> set ts. tag_ok t"
    and poll: "poll_group env g ts w = (w', Ret r)"
    and clock: "valid_wall (we_clock env (cw_clock_reads w))"
  obtains w4 where "finish_poll env (we_uuid env (cw_uuids w)) g ts
      (utc_dt (we_clock env (cw_clock_reads w))) (wp_results r) w4 = (w', Ret r)"
    "tags_match ts (wp_results r)" "worker_inv inv w4" "cw_connection w4 = cw_connection w"
    "cw_poll_attempts w4 = Suc (cw_poll_attempts w)"
    "cw_poll_successes w4 = cw_poll_successes w" "cw_poll_failures w4 = cw_poll_failures w"
    "cw_tag_successes w4 = cw_tag_successes w" "cw_tag_failures w4 = cw_tag_failures w"
proof -
  have valid: "validate_poll_inputs g ts w = Inr ()"
    using poll by (cases "validate_poll_inputs g ts w") (auto simp: poll_group_def)
  have n: "0 < tg_timeout_ms g" using inputs(1) by (simp add: tag_group_ok_def)
  note reqs = requests_of_config [OF inputs(2) n]
  let ?reqs = "requests_of (tg_timeout_ms g) ts"
  obtain w3 x where run: "run_with_retry (poll_env env (cw_uuids w) ?reqs) (cw_poll_policy w)
      (poll_started env w) = (w3, x)" by fastforce
  note loop = poll_loop_keeps [OF poll_started_inv [OF w(1)] w(2) run]
  obtain d t m where w3: "w3 = (poll_started env w)\<lparr>cw_driver := d, cw_poll_retry_attempts := t, cw_sleeps := m\<rparr>"
    by (rule poll_loop_update [OF run])
  note unfold = poll_group_unfold [OF valid reqs(1) run]
  show thesis
  proof (cases x)
    case (Ret y)
    obtain rs out where y: "y = (rs, out)" by (cases y)
    have fin: "finish_poll env (we_uuid env (cw_uuids w)) g ts
        (utc_dt (we_clock env (cw_clock_reads w))) rs w3 = (w', Ret r)"
      using unfold poll Ret y by simp
    then have "wp_results r = rs" by (auto simp: finish_poll_def worker_now_def split: sum.splits)
    moreover have "tags_match ts rs"
      using poll_loop_results [OF _ w(2) reqs(2) run [unfolded Ret y]] w(1) results_match_tags
      by (simp add: worker_inv_def)
    ultimately show thesis using that [of w3] fin loop w3 by simp
  next
    case Cancelled
    then show thesis using unfold poll by (simp add: cancelled_cleanup_def)
  next
    case (Raise e)
    let ?w = "record_failure env e WS_Degraded w3"
    obtain w4 z where fr: "failure_results env e ts ?w = (w4, z)" by fastforce
    then obtain rs where z: "z = Inr rs" using unfold poll Raise by (cases z) auto
    have fin: "finish_poll env (we_uuid env (cw_uuids w)) g ts
        (utc_dt (we_clock env (cw_clock_reads w))) rs w4 = (w', Ret r)"
      using unfold poll Raise fr z by simp
    then have rs: "wp_results r = rs" by (auto simp: finish_poll_def worker_now_def split: sum.splits)
    obtain n where w4: "w4 = ?w\<lparr>cw_clock_reads := n\<rparr>" using failure_results_frame [OF fr] by blast
    have "worker_inv inv w4" unfolding w4
      by (intro worker_inv_clock worker_inv_record_failure loop(1)) simp
    moreover have "tags_match ts rs"
      using failure_results_match [OF fr [unfolded z] inputs(2)] by blast
    ultimately show thesis using that [of w4] fin rs w4 w3 by simp
  qed
qed

end

section \<open>A worker on the mock driver\<close>

text \<open>The concrete worker, tags and surroundings at which the theorems are applied.\<close>

definition ex_connection :: connection_config where
  "ex_connection = \<lparr>cc_id = ''c1'', cc_protocol = ''mock'', cc_endpoint = ''local'',
     cc_enabled = True, cc_timeout_ms = 100,
     cc_protocol_options = [(PStr ''tags'', PDict [(PStr ''t2'',
       PDict [(PStr ''error_code'', PStr ''E''), (PStr ''error_message'', PStr ''bad'')])])]\<rparr>"

definition ex_group :: tag_group_config where
  "ex_group = \<lparr>tg_id = ''g1'', tg_connection_id = ''c1'', tg_interval_ms = 1000,
     tg_timeout_ms = 50, tg_overlap_policy = OP_Skip, tg_enabled = True\<rparr>"

definition ex_tag :: "string \<Rightarrow> tag_config" where
  "ex_tag i = \<lparr>tc_id = i, tc_tag_group_id = ''g1'', tc_name = ''n'', tc_address = ''a'',
     tc_value_type = VT_Integer, tc_enabled = True, tc_metadata = []\<rparr>"

definition ex_policy :: retry_policy where
  "ex_policy = \<lparr>rp_max_attempts = 2, rp_initial_delay_s = 1, rp_max_delay_s = 1,
     rp_multiplier = 2, rp_jitter_ratio = 0\<rparr>"

definition ex_mock_env :: mock_env where
  "ex_mock_env = \<lparr>me_clock = (\<lambda>n. int n), me_sleep = (\<lambda>_. Ret ())\<rparr>"

definition ex_env :: "'d driver_ops \<Rightarrow> (nat \<Rightarrow> int) \<Rightarrow> 'd worker_env" where
  "ex_env ops clock = \<lparr>we_ops = ops, we_clock = clock,
     we_uuid = (\<lambda>n. ''u'' @ show_nat n), we_sleep = (\<lambda>_ _. Ret ()), we_jitter = (\<lambda>_ _. 0)\<rparr>"

definition ex_worker :: "mock_driver worker" where
  "ex_worker = (case worker_new ex_connection [(''mock'', mock_driver_new)] ex_policy ex_policy of
     Inr w \<Rightarrow> fst (worker_connect (ex_env (mock_ops ex_mock_env) int) w))"

definition ex_poll :: "(nat \<Rightarrow> int) \<Rightarrow> mock_driver worker \<times> worker_poll_result outcome" where
  "ex_poll clock = poll_group (ex_env (mock_ops ex_mock_env) clock) ex_group [ex_tag ''t1'', ex_tag ''t2''] ex_worker"

definition the_ret :: "'a outcome \<Rightarrow> 'a" where
  "the_ret x = (case x of Ret r \<Rightarrow> r)"

text \<open>A driver whose every call raises.\<close>

definition down_ops :: "unit driver_ops" where
  "down_ops = \<lparr>drv_connect = (\<lambda>d. (d, Raise (exn TransientCommunicationError ''down''))),
     drv_disconnect = (\<lambda>d. (d, Ret ())),
     drv_read = (\<lambda>_ d. (d, Raise (exn TransientCommunicationError ''down''))),
     drv_health_check = (\<lambda>d. (d, Ret False))\<rparr>"

definition ex_down_worker :: "unit worker" where
  "ex_down_worker = (case worker_new ex_connection [(''mock'', \<lambda>_. Inr ())] ex_policy ex_policy of Inr w \<Rightarrow> w)"

interpretation down: communication_driver down_ops "\<lambda>_. True"
  by unfold_locales (simp_all add: down_ops_def)

lemma ex_worker_inv: "worker_inv mock_inv ex_worker"
  by code_simp

lemma ex_inputs: "tag_group_ok ex_group" "\<forall>t \<in> set [ex_tag ''t1'', ex_tag ''t2'']. tag_ok t"
  by code_simp+

lemma ex_env_ops [simp]: "we_ops (ex_env ops clock) = ops" "we_clock (ex_env ops clock) = clock"
  by (simp_all add: ex_env_def)

section \<open>Polls\<close>

lemma finish_poll_state:
  assumes "finish_poll env eid g ts started rs w = (w', Ret r)"
  shows "cw_connection w' = cw_connection w" "cw_poll_attempts w' = cw_poll_attempts w"
    "cw_state w' = fst (state_of_poll (pe_status (wp_execution r)))" "cw_error_code w' = None"
    "cw_last_error w' = pe_error_message (wp_execution r)"
    "cw_poll_successes w' = cw_poll_successes w + of_bool (pe_status (wp_execution r) = PS_Success)"
    "cw_poll_failures w' = cw_poll_failures w + of_bool (pe_status (wp_execution r) \<noteq> PS_Success)"
    "cw_tag_successes w' = cw_tag_successes w + pe_successful_tags (wp_execution r)"
    "cw_tag_failures w' = cw_tag_failures w + pe_failed_tags (wp_execution r)"
  using assms by (auto simp: finish_poll_def worker_now_def record_poll_metrics_def split: sum.splits)

text \<open>The state in which a poll with a given status leaves the worker.\<close>

definition poll_recorded :: "'d worker \<Rightarrow> poll_execution \<Rightarrow> 'd worker \<Rightarrow> bool" where
  "poll_recorded w x w' \<longleftrightarrow>
     cw_poll_attempts w' = Suc (cw_poll_attempts w) \<and>
     cw_poll_successes w' = cw_poll_successes w + of_bool (pe_status x = PS_Success) \<and>
     cw_poll_failures w' = cw_poll_failures w + of_bool (pe_status x \<noteq> PS_Success) \<and>
     cw_tag_successes w' = cw_tag_successes w + pe_successful_tags x \<and>
     cw_tag_failures w' = cw_tag_failures w + pe_failed_tags x \<and>
     cw_state w' = (if pe_status x = PS_Success then WS_Running else WS_Degraded) \<and>
     cw_error_code w' = None \<and> cw_last_error w' = pe_error_message x"

lemma poll_group_accounts:
  assumes "communication_driver (we_ops env) D" "worker_inv D w"
    and "tag_group_ok g" "\<forall>t \<in> set ts. tag_ok t" "valid_wall (we_clock env (cw_clock_reads w))"
    and "poll_group env g ts w = (w', Ret r)"
  shows "poll_result_ok r \<and> map tr_tag_id (wp_results r) = map tc_id ts \<and>
    pe_connection_id (wp_execution r) = cc_id (cw_connection w) \<and>
    pe_tag_group_id (wp_execution r) = tg_id g \<and>
    pe_requested_tags (wp_execution r) = int (length ts) \<and>
    pe_successful_tags (wp_execution r) = count_successes (wp_results r) \<and>
    pe_failed_tags (wp_execution r) = count_failures (wp_results r) \<and>
    pe_successful_tags (wp_execution r) + pe_failed_tags (wp_execution r) = int (length ts) \<and>
    pe_status (wp_execution r) = poll_status_for (wp_results r) \<and>
    poll_recorded w (wp_execution r) w'"
proof -
  obtain w4 where fin: "finish_poll env (we_uuid env (cw_uuids w)) g ts
      (utc_dt (we_clock env (cw_clock_reads w))) (wp_results r) w4 = (w', Ret r)"
    and tags: "tags_match ts (wp_results r)" and inv4: "worker_inv D w4"
    and same: "cw_connection w4 = cw_connection w" "cw_poll_attempts w4 = Suc (cw_poll_attempts w)"
      "cw_poll_successes w4 = cw_poll_successes w" "cw_poll_failures w4 = cw_poll_failures w"
      "cw_tag_successes w4 = cw_tag_successes w" "cw_tag_failures w4 = cw_tag_failures w"
    by (rule communication_driver.poll_returns [OF assms(1,2) refl assms(3,4,6,5)])
  have ids: "stripped (cc_id (cw_connection w4))" "stripped (tg_id g)"
    using inv4 assms(3) by (simp_all add: worker_inv_def connection_ok_def tag_group_ok_def)
  note len = tags_match_length [OF tags]
  note x = finish_poll_Ret [OF fin ids _ len, simplified utc_dt_simps, OF assms(5)]
  have "poll_result_ok r" using x tags by (simp add: poll_result_ok_def tags_match_def)
  moreover have "poll_recorded w (wp_execution r) w'"
    using finish_poll_state [OF fin] same by (simp add: poll_recorded_def state_of_poll_def)
  moreover have "map tr_tag_id (wp_results r) = map tc_id ts" using tags by (simp add: tags_match_def)
  moreover have "count_successes (wp_results r) + count_failures (wp_results r) = int (length ts)"
    using count_split [of "wp_results r"] len by simp
  ultimately show ?thesis using x same by simp
qed

text \<open>
  C6: whatever the driver does within its contract, a poll that returns has one validated
  result per tag, in the order of the tags; its execution record counts them exactly, has
  the status the counts call for, and the worker's counters and state record that status.
\<close>

theorem poll_accounting:
  assumes "communication_driver (we_ops env) D" "worker_inv D w"
    and "tag_group_ok g" "\<forall>t \<in> set ts. tag_ok t" "valid_wall (we_clock env (cw_clock_reads w))"
    and "poll_group env g ts w = (w', Ret r)"
  shows "poll_result_ok r \<and> map tr_tag_id (wp_results r) = map tc_id ts \<and>
    pe_connection_id (wp_execution r) = cc_id (cw_connection w) \<and>
    pe_tag_group_id (wp_execution r) = tg_id g \<and>
    pe_requested_tags (wp_execution r) = int (length ts) \<and>
    pe_successful_tags (wp_execution r) = count_successes (wp_results r) \<and>
    pe_failed_tags (wp_execution r) = count_failures (wp_results r) \<and>
    pe_successful_tags (wp_execution r) + pe_failed_tags (wp_execution r) = int (length ts) \<and>
    pe_status (wp_execution r) = poll_status_for (wp_results r) \<and>
    poll_recorded w (wp_execution r) w'"
  by (rule poll_group_accounts [OF assms])

theorem poll_accounting_witness:
  "snd (ex_poll int) = Ret (the_ret (snd (ex_poll int))) \<and>
   pe_status (wp_execution (the_ret (snd (ex_poll int)))) = PS_Partial_Failure \<and>
   poll_recorded ex_worker (wp_execution (the_ret (snd (ex_poll int)))) (fst (ex_poll int))"
proof -
  have "ex_poll int = (fst (ex_poll int), Ret (the_ret (snd (ex_poll int))))" by code_simp
  then have "poll_group (ex_env (mock_ops ex_mock_env) int) ex_group [ex_tag ''t1'', ex_tag ''t2'']
      ex_worker = (fst (ex_poll int), Ret (the_ret (snd (ex_poll int))))" by (simp only: ex_poll_def)
  moreover have "valid_wall (int (cw_clock_reads ex_worker))" by code_simp
  moreover have "pe_status (wp_execution (the_ret (snd (ex_poll int)))) = PS_Partial_Failure"
    by code_simp
  moreover have "snd (ex_poll int) = Ret (the_ret (snd (ex_poll int)))" by code_simp
  ultimately show ?thesis
    using poll_accounting [where env = "ex_env (mock_ops ex_mock_env) int" and w = ex_worker
        and g = ex_group and ts = "[ex_tag ''t1'', ex_tag ''t2'']" and D = mock_inv]
      mock.communication_driver_axioms ex_worker_inv ex_inputs by simp
qed

text \<open>
  The surroundings in which a poll is expected to survive a failing driver: the driver
  may raise any error that says something, sleeps are not interrupted, the clock does not
  go backwards.
\<close>

definition speaking_errors :: "'d driver_ops \<Rightarrow> bool" where
  "speaking_errors ops \<longleftrightarrow> (\<forall>reqs d. case snd (drv_read ops reqs d) of
     Ret _ \<Rightarrow> True | Raise e \<Rightarrow> \<not> blank (error_code e) \<and> \<not> blank (error_text e) | Cancelled \<Rightarrow> False)"

definition calm_env :: "'d worker_env \<Rightarrow> bool" where
  "calm_env env \<longleftrightarrow> (\<forall>n. valid_wall (we_clock env n)) \<and> mono (we_clock env) \<and>
     (\<forall>n. py_strip (we_uuid env n) \<noteq> []) \<and> (\<forall>n d. we_sleep env n d = Ret ()) \<and>
     (\<forall>k n. 0 \<le> we_jitter env k n \<and> we_jitter env k n \<le> 1)"

lemma finish_poll_total:
  assumes "calm_env env" "stripped (cc_id (cw_connection w))" "stripped (tg_id g)"
    and "valid_wall t" "t \<le> we_clock env (cw_clock_reads w)" "length rs = length ts"
  shows "\<exists>w' r. finish_poll env (we_uuid env k) g ts (utc_dt t) rs w = (w', Ret r)"
proof -
  have "0 \<le> count_successes rs" "0 \<le> count_failures rs"
    by (simp_all add: count_successes_def count_failures_def)
  then have "\<exists>x. poll_execution_new (we_uuid env k) (cc_id (cw_connection w)) (tg_id g)
      (poll_status_for rs) (utc_dt t) (Some (utc_dt (we_clock env (cw_clock_reads w))))
      (AInt (int (length ts))) (AInt (count_successes rs)) (AInt (count_failures rs))
      (poll_error_message rs) = Inr x"
    using assms count_split [of rs] set_stripped_Inr [of _ "we_uuid env k"]
    by (simp add: poll_execution_new_def calm_env_def check_finished_def)
  then show ?thesis by (auto simp: finish_poll_def worker_now_def)
qed

text \<open>
  C24: a poll does not lose its tags to an error of the driver that says what it is. With valid inputs, a clock
  within the years 1 to 9999 that does not run backwards, sleeps that are not interrupted and a driver that
  keeps its contract, whose errors all have a code and a text that are not blank and whose reads are not cancelled,
  \<open>poll_group\<close> returns a result even when every read fails. (An error with a blank text makes
  the poll raise.)
\<close>

theorem poll_survives_driver:
  assumes "communication_driver (we_ops env) D" "worker_inv D w"
    and "tag_group_ok g" "\<forall>t \<in> set ts. tag_ok t" "calm_env env" "speaking_errors (we_ops env)"
    and "validate_poll_inputs g ts w = Inr ()"
  shows "\<exists>w' r. poll_group env g ts w = (w', Ret r)"
proof -
  have n: "0 < tg_timeout_ms g" using assms(3) by (simp add: tag_group_ok_def)
  note reqs = requests_of_config [OF assms(4) n]
  let ?reqs = "requests_of (tg_timeout_ms g) ts"
  let ?env = "poll_env env (cw_uuids w) ?reqs"
  obtain w3 x where run: "run_with_retry ?env (cw_poll_policy w) (poll_started env w) = (w3, x)"
    by fastforce
  note unfold = poll_group_unfold [OF assms(7) reqs(1) run]
  note loop = communication_driver.poll_loop_keeps [OF assms(1) poll_started_inv [OF assms(2)] refl run]
  obtain d u m where w3: "w3 = (poll_started env w)\<lparr>cw_driver := d, cw_poll_retry_attempts := u, cw_sleeps := m\<rparr>"
    by (rule poll_loop_update [OF run])
  have op: "snd (re_operation ?env s) = snd (drv_read (we_ops env) ?reqs (cw_driver s))" for s
    by (simp add: poll_env_def driver_call_eq)
  have sl: "snd (re_sleep ?env d s) = Ret ()" for d s
    using assms(5) by (simp add: poll_env_def retry_sleep_def calm_env_def)
  have speaks: "case snd (re_operation ?env s) of Ret _ \<Rightarrow> True
      | Raise e \<Rightarrow> \<not> blank (error_code e) \<and> \<not> blank (error_text e) | Cancelled \<Rightarrow> False" for s
    unfolding op using assms(6) by (auto simp: speaking_errors_def)
  have mono: "we_clock env (cw_clock_reads w) \<le> we_clock env m" if "cw_clock_reads w \<le> m" for m
    using assms(5) that by (auto simp: calm_env_def mono_def)
  have walls: "valid_wall (we_clock env m)" for m using assms(5) by (simp add: calm_env_def)
  have ids: "stripped (cc_id (cw_connection w))" "stripped (tg_id g)"
    using assms(2,3) by (simp_all add: worker_inv_def connection_ok_def tag_group_ok_def)
  show ?thesis
  proof (cases x)
    case (Ret y)
    obtain rs out where y: "y = (rs, out)" by (cases y)
    have "length rs = length ts"
      using communication_driver.poll_loop_results [OF assms(1) _ refl reqs(2) run [unfolded Ret y]]
        assms(2) results_match_length reqs(4) by (fastforce simp: worker_inv_def)
    then show ?thesis
      using unfold Ret y finish_poll_total [OF assms(5), of w3 g "we_clock env (cw_clock_reads w)" rs ts]
        loop(5) ids walls mono w3 by simp
  next
    case Cancelled
    have "snd (retry_loop ?env (cw_poll_policy w) 0 0 (poll_started env w)) \<noteq> Cancelled"
    proof (rule retry_loop_not_Cancelled)
      show "snd (re_operation ?env s) \<noteq> Cancelled" for s using speaks [of s] by auto
      show "snd (re_sleep ?env d s) \<noteq> Cancelled" for d s using sl by simp
    qed
    then show ?thesis using run Cancelled by (simp add: run_with_retry_def)
  next
    case (Raise e)
    let ?w = "record_failure env e WS_Degraded w3"
    have "\<exists>t t'. re_operation ?env t = (t', Raise e)"
    proof (rule retry_loop_Raise)
      show "retry_loop ?env (cw_poll_policy w) 0 0 (poll_started env w) = (w3, Raise e)"
        using run Raise by (simp add: run_with_retry_def)
      show "int 0 < rp_max_attempts (cw_poll_policy w)" using worker_inv_policies [OF assms(2)] by simp
      show "0 \<le> re_random ?env k \<and> re_random ?env k \<le> 1" for k
        using assms(5) by (simp add: poll_env_def calm_env_def)
      show "re_sleep ?env d t \<noteq> (t', Raise e')" for d t t' e'
        using sl [of d t] by auto
    qed
    then obtain t t' where "re_operation ?env t = (t', Raise e)" by blast
    then have e: "\<not> blank (error_code e)" "\<not> blank (error_text e)"
      using speaks [of t] by simp_all
    obtain w4 rs where fr: "failure_results env e ts ?w = (w4, Inr rs)"
      using failure_results_total [OF e walls assms(4)] by blast
    obtain m where w4: "cw_clock_reads ?w \<le> m" "w4 = ?w\<lparr>cw_clock_reads := m\<rparr>"
      using failure_results_frame [OF fr] by blast
    have "length rs = length ts"
      using failure_results_match [OF fr assms(4)] tags_match_length by blast
    then show ?thesis
      using unfold Raise fr w4 w3 ids walls mono
        finish_poll_total [OF assms(5), of w4 g "we_clock env (cw_clock_reads w)" rs ts] by simp
  qed
qed

definition ex_wall :: "nat \<Rightarrow> int" where
  "ex_wall n = 1000"

theorem poll_survives_driver_witness:
  "\<exists>w' r. poll_group (ex_env down_ops ex_wall) ex_group [ex_tag ''t1'', ex_tag ''t2''] ex_down_worker
     = (w', Ret r)"
proof (rule poll_survives_driver)
  show "communication_driver (we_ops (ex_env down_ops ex_wall)) (\<lambda>_. True)"
    using down.communication_driver_axioms by simp
  show "worker_inv (\<lambda>_. True) ex_down_worker" by code_simp
  show "tag_group_ok ex_group" "\<forall>t \<in> set [ex_tag ''t1'', ex_tag ''t2'']. tag_ok t" by (rule ex_inputs)+
  have "valid_wall 1000" by code_simp
  moreover have "\<not> is_space (CHR ''u'')" by code_simp
  then have "py_strip (''u'' @ s) \<noteq> []" for s by (simp add: py_strip_eq_Nil)
  ultimately show "calm_env (ex_env down_ops ex_wall)"
    by (simp add: calm_env_def ex_env_def ex_wall_def mono_def)
  have "\<not> blank (error_code (exn TransientCommunicationError ''down''))"
    "\<not> blank (error_text (exn TransientCommunicationError ''down''))" by code_simp+
  then show "speaking_errors (we_ops (ex_env down_ops ex_wall))"
    by (simp add: speaking_errors_def down_ops_def)
  show "validate_poll_inputs ex_group [ex_tag ''t1'', ex_tag ''t2''] ex_down_worker = Inr ()"
    by code_simp
qed

section \<open>Wall-clock steps\<close>

text \<open>
  C39: a poll whose first read succeeds is lost when the wall clock steps back while it
  runs: \<open>poll_group\<close> raises, and neither a success nor a failure is counted.
\<close>

theorem poll_lost_on_clock_step:
  assumes "worker_inv D w" "tag_group_ok g" "\<forall>t \<in> set ts. tag_ok t"
    and "validate_poll_inputs g ts w = Inr ()" "py_strip (we_uuid env (cw_uuids w)) \<noteq> []"
    and "drv_read (we_ops env) (requests_of (tg_timeout_ms g) ts) (cw_driver w) = (d, Ret rs)"
    and "valid_wall (we_clock env (cw_clock_reads w))" "valid_wall (we_clock env (Suc (cw_clock_reads w)))"
    and "we_clock env (Suc (cw_clock_reads w)) < we_clock env (cw_clock_reads w)"
  shows "\<exists>w'. poll_group env g ts w =
      (w', Raise (exn ConfigurationError ''finished_at cannot be before started_at.'')) \<and>
    cw_poll_attempts w' = Suc (cw_poll_attempts w) \<and>
    cw_poll_successes w' = cw_poll_successes w \<and> cw_poll_failures w' = cw_poll_failures w"
proof -
  have n: "0 < tg_timeout_ms g" using assms(2) by (simp add: tag_group_ok_def)
  note reqs = requests_of_config [OF assms(3) n]
  let ?reqs = "requests_of (tg_timeout_ms g) ts"
  let ?w3 = "(poll_started env w)\<lparr>cw_driver := d\<rparr>"
  have "re_operation (poll_env env (cw_uuids w) ?reqs) (poll_started env w) = (?w3, Ret rs)"
    using assms(6) by (simp add: poll_env_def driver_call_eq)
  then have run: "run_with_retry (poll_env env (cw_uuids w) ?reqs) (cw_poll_policy w)
      (poll_started env w) = (?w3, Ret (rs, success_outcome 1 0))"
    using worker_inv_policies [OF assms(1)] by (simp add: run_with_retry_def retry_loop_Ret_first)
  have ids: "stripped (cc_id (cw_connection w))" "stripped (tg_id g)"
    using assms(1,2) by (simp_all add: worker_inv_def connection_ok_def tag_group_ok_def)
  have "poll_execution_new (we_uuid env (cw_uuids w)) (cc_id (cw_connection w)) (tg_id g)
      (poll_status_for rs) (utc_dt (we_clock env (cw_clock_reads w)))
      (Some (utc_dt (we_clock env (Suc (cw_clock_reads w))))) q a b m =
      Inl (exn ConfigurationError ''finished_at cannot be before started_at.'')" for q a b m
    using ids assms(5,7-9)
    by (simp add: poll_execution_new_def check_finished_def config_error_def set_stripped_def
        [where v = "we_uuid env (cw_uuids w)"])
  then show ?thesis
    using poll_group_unfold [OF assms(4) reqs(1) run] by (simp add: finish_poll_def worker_now_def)
qed

theorem poll_lost_on_clock_step_witness:
  "snd (ex_poll (\<lambda>n. 100 - int n)) =
     Raise (exn ConfigurationError ''finished_at cannot be before started_at.'')"
proof -
  let ?env = "ex_env (mock_ops ex_mock_env) (\<lambda>n. 100 - int n)"
  let ?ts = "[ex_tag ''t1'', ex_tag ''t2'']"
  have "drv_read (we_ops ?env) (requests_of (tg_timeout_ms ex_group) ?ts) (cw_driver ex_worker) =
      (fst (mock_read ex_mock_env (requests_of (tg_timeout_ms ex_group) ?ts) (cw_driver ex_worker)),
       Ret (the_ret (snd (mock_read ex_mock_env (requests_of (tg_timeout_ms ex_group) ?ts) (cw_driver ex_worker)))))"
    unfolding ex_env_ops mock_ops_def driver_ops.simps by code_simp
  moreover have "valid_wall (we_clock ?env (cw_clock_reads ex_worker))" by code_simp
  moreover have "valid_wall (we_clock ?env (Suc (cw_clock_reads ex_worker)))" by code_simp
  moreover have "validate_poll_inputs ex_group ?ts ex_worker = Inr ()" by code_simp
  moreover have "py_strip (we_uuid ?env (cw_uuids ex_worker)) \<noteq> []" by code_simp
  ultimately obtain w' where "poll_group ?env ex_group ?ts ex_worker =
      (w', Raise (exn ConfigurationError ''finished_at cannot be before started_at.''))"
    using poll_lost_on_clock_step [OF ex_worker_inv ex_inputs] by force
  then show ?thesis by (simp add: ex_poll_def)
qed

section \<open>Connecting\<close>

text \<open>
  C30: a connect that returns leaves a running worker without an error, made one attempt
  more than it recorded retries, and counted one success; one that raises leaves a failed
  worker showing the code of the error, and counted one failure.
\<close>

theorem connect_outcome:
  assumes "worker_inv D w"
  shows "case worker_connect env w of
      (w', Ret _) \<Rightarrow> cw_state w' = WS_Running \<and> cw_error_code w' = None \<and>
        cw_connect_successes w' = Suc (cw_connect_successes w) \<and>
        cw_connect_failures w' = cw_connect_failures w \<and>
        cw_connect_attempts w' + cw_connect_retry_attempts w =
          Suc (cw_connect_attempts w + cw_connect_retry_attempts w') \<and>
        int (cw_connect_attempts w') \<le> int (cw_connect_attempts w) + rp_max_attempts (cw_connect_policy w)
    | (w', Raise e) \<Rightarrow> cw_state w' = WS_Failed \<and> cw_error_code w' = Some (error_code e) \<and>
        cw_connect_successes w' = cw_connect_successes w \<and>
        cw_connect_failures w' = Suc (cw_connect_failures w) \<and>
        int (cw_connect_attempts w') \<le> int (cw_connect_attempts w) + rp_max_attempts (cw_connect_policy w)
    | (w', Cancelled) \<Rightarrow> cw_connect_successes w' = cw_connect_successes w \<and>
        cw_connect_failures w' = cw_connect_failures w"
proof -
  define w1 where "w1 = set_state env WS_Starting (Some ''Connecting.'') None None
    ((draw_uuid w)\<lparr>cw_last_reconnect_correlation_id := Some (we_uuid env (cw_uuids w))\<rparr>)"
  obtain w2 x where run: "run_with_retry (connect_env env (cw_uuids w)) (cw_connect_policy w1) w1
      = (w2, x)" by fastforce
  have same1: "cw_connect_policy w1 = cw_connect_policy w" "cw_connect_attempts w1 = cw_connect_attempts w"
    "cw_connect_retry_attempts w1 = cw_connect_retry_attempts w"
    "cw_connect_successes w1 = cw_connect_successes w" "cw_connect_failures w1 = cw_connect_failures w"
    by (simp_all add: w1_def draw_uuid_def)
  have pos: "0 < rp_max_attempts (cw_connect_policy w1)" using worker_inv_policies [OF assms] same1 by simp
  obtain d a t n where w2: "w2 = w1\<lparr>cw_driver := d, cw_connect_attempts := a,
      cw_connect_retry_attempts := t, cw_sleeps := n\<rparr>"
    by (rule connect_loop_update [OF run])
  note most = connect_count.run_attempts(2) [OF run pos]
  have unfold: "worker_connect env w = (case x of
      Ret _ \<Rightarrow> (set_state env WS_Running (Some ''Connected.'') None None
        (w2\<lparr>cw_connect_successes := Suc (cw_connect_successes w2)\<rparr>), Ret ())
    | Raise e \<Rightarrow> (record_failure env e WS_Failed
        (w2\<lparr>cw_connect_failures := Suc (cw_connect_failures w2)\<rparr>), Raise e)
    | Cancelled \<Rightarrow> cancelled_cleanup env w2)"
    using run by (simp add: worker_connect_def Let_def w1_def [symmetric] split: outcome.split
        del: set_state_eq record_failure_eq)
  show ?thesis
  proof (cases x)
    case (Ret y)
    obtain u out where y: "y = (u, out)" by (cases y)
    note run' = run [unfolded Ret y]
    have "ro_attempts out = Suc (ro_retries out)"
      using retry_loop_outcome [OF run' [unfolded run_with_retry_def]] by simp
    then have "a + cw_connect_retry_attempts w = Suc (cw_connect_attempts w + t)"
      using connect_count.run_attempts(3) [OF run' pos refl] connect_count.run_retries(3) [OF run' pos refl]
        same1 w2 by simp
    then show ?thesis using unfold Ret w2 same1 most by simp
  next
    case (Raise e)
    then show ?thesis using unfold w2 same1 most by simp
  next
    case Cancelled
    have "cw_connect_successes (fst (disconnect_after_cancellation env w2)) = cw_connect_successes w2 \<and>
      cw_connect_failures (fst (disconnect_after_cancellation env w2)) = cw_connect_failures w2"
      by (simp add: disconnect_after_cancellation_def driver_call_eq Let_def split: outcome.split)
    then show ?thesis using Cancelled unfold w2 same1 by (simp add: cancelled_cleanup_def)
  qed
qed

theorem connect_outcome_witness:
  "(case worker_connect (ex_env down_ops int) ex_down_worker of (w', Raise e) \<Rightarrow>
     cw_state w' = WS_Failed \<and> cw_connect_failures w' = 1 \<and> cw_connect_attempts w' \<le> 2)"
proof -
  have "worker_inv (\<lambda>_. True) ex_down_worker" by code_simp
  note c = connect_outcome [OF this, of "ex_env down_ops int"]
  have "snd (worker_connect (ex_env down_ops int) ex_down_worker)
      = Raise (exn TransientCommunicationError ''down'')" by code_simp
  moreover have "cw_connect_failures ex_down_worker = 0" "cw_connect_attempts ex_down_worker = 0"
    "rp_max_attempts (cw_connect_policy ex_down_worker) = 2" by code_simp+
  ultimately show ?thesis using c by (cases "worker_connect (ex_env down_ops int) ex_down_worker") simp
qed

section \<open>Cancellation\<close>

text \<open>The driver has been told to disconnect, and the worker shows how that went.\<close>

definition left_disconnected :: "'d worker_env \<Rightarrow> 'd worker \<Rightarrow> bool" where
  "left_disconnected env w \<longleftrightarrow> (\<exists>d. cw_driver w = fst (drv_disconnect (we_ops env) d) \<and>
     cw_state w = (case snd (drv_disconnect (we_ops env) d) of
       Ret _ \<Rightarrow> WS_Stopped | Raise _ \<Rightarrow> WS_Failed | Cancelled \<Rightarrow> WS_Stopping))"

lemma cleanup_disconnects: "left_disconnected env (fst (disconnect_after_cancellation env w))"
  unfolding left_disconnected_def
  by (rule exI [of _ "cw_driver w"])
    (simp add: disconnect_after_cancellation_def driver_call_eq Let_def split: outcome.split)

lemma cancelled_cleanup_disconnects:
  "cancelled_cleanup env w = (w', x) \<Longrightarrow> left_disconnected env w' \<and> x = Cancelled"
  using cleanup_disconnects by (auto simp: cancelled_cleanup_def)

lemma finish_poll_not_Cancelled: "finish_poll env eid g ts started rs w \<noteq> (w', Cancelled)"
  by (auto simp: finish_poll_def worker_now_def split: sum.splits)

lemma poll_cancelled:
  assumes "poll_group env g ts w = (w', Cancelled)"
  shows "left_disconnected env w'"
proof -
  have valid: "validate_poll_inputs g ts w = Inr ()"
    using assms by (cases "validate_poll_inputs g ts w") (auto simp: poll_group_def)
  obtain reqs where reqs: "rmap (tag_request_from_config (tg_timeout_ms g)) ts = Inr reqs"
    using assms poll_group_bad_request [OF valid]
    by (cases "rmap (tag_request_from_config (tg_timeout_ms g)) ts") auto
  obtain w3 x where run: "run_with_retry (poll_env env (cw_uuids w) reqs) (cw_poll_policy w)
      (poll_started env w) = (w3, x)" by fastforce
  show ?thesis
    using assms unfolding poll_group_unfold [OF valid reqs run]
    by (cases x) (auto simp: finish_poll_not_Cancelled simp del: record_failure_eq
        dest: cancelled_cleanup_disconnects split: prod.splits sum.splits)
qed

text \<open>
  C31: an operation that ends in a cancellation has told the driver to disconnect before it
  passes the cancellation on, and leaves the worker stopped, failed or stopping as the
  driver answered.
\<close>

theorem cancellation_disconnects:
  "(snd (worker_connect env w) = Cancelled \<longrightarrow> left_disconnected env (fst (worker_connect env w))) \<and>
   (snd (worker_disconnect env w) = Cancelled \<longrightarrow> left_disconnected env (fst (worker_disconnect env w))) \<and>
   (snd (poll_group env g ts w) = Cancelled \<longrightarrow> left_disconnected env (fst (poll_group env g ts w))) \<and>
   (snd (health_check env w) = Cancelled \<longrightarrow> left_disconnected env (fst (health_check env w)))"
proof (intro conjI impI)
  show "left_disconnected env (fst (worker_connect env w))" if "snd (worker_connect env w) = Cancelled"
    using that cleanup_disconnects
    by (auto simp: worker_connect_def cancelled_cleanup_def Let_def split: prod.splits outcome.splits)
  show "left_disconnected env (fst (worker_disconnect env w))" if "snd (worker_disconnect env w) = Cancelled"
    using that cleanup_disconnects
    by (auto simp: worker_disconnect_def cancelled_cleanup_def Let_def split: prod.splits outcome.splits)
  show "left_disconnected env (fst (poll_group env g ts w))" if "snd (poll_group env g ts w) = Cancelled"
    using poll_cancelled that by (metis prod.collapse)
  show "left_disconnected env (fst (health_check env w))" if "snd (health_check env w) = Cancelled"
    using that cleanup_disconnects
    by (auto simp: health_check_def cancelled_cleanup_def Let_def split: prod.splits outcome.splits)
qed

text \<open>The same worker, connected to a driver with a delay in which the read is cancelled.\<close>

definition ex_slow_worker :: "mock_driver worker" where
  "ex_slow_worker = ex_worker\<lparr>cw_driver := (cw_driver ex_worker)\<lparr>md_config :=
     (md_config (cw_driver ex_worker))\<lparr>mc_delay_ms := 10\<rparr>\<rparr>\<rparr>"

definition ex_cancelled_poll :: "mock_driver worker \<times> worker_poll_result outcome" where
  "ex_cancelled_poll = poll_group (ex_env (mock_ops (ex_mock_env\<lparr>me_sleep := (\<lambda>_. Cancelled)\<rparr>)) int)
     ex_group [ex_tag ''t1''] ex_slow_worker"

theorem cancellation_disconnects_witness:
  "snd ex_cancelled_poll = Cancelled \<and> md_connected (cw_driver ex_slow_worker) \<and>
   \<not> md_connected (cw_driver (fst ex_cancelled_poll)) \<and> cw_state (fst ex_cancelled_poll) = WS_Stopped"
proof -
  let ?env = "ex_env (mock_ops (ex_mock_env\<lparr>me_sleep := (\<lambda>_. Cancelled)\<rparr>)) int"
  have c: "snd ex_cancelled_poll = Cancelled" and m: "md_connected (cw_driver ex_slow_worker)"
    by code_simp+
  have "left_disconnected ?env (fst ex_cancelled_poll)"
    using c unfolding ex_cancelled_poll_def by (metis cancellation_disconnects)
  then show ?thesis using c m by (simp add: left_disconnected_def mock_ops_def mock_disconnect_def) auto
qed

section \<open>Sequences of operations\<close>

datatype worker_op =
    W_Connect
  | W_Disconnect
  | W_Poll tag_group_config "tag_config list"
  | W_Health
  | W_Heartbeat

fun worker_step :: "'d worker_env \<Rightarrow> worker_op \<Rightarrow> 'd worker \<Rightarrow> 'd worker" where
  "worker_step env W_Connect w = fst (worker_connect env w)"
| "worker_step env W_Disconnect w = fst (worker_disconnect env w)"
| "worker_step env (W_Poll g ts) w = fst (poll_group env g ts w)"
| "worker_step env W_Health w = fst (health_check env w)"
| "worker_step env W_Heartbeat w = fst (heartbeat env w)"

text \<open>
  C32: after any sequence of operations on a new worker, with any outcomes, its counters are
  consistent (no more results than attempts, no more retries than attempts), a failed
  worker shows an error code, and only a failed or degraded one does.
\<close>

theorem worker_run_inv:
  assumes "communication_driver (we_ops env) D"
    and "worker_new c reg p q = Inr w" "connection_ok c" "policy_ok p" "policy_ok q"
    and "\<And>d. create_driver reg c = Inr d \<Longrightarrow> D d"
  shows "worker_inv D (fold (worker_step env) os w)"
proof -
  have step: "worker_inv D (worker_step env oper v)" if v: "worker_inv D v" for oper v
    using communication_driver.connect_keeps [OF assms(1) v refl]
      communication_driver.disconnect_keeps [OF assms(1) v refl]
      communication_driver.poll_keeps [OF assms(1) v refl]
      communication_driver.health_keeps [OF assms(1) v refl]
      communication_driver.heartbeat_keeps [OF assms(1) v]
    by (cases oper) simp_all
  have "worker_inv D (fold (worker_step env) os v)" if "worker_inv D v" for v
    using that by (induction os arbitrary: v) (simp_all add: step)
  moreover have "worker_inv D w" by (rule worker_new_inv [OF assms(2-5)]) (rule assms(6))
  ultimately show ?thesis by blast
qed

theorem worker_run_inv_witness:
  "worker_inv mock_inv (fold (worker_step (ex_env (mock_ops ex_mock_env) int))
     [W_Connect, W_Poll ex_group [ex_tag ''t2''], W_Health, W_Disconnect]
     (case worker_new ex_connection [(''mock'', mock_driver_new)] ex_policy ex_policy of Inr w \<Rightarrow> w))"
proof -
  have new: "worker_new ex_connection [(''mock'', mock_driver_new)] ex_policy ex_policy = Inr
      (case worker_new ex_connection [(''mock'', mock_driver_new)] ex_policy ex_policy of Inr w \<Rightarrow> w)"
    by code_simp
  have conn: "connection_ok ex_connection" "policy_ok ex_policy" by code_simp+
  have "create_driver [(''mock'', mock_driver_new)] ex_connection = mock_driver_new ex_connection"
    by (rule create_driver_eq) (code_simp, simp add: ex_connection_def, code_simp)
  then have d: "create_driver [(''mock'', mock_driver_new)] ex_connection = Inr d \<Longrightarrow> mock_inv d" for d
    using mock_driver_new_inv by simp
  have "communication_driver (we_ops (ex_env (mock_ops ex_mock_env) int)) mock_inv"
    using mock.communication_driver_axioms by simp
  from worker_run_inv [OF this new conn conn(2) d] show ?thesis .
qed

end
