(* ===== verification/Config.thy ===== *)
theory Config
  imports Repositories
begin

text \<open>
  src/plc_gateway/app/config.py: loading a configuration (JSON object, environment
  overrides, field validation, references, domain objects) and its representation for the
  logs with secrets masked. Field validation is pydantic's and a parameter: it gives the
  model objects or its list of errors; what the declared fields promise of the objects is
  \<open>fields_ok\<close>. Reading and parsing the file is the parameter \<open>cf_read\<close>.

  Shown: a loaded configuration is valid and its references resolve, overrides touch only
  what they name, what is logged does not depend on the secrets, and a loaded configuration
  can be stored.
\<close>

section \<open>Text\<close>

definition show_int :: "int \<Rightarrow> string" where
  "show_int z = (if z < 0 then ''-'' @ show_nat (nat (- z)) else show_nat (nat z))"

text \<open>
  \<^verbatim>\<open>str.upper\<close> as code points, since two Latin-1 letters have their capital outside Latin-1
  and the sharp s becomes two letters.
\<close>

definition upper_char :: "char \<Rightarrow> nat list" where
  "upper_char c =
     (let n = code_point c
      in if n = 223 then [83, 83] else if n = 255 then [376] else if n = 181 then [924]
         else if (97 \<le> n \<and> n \<le> 122) \<or> (224 \<le> n \<and> n \<le> 254 \<and> n \<noteq> 247) then [n - 32] else [n])"

definition py_upper :: "string \<Rightarrow> nat list" where
  "py_upper s = concat (map upper_char s)"

text \<open>\<^verbatim>\<open>s.split("__")\<close>\<close>

fun split_dunder :: "string \<Rightarrow> string list" where
  "split_dunder [] = [[]]"
| "split_dunder (c # s) =
     (if c = CHR ''_'' \<and> s \<noteq> [] \<and> hd s = CHR ''_'' then [] # split_dunder (tl s)
      else case split_dunder s of [] \<Rightarrow> [[c]] | p # ps \<Rightarrow> (c # p) # ps)"

definition has_prefix :: "string \<Rightarrow> string \<Rightarrow> bool" where
  "has_prefix p s \<longleftrightarrow> take (length p) s = p"

text \<open>
  \<^verbatim>\<open>int(text)\<close>: surrounding white space, a sign, digits with single underscores between
  them, at most 4300 digits.
\<close>

fun digits_grouped :: "string \<Rightarrow> bool" where
  "digits_grouped [] = False"
| "digits_grouped [c] = is_digit c"
| "digits_grouped (c # d # s) =
     (is_digit c \<and> (if d = CHR ''_'' then digits_grouped s else digits_grouped (d # s)))"

definition read_digits :: "string \<Rightarrow> nat option" where
  "read_digits s =
     (let ds = filter is_digit s
      in if digits_grouped s \<and> length ds \<le> 4300 then Some (read_nat ds) else None)"

definition py_int :: "string \<Rightarrow> int option" where
  "py_int s =
     (case py_strip s of
        [] \<Rightarrow> None
      | c # t \<Rightarrow>
          (if c = CHR ''-'' then map_option (\<lambda>n. - int n) (read_digits t)
           else if c = CHR ''+'' then map_option int (read_digits t)
           else map_option int (read_digits (c # t))))"

definition config_failure :: "string \<Rightarrow> string \<Rightarrow> (string \<times> pyval) list \<Rightarrow> 'a result" where
  "config_failure m code ds = Inl (exn_coded ConfigurationError m code ds)"

section \<open>The configuration and its input models\<close>

record gateway_config =
  gc_connections :: "connection_config list"
  gc_tag_groups :: "tag_group_config list"
  gc_tags :: "tag_config list"

record connection_model =
  cm_id :: string
  cm_protocol :: string
  cm_endpoint :: string
  cm_enabled :: bool
  cm_timeout_ms :: int
  cm_protocol_options :: pydict

record tag_group_model =
  gm_id :: string
  gm_connection_id :: string
  gm_interval_ms :: int
  gm_timeout_ms :: int
  gm_overlap_policy :: overlap_policy
  gm_enabled :: bool

record tag_model =
  tm_id :: string
  tm_tag_group_id :: string
  tm_name :: string
  tm_address :: string
  tm_value_type :: value_type
  tm_enabled :: bool
  tm_metadata :: pydict

record gateway_model =
  wm_connections :: "connection_model list"
  wm_tag_groups :: "tag_group_model list"
  wm_tags :: "tag_model list"

definition reference_error :: "string \<Rightarrow> string \<Rightarrow> 'a result" where
  "reference_error location message =
     config_failure (''Invalid configuration at '' @ location @ '': '' @ message @ ''.'')
       ''invalid_configuration_reference'' [(''location'', PStr location)]"

definition indexed :: "string \<Rightarrow> nat \<Rightarrow> string \<Rightarrow> string" where
  "indexed section_name i field = section_name @ ''['' @ show_nat i @ ''].'' @ field"

fun unique_ids_from :: "string \<Rightarrow> nat \<Rightarrow> string set \<Rightarrow> string list \<Rightarrow> string set result" where
  "unique_ids_from section_name i seen [] = Inr seen"
| "unique_ids_from section_name i seen (x # xs) =
     (if x \<in> seen
      then reference_error (indexed section_name i ''id'') (''duplicate id '' @ quoted x)
      else unique_ids_from section_name (Suc i) (insert x seen) xs)"

definition unique_ids :: "string \<Rightarrow> string list \<Rightarrow> string set result" where
  "unique_ids section_name ids = unique_ids_from section_name 0 {} ids"

fun check_references ::
  "(nat \<Rightarrow> string) \<Rightarrow> string \<Rightarrow> string set \<Rightarrow> nat \<Rightarrow> string list \<Rightarrow> unit result" where
  "check_references location what known_ids i [] = Inr ()"
| "check_references location what known_ids i (x # xs) =
     (if x \<notin> known_ids
      then reference_error (location i) (''references unknown '' @ what @ '' '' @ quoted x)
      else check_references location what known_ids (Suc i) xs)"

definition validate_references :: "gateway_model \<Rightarrow> gateway_model result" where
  "validate_references m =
     rbind (unique_ids ''connections'' (map cm_id (wm_connections m))) (\<lambda>connection_ids.
     rbind (unique_ids ''tag_groups'' (map gm_id (wm_tag_groups m))) (\<lambda>group_ids.
     rbind (unique_ids ''tags'' (map tm_id (wm_tags m))) (\<lambda>_.
     rbind (check_references (\<lambda>i. indexed ''tag_groups'' i ''connection_id'') ''connection'' connection_ids 0
              (map gm_connection_id (wm_tag_groups m))) (\<lambda>_.
     rbind (check_references (\<lambda>i. indexed ''tags'' i ''tag_group_id'') ''tag group'' group_ids 0
              (map tm_tag_group_id (wm_tags m))) (\<lambda>_.
       Inr m)))))"

definition connection_to_domain :: "connection_model \<Rightarrow> connection_config result" where
  "connection_to_domain c = connection_config_new (cm_id c) (cm_protocol c) (cm_endpoint c)
     (cm_enabled c) (AInt (cm_timeout_ms c)) (cm_protocol_options c)"

definition tag_group_to_domain :: "tag_group_model \<Rightarrow> tag_group_config result" where
  "tag_group_to_domain g = tag_group_config_new (gm_id g) (gm_connection_id g)
     (AInt (gm_interval_ms g)) (AInt (gm_timeout_ms g)) (gm_overlap_policy g) (gm_enabled g)"

definition tag_to_domain :: "tag_model \<Rightarrow> tag_config result" where
  "tag_to_domain t = tag_config_new (tm_id t) (tm_tag_group_id t) (tm_name t) (tm_address t)
     (tm_value_type t) (tm_enabled t) (tm_metadata t)"

definition to_domain :: "gateway_model \<Rightarrow> gateway_config result" where
  "to_domain m =
     (case rbind (rmap connection_to_domain (wm_connections m)) (\<lambda>cs.
           rbind (rmap tag_group_to_domain (wm_tag_groups m)) (\<lambda>gs.
           rbind (rmap tag_to_domain (wm_tags m)) (\<lambda>ts.
             Inr \<lparr>gc_connections = cs, gc_tag_groups = gs, gc_tags = ts\<rparr>))) of
        Inr c \<Rightarrow> Inr c
      | Inl e \<Rightarrow>
          if exn_class e = ConfigurationError
          then config_failure (''Invalid configuration: '' @ exn_message e) ''invalid_configuration'' (exn_details e)
          else Inl e)"

section \<open>Reading the file\<close>

text \<open>What \<^verbatim>\<open>json.loads(path.read_text(...))\<close> does; the path is \<^verbatim>\<open>str(path)\<close>.\<close>

datatype json_read =
    JR_Loaded pyval
  | JR_Not_Found
  | JR_Invalid nat nat string
  | JR_Error pyexn

text \<open>\<^verbatim>\<open>path.suffix\<close>: from the last dot of the last component, unless it is its first or last character.\<close>

definition path_name :: "string \<Rightarrow> string" where
  "path_name p = rev (takeWhile (\<lambda>c. c \<noteq> CHR ''/'') (rev p))"

definition path_suffix :: "string \<Rightarrow> string" where
  "path_suffix p =
     (let name = path_name p;
          ext = rev (takeWhile (\<lambda>c. c \<noteq> CHR ''.'') (rev name))
      in if ext = [] \<or> length name \<le> Suc (length ext) then [] else CHR ''.'' # ext)"

definition read_json_object :: "(string \<Rightarrow> json_read) \<Rightarrow> string \<Rightarrow> pydict result" where
  "read_json_object read path =
     (if py_lower (path_suffix path) \<noteq> ''.json''
      then config_failure (''Unsupported configuration format at '' @ path @ '': expected .json.'')
             ''unsupported_configuration_format'' [(''path'', PStr path)]
      else case read path of
          JR_Not_Found \<Rightarrow>
            config_failure (''Configuration file not found at '' @ path @ ''.'') ''configuration_not_found''
              [(''path'', PStr path)]
        | JR_Invalid line col m \<Rightarrow>
            config_failure (''Invalid JSON at line '' @ show_nat line @ '', column '' @ show_nat col @ '': '' @ m @ ''.'')
              ''invalid_configuration_json''
              [(''path'', PStr path), (''line'', PInt (int line)), (''column'', PInt (int col))]
        | JR_Error e \<Rightarrow> Inl e
        | JR_Loaded (PDict d) \<Rightarrow> Inr d
        | JR_Loaded _ \<Rightarrow>
            config_failure (''Configuration root at '' @ path @ '' must be a JSON object.'')
              ''invalid_configuration_shape'' [(''path'', PStr path), (''location'', PStr ''$'')])"

section \<open>Environment overrides\<close>

definition coerce_override_value :: "string \<Rightarrow> string \<Rightarrow> pyval result" where
  "coerce_override_value field v =
     (if field = ''enabled'' then
        (let normalized = py_lower (py_strip v)
         in if normalized \<in> {''1'', ''true'', ''yes'', ''on''} then Inr (PBool True)
            else if normalized \<in> {''0'', ''false'', ''no'', ''off''} then Inr (PBool False)
            else config_failure (''Invalid boolean environment override for '' @ field @ '': '' @ quoted v @ ''.'')
                   ''invalid_environment_override'' [(''field'', PStr field)])
      else if field = ''timeout_ms'' then
        (case py_int v of
           Some n \<Rightarrow> Inr (PInt n)
         | None \<Rightarrow> config_failure (''Invalid integer environment override for '' @ field @ '': '' @ quoted v @ ''.'')
                     ''invalid_environment_override'' [(''field'', PStr field)])
      else Inr (PStr v))"

text \<open>\<^verbatim>\<open>str(value)\<close>; \<open>other\<close> is the text of values that are neither strings, integers nor booleans.\<close>

definition py_str :: "(pyval \<Rightarrow> string) \<Rightarrow> pyval \<Rightarrow> string" where
  "py_str other v =
     (case v of PStr s \<Rightarrow> s | PInt n \<Rightarrow> show_int n | PBool b \<Rightarrow> if b then ''True'' else ''False''
      | _ \<Rightarrow> other v)"

definition connection_key :: "(pyval \<Rightarrow> string) \<Rightarrow> pyval \<Rightarrow> nat list option" where
  "connection_key other connection =
     (case connection of
        PDict d \<Rightarrow> (case dict_get d ''id'' of
          None \<Rightarrow> None | Some PNone \<Rightarrow> None | Some i \<Rightarrow> Some (py_upper (py_str other i)))
      | _ \<Rightarrow> None)"

text \<open>\<^verbatim>\<open>by_id\<close>: the position of the last connection with the key.\<close>

fun find_connection :: "nat list option list \<Rightarrow> nat list \<Rightarrow> nat option" where
  "find_connection [] k = None"
| "find_connection (x # xs) k =
     (case find_connection xs k of Some i \<Rightarrow> Some (Suc i) | None \<Rightarrow> if x = Some k then Some 0 else None)"

definition set_field :: "string \<Rightarrow> pyval \<Rightarrow> pyval \<Rightarrow> pyval" where
  "set_field field v connection =
     (case connection of PDict d \<Rightarrow> PDict (AList.update (PStr field) v d) | _ \<Rightarrow> connection)"

definition env_prefix :: string where
  "env_prefix = ''PLC_GATEWAY_''"

definition override_error :: "string \<Rightarrow> string \<Rightarrow> (string \<times> pyval) list \<Rightarrow> 'a result" where
  "override_error key m ds = config_failure (''Invalid environment override '' @ quoted key @ '': '' @ m)
     ''invalid_environment_override'' ((''environment_variable'', PStr key) # ds)"

definition apply_override ::
  "nat list option list \<Rightarrow> string \<times> string \<Rightarrow> pyval list \<Rightarrow> pyval list result" where
  "apply_override keys p connections =
     (let key = fst p
      in if \<not> has_prefix (env_prefix @ ''CONNECTIONS__'') key then Inr connections
         else case split_dunder (drop (length env_prefix) key) of
             [_, connection_id, field_name] \<Rightarrow>
               (case find_connection keys (py_upper connection_id) of
                  None \<Rightarrow> override_error key (''unknown connection '' @ quoted connection_id @ ''.'')
                            [(''connection_id'', PStr connection_id)]
                | Some i \<Rightarrow>
                    (let field = py_lower field_name
                     in if field \<notin> {''endpoint'', ''enabled'', ''timeout_ms''}
                        then override_error key (''unsupported field '' @ quoted field_name @ ''.'')
                               [(''field'', PStr field_name)]
                        else rbind (coerce_override_value field (snd p)) (\<lambda>v.
                               Inr (connections[i := set_field field v (connections ! i)]))))
           | _ \<Rightarrow> override_error key ''expected PLC_GATEWAY_CONNECTIONS__<ID>__<FIELD>.'' [])"

definition apply_overrides ::
  "(pyval \<Rightarrow> string) \<Rightarrow> (string \<times> string) list \<Rightarrow> pydict \<Rightarrow> pydict result" where
  "apply_overrides other environ raw =
     (case dict_get raw ''connections'' of
        Some (PList connections) \<Rightarrow>
          rbind (statements (apply_override (map (connection_key other) connections)) environ connections)
            (\<lambda>connections'. Inr (AList.update (PStr ''connections'') (PList connections') raw))
      | _ \<Rightarrow> Inr raw)"

section \<open>Loading\<close>

text \<open>
  The errors of pydantic: the first with its location and message, and the list
  \<^verbatim>\<open>error.errors(include_url=False)\<close>.
\<close>

record validation_error =
  ve_location :: "string list"
  ve_message :: string
  ve_errors :: pyval

record config_env =
  cf_read :: "string \<Rightarrow> json_read"
  cf_str :: "pyval \<Rightarrow> string"
  cf_validate :: "pydict \<Rightarrow> validation_error + gateway_model"

definition format_validation_error :: "validation_error \<Rightarrow> string" where
  "format_validation_error e =
     ''Invalid configuration at '' @ str_or (str_join ''.'' (ve_location e)) ''$'' @ '': '' @ ve_message e @ ''.''"

definition model_validate :: "config_env \<Rightarrow> pydict \<Rightarrow> gateway_model result" where
  "model_validate env raw =
     (case cf_validate env raw of
        Inl e \<Rightarrow> config_failure (format_validation_error e) ''invalid_configuration'' [(''errors'', ve_errors e)]
      | Inr m \<Rightarrow> validate_references m)"

definition load_gateway_config ::
  "config_env \<Rightarrow> string \<Rightarrow> (string \<times> string) list \<Rightarrow> gateway_config result" where
  "load_gateway_config env path environ =
     rbind (read_json_object (cf_read env) path) (\<lambda>raw.
     rbind (apply_overrides (cf_str env) environ raw) (\<lambda>raw'.
     rbind (model_validate env raw') to_domain))"

section \<open>The representation for the logs\<close>

definition sensitive_key_fragments :: "string list" where
  "sensitive_key_fragments = [''password'', ''passwd'', ''secret'', ''token'', ''key'', ''credential'']"

fun contains :: "string \<Rightarrow> string \<Rightarrow> bool" where
  "contains sub [] = (sub = [])"
| "contains sub (c # s) = (has_prefix sub (c # s) \<or> contains sub s)"

definition is_sensitive_key :: "string \<Rightarrow> bool" where
  "is_sensitive_key key = list_ex (\<lambda>f. contains f (py_lower key)) sensitive_key_fragments"

text \<open>
  \<^verbatim>\<open>_mask_mapping\<close> and \<^verbatim>\<open>_mask_sequence_item\<close>, which treat values alike; a key that is not
  a string has no \<^verbatim>\<open>lower\<close>.
\<close>

definition no_lower :: "'a result" where
  "no_lower = Inl (exn (OtherError ''AttributeError'') ''object has no attribute lower'')"

fun mask_item :: "pyval \<Rightarrow> pyval result"
  and mask_items :: "pyval list \<Rightarrow> pyval list result"
  and mask_mapping :: "(pyval \<times> pyval) list \<Rightarrow> (pyval \<times> pyval) list result" where
  "mask_item (PDict d) = rbind (mask_mapping d) (\<lambda>d'. Inr (PDict d'))"
| "mask_item (PList xs) = rbind (mask_items xs) (\<lambda>ys. Inr (PList ys))"
| "mask_item v = Inr v"
| "mask_items [] = Inr []"
| "mask_items (x # xs) = rbind (mask_item x) (\<lambda>y. rbind (mask_items xs) (\<lambda>ys. Inr (y # ys)))"
| "mask_mapping [] = Inr []"
| "mask_mapping ((k, v) # rest) =
     (case k of
        PStr s \<Rightarrow>
          rbind (if is_sensitive_key s then Inr (PStr ''***'') else mask_item v) (\<lambda>v'.
          rbind (mask_mapping rest) (\<lambda>rest'. Inr ((k, v') # rest')))
      | _ \<Rightarrow> no_lower)"

text \<open>
  \<^verbatim>\<open>urllib.parse.urlsplit\<close>: leading control characters and spaces go, tabs and line breaks
  go everywhere; then scheme, network location, path, query and fragment. The checks of a
  host in brackets, which differ between versions of Python, are a parameter.
\<close>

record split_url =
  su_scheme :: string
  su_netloc :: string
  su_path :: string
  su_query :: string
  su_fragment :: string

definition url_clean :: "string \<Rightarrow> string" where
  "url_clean url = filter (\<lambda>c. code_point c \<notin> {9, 10, 13}) (dropWhile (\<lambda>c. code_point c \<le> 32) url)"

definition is_ascii_alpha :: "char \<Rightarrow> bool" where
  "is_ascii_alpha c =
     (let n = code_point c in (65 \<le> n \<and> n \<le> 90) \<or> (97 \<le> n \<and> n \<le> 122))"

definition scheme_char :: "char \<Rightarrow> bool" where
  "scheme_char c \<longleftrightarrow> is_ascii_alpha c \<or> is_digit c \<or> c \<in> {CHR ''+'', CHR ''-'', CHR ''.''}"

text \<open>The text before the first character of a kind, and the rest from it on.\<close>

definition cut :: "(char \<Rightarrow> bool) \<Rightarrow> string \<Rightarrow> string \<times> string" where
  "cut P s = (takeWhile (\<lambda>c. \<not> P c) s, dropWhile (\<lambda>c. \<not> P c) s)"

definition split_scheme :: "string \<Rightarrow> string \<times> string" where
  "split_scheme url =
     (case cut (\<lambda>c. c = CHR '':'') url of
        (s, rest) \<Rightarrow>
          if rest \<noteq> [] \<and> s \<noteq> [] \<and> is_ascii_alpha (hd s) \<and> list_all scheme_char s
          then (py_lower s, tl rest) else ([], url))"

definition netloc_end :: "char \<Rightarrow> bool" where
  "netloc_end c \<longleftrightarrow> c \<in> {CHR ''/'', CHR ''?'', CHR ''#''}"

definition split_netloc :: "string \<Rightarrow> string \<times> string" where
  "split_netloc url = (if has_prefix ''//'' url then cut netloc_end (drop 2 url) else ([], url))"

definition url_value_error :: "string \<Rightarrow> 'a result" where
  "url_value_error m = Inl (exn PyValueError m)"

definition urlsplit :: "(string \<Rightarrow> unit result) \<Rightarrow> string \<Rightarrow> split_url result" where
  "urlsplit check_brackets url =
     (case split_scheme (url_clean url) of
        (scheme, url1) \<Rightarrow>
          (case split_netloc url1 of
             (netloc, url2) \<Rightarrow>
               (case cut (\<lambda>c. c = CHR ''#'') url2 of
                  (url3, fragment) \<Rightarrow>
                    (case cut (\<lambda>c. c = CHR ''?'') url3 of
                       (path, query) \<Rightarrow>
                         if (CHR ''['' \<in> set netloc) \<noteq> (CHR '']'' \<in> set netloc)
                         then url_value_error ''Invalid IPv6 URL''
                         else rbind (if CHR ''['' \<in> set netloc then check_brackets netloc else Inr ()) (\<lambda>_.
                           Inr \<lparr>su_scheme = scheme, su_netloc = netloc, su_path = path,
                                su_query = drop 1 query, su_fragment = drop 1 fragment\<rparr>)))))"

text \<open>\<^verbatim>\<open>urlunsplit\<close> with a network location.\<close>

definition urlunsplit :: "split_url \<Rightarrow> string" where
  "urlunsplit u =
     (let path = (if su_path u \<noteq> [] \<and> hd (su_path u) \<noteq> CHR ''/'' then CHR ''/'' # su_path u else su_path u)
      in (if su_scheme u = [] then [] else su_scheme u @ '':'') @ ''//'' @ su_netloc u @ path @
         (if su_query u = [] then [] else CHR ''?'' # su_query u) @
         (if su_fragment u = [] then [] else CHR ''#'' # su_fragment u))"

definition mask_endpoint :: "(string \<Rightarrow> unit result) \<Rightarrow> string \<Rightarrow> string result" where
  "mask_endpoint check_brackets endpoint =
     rbind (urlsplit check_brackets endpoint) (\<lambda>u.
       if CHR ''@'' \<notin> set (su_netloc u) then Inr endpoint
       else (let host = rev (takeWhile (\<lambda>c. c \<noteq> CHR ''@'') (rev (su_netloc u)))
             in Inr (urlunsplit (u\<lparr>su_netloc := ''***@'' @ host\<rparr>))))"

definition connection_for_logging :: "(string \<Rightarrow> unit result) \<Rightarrow> connection_config \<Rightarrow> pyval result" where
  "connection_for_logging check_brackets c =
     rbind (mask_endpoint check_brackets (cc_endpoint c)) (\<lambda>endpoint.
     rbind (mask_mapping (cc_protocol_options c)) (\<lambda>options.
       Inr (PDict [(PStr ''id'', PStr (cc_id c)), (PStr ''protocol'', PStr (cc_protocol c)),
         (PStr ''endpoint'', PStr endpoint), (PStr ''enabled'', PBool (cc_enabled c)),
         (PStr ''timeout_ms'', PInt (cc_timeout_ms c)), (PStr ''protocol_options'', PDict options)])))"

definition tag_group_for_logging :: "tag_group_config \<Rightarrow> pyval" where
  "tag_group_for_logging g =
     PDict [(PStr ''id'', PStr (tg_id g)), (PStr ''connection_id'', PStr (tg_connection_id g)),
       (PStr ''interval_ms'', PInt (tg_interval_ms g)), (PStr ''timeout_ms'', PInt (tg_timeout_ms g)),
       (PStr ''overlap_policy'', PStr (overlap_policy_value (tg_overlap_policy g))),
       (PStr ''enabled'', PBool (tg_enabled g))]"

definition tag_for_logging :: "tag_config \<Rightarrow> pyval result" where
  "tag_for_logging t =
     rbind (mask_mapping (tc_metadata t)) (\<lambda>meta.
       Inr (PDict [(PStr ''id'', PStr (tc_id t)), (PStr ''tag_group_id'', PStr (tc_tag_group_id t)),
         (PStr ''name'', PStr (tc_name t)), (PStr ''address'', PStr (tc_address t)),
         (PStr ''value_type'', PStr (value_type_value (tc_value_type t))),
         (PStr ''enabled'', PBool (tc_enabled t)), (PStr ''metadata'', PDict meta)]))"

definition safe_for_logging :: "(string \<Rightarrow> unit result) \<Rightarrow> gateway_config \<Rightarrow> pyval result" where
  "safe_for_logging check_brackets c =
     rbind (rmap (connection_for_logging check_brackets) (gc_connections c)) (\<lambda>connections.
     rbind (rmap tag_for_logging (gc_tags c)) (\<lambda>tags.
       Inr (PDict [(PStr ''connections'', PList connections),
         (PStr ''tag_groups'', PList (map tag_group_for_logging (gc_tag_groups c))),
         (PStr ''tags'', PList tags)])))"

section \<open>What the logs show\<close>

text \<open>
  Two values that a reader who may not see secrets cannot tell apart: they differ only in
  the values under sensitive keys.
\<close>

fun low_equal :: "pyval \<Rightarrow> pyval \<Rightarrow> bool"
  and low_equal_items :: "pyval list \<Rightarrow> pyval list \<Rightarrow> bool"
  and low_equal_mapping :: "(pyval \<times> pyval) list \<Rightarrow> (pyval \<times> pyval) list \<Rightarrow> bool" where
  "low_equal (PDict d) w = (case w of PDict e \<Rightarrow> low_equal_mapping d e | _ \<Rightarrow> False)"
| "low_equal (PList xs) w = (case w of PList ys \<Rightarrow> low_equal_items xs ys | _ \<Rightarrow> False)"
| "low_equal v w = (v = w)"
| "low_equal_items [] ys = (ys = [])"
| "low_equal_items (x # xs) zs = (case zs of [] \<Rightarrow> False | y # ys \<Rightarrow> low_equal x y \<and> low_equal_items xs ys)"
| "low_equal_mapping [] e = (e = [])"
| "low_equal_mapping ((k, v) # d) f =
     (case f of [] \<Rightarrow> False
      | (l, w) # e \<Rightarrow> k = l \<and> low_equal_mapping d e \<and>
          (case k of PStr s \<Rightarrow> is_sensitive_key s \<or> low_equal v w | _ \<Rightarrow> True))"

text \<open>The keys of every mapping in a value are strings, as in anything read from JSON.\<close>

fun string_keys :: "pyval \<Rightarrow> bool"
  and string_keys_items :: "pyval list \<Rightarrow> bool"
  and string_keys_mapping :: "(pyval \<times> pyval) list \<Rightarrow> bool" where
  "string_keys (PDict d) = string_keys_mapping d"
| "string_keys (PList xs) = string_keys_items xs"
| "string_keys v = True"
| "string_keys_items [] = True"
| "string_keys_items (x # xs) = (string_keys x \<and> string_keys_items xs)"
| "string_keys_mapping [] = True"
| "string_keys_mapping ((k, v) # d) =
     ((case k of PStr s \<Rightarrow> True | _ \<Rightarrow> False) \<and> string_keys v \<and> string_keys_mapping d)"

lemma mask_total:
  "string_keys v \<Longrightarrow> \<exists>m. mask_item v = Inr m"
  "string_keys_items vs \<Longrightarrow> \<exists>ms. mask_items vs = Inr ms"
  "string_keys_mapping d \<Longrightarrow> \<exists>e. mask_mapping d = Inr e"
  by (induction v and vs and d rule: mask_item_mask_items_mask_mapping.induct)
    (auto split: pyval.splits)

lemma Inr_eq_rbind [simp]: "Inr y = rbind m f \<longleftrightarrow> (\<exists>x. m = Inr x \<and> f x = Inr y)"
  by (cases m) auto

lemma mask_item_atomic:
  "\<forall>d. v \<noteq> PDict d \<Longrightarrow> \<forall>xs. v \<noteq> PList xs \<Longrightarrow> Inr v = mask_item w \<longleftrightarrow> v = w"
  by (cases w) auto

text \<open>Equal masks exactly for values that cannot be told apart.\<close>

lemma mask_low_equal:
  "string_keys v \<Longrightarrow> string_keys w \<Longrightarrow> mask_item v = mask_item w \<longleftrightarrow> low_equal v w"
  "string_keys_items vs \<Longrightarrow> string_keys_items ws \<Longrightarrow> mask_items vs = mask_items ws \<longleftrightarrow> low_equal_items vs ws"
  "string_keys_mapping d \<Longrightarrow> string_keys_mapping e \<Longrightarrow> mask_mapping d = mask_mapping e \<longleftrightarrow> low_equal_mapping d e"
proof (induction v and vs and d arbitrary: w and ws and e rule: mask_item_mask_items_mask_mapping.induct)
  case (1 d)
  obtain d' where d: "mask_mapping d = Inr d'" using mask_total(3) "1.prems"(1) by auto
  show ?case
  proof (cases w)
    case (PDict e)
    then obtain e' where "mask_mapping e = Inr e'" using mask_total(3) "1.prems"(2) by auto
    then show ?thesis using "1.IH" [of e] "1.prems" PDict d by auto
  next
    case (PList ys)
    then obtain ys' where "mask_items ys = Inr ys'" using mask_total(2) "1.prems"(2) by auto
    then show ?thesis using PList d by auto
  qed (use d in auto)
next
  case (2 xs)
  obtain xs' where xs: "mask_items xs = Inr xs'" using mask_total(2) "2.prems"(1) by auto
  show ?case
  proof (cases w)
    case (PDict e)
    then obtain e' where "mask_mapping e = Inr e'" using mask_total(3) "2.prems"(2) by auto
    then show ?thesis using PDict xs by auto
  next
    case (PList ys)
    then obtain ys' where "mask_items ys = Inr ys'" using mask_total(2) "2.prems"(2) by auto
    then show ?thesis using "2.IH" [of ys] "2.prems" PList xs by auto
  qed (use xs in auto)
next
  case 4
  show ?case using "4.prems" mask_total(2) [of "tl ws"] mask_total(1) [of "hd ws"] by (cases ws) auto
next
  case (5 x xs)
  obtain x' xs' where x: "mask_item x = Inr x'" "mask_items xs = Inr xs'"
    using mask_total(1) [of x] mask_total(2) [of xs] "5.prems"(1) by auto
  show ?case
  proof (cases ws)
    case (Cons y ys)
    then obtain y' ys' where "mask_item y = Inr y'" "mask_items ys = Inr ys'"
      using mask_total(1) [of y] mask_total(2) [of ys] "5.prems"(2) by auto
    then show ?thesis using "5.IH"(1) [of y] "5.IH"(2) [of ys] x "5.prems" Cons by auto
  qed (use x in auto)
next
  case 6
  show ?case using "6.prems" mask_total(3) [of "tl e"] mask_total(1) [of "snd (hd e)"]
    by (cases e) (auto split: pyval.splits if_splits)
next
  case (7 k v d)
  obtain s where k: "k = PStr s" using "7.prems"(1) by (auto split: pyval.splits)
  obtain v' d' where v: "mask_item v = Inr v'" "mask_mapping d = Inr d'"
    using mask_total(1) [of v] mask_total(3) [of d] "7.prems"(1) by auto
  show ?case
  proof (cases e)
    case (Cons p e2)
    obtain l w where p: "p = (l, w)" by fastforce
    obtain t where l: "l = PStr t" using "7.prems"(2) Cons p by (auto split: pyval.splits)
    have w: "string_keys w" "string_keys_mapping e2" using "7.prems"(2) Cons p by auto
    then obtain w' e' where we: "mask_item w = Inr w'" "mask_mapping e2 = Inr e'"
      using mask_total(1) [of w] mask_total(3) [of e2] by auto
    have d: "string_keys v" "string_keys_mapping d" using "7.prems"(1) by auto
    have rest: "d' = e' \<longleftrightarrow> low_equal_mapping d e2" using "7.IH"(2) [OF k, of e2] d w v we by simp
    have "\<not> is_sensitive_key s \<Longrightarrow> v' = w' \<longleftrightarrow> low_equal v w" using "7.IH"(1) [OF k _ d(1) w(1)] v we by simp
    then show ?thesis using Cons p l k v we rest by auto
  qed (use k v in auto)
qed (auto simp: mask_item_atomic)

text \<open>
  An endpoint with user information: \<open>s://u@h\<close> followed by the rest \<open>r\<close>. The host may be in brackets; the
  user information has neither brackets nor a character that ends the network location. Tabs and line
  breaks, which \<^verbatim>\<open>urlsplit\<close> removes, may stand anywhere.
\<close>

definition endpoint_with :: "string \<Rightarrow> string \<Rightarrow> string \<Rightarrow> string \<Rightarrow> string" where
  "endpoint_with s u h r = s @ ''://'' @ u @ ''@'' @ h @ r"

definition kept_char :: "char \<Rightarrow> bool" where
  "kept_char c \<longleftrightarrow> code_point c \<notin> {9, 10, 13}"

abbreviation url_kept :: "string \<Rightarrow> string" where
  "url_kept \<equiv> filter kept_char"

lemma kept_chars [simp]:
  "kept_char CHR '':''" "kept_char CHR ''/''" "kept_char CHR ''?''" "kept_char CHR ''#''" "kept_char CHR ''@''"
  "kept_char CHR ''[''" "kept_char CHR '']''"
  by code_simp+

lemma netloc_end_chars [simp]:
  "netloc_end CHR ''/''" "netloc_end CHR ''?''" "netloc_end CHR ''#''" "\<not> netloc_end CHR ''@''"
  by (simp_all add: netloc_end_def)

definition scheme_ok :: "string \<Rightarrow> bool" where
  "scheme_ok s \<longleftrightarrow> s \<noteq> [] \<and> is_ascii_alpha (hd s) \<and> list_all scheme_char s"

definition endpoint_ok :: "string \<Rightarrow> string \<Rightarrow> string \<Rightarrow> bool" where
  "endpoint_ok s h r \<longleftrightarrow> scheme_ok s \<and> CHR ''@'' \<notin> set h \<and> (\<forall>c \<in> set h. \<not> netloc_end c) \<and> (r = [] \<or> netloc_end (hd r))"

definition no_brackets :: "string \<Rightarrow> bool" where
  "no_brackets s \<longleftrightarrow> CHR ''['' \<notin> set s \<and> CHR '']'' \<notin> set s"

definition userinfo_ok :: "string \<Rightarrow> bool" where
  "userinfo_ok u \<longleftrightarrow> no_brackets u \<and> (\<forall>c \<in> set u. \<not> netloc_end c)"

text \<open>
  The check of a bracketed host looks at what follows the last \<^verbatim>\<open>@\<close> or at what is between the brackets;
  in neither case at user information without brackets.
\<close>

definition checks_host :: "(string \<Rightarrow> unit result) \<Rightarrow> bool" where
  "checks_host chk \<longleftrightarrow> (\<forall>u h. no_brackets u \<and> CHR ''@'' \<notin> set h \<longrightarrow> chk (u @ ''@'' @ h) = chk h)"

definition masked_url :: "(string \<Rightarrow> unit result) \<Rightarrow> string \<Rightarrow> string \<Rightarrow> string \<Rightarrow> string result" where
  "masked_url chk s h r =
     (if (CHR ''['' \<in> set h) \<noteq> (CHR '']'' \<in> set h) then url_value_error ''Invalid IPv6 URL''
      else rbind (if CHR ''['' \<in> set h then chk h else Inr ()) (\<lambda>_.
        case cut (\<lambda>c. c = CHR ''#'') r of (r1, fragment) \<Rightarrow>
          (case cut (\<lambda>c. c = CHR ''?'') r1 of (path, query) \<Rightarrow>
             Inr (urlunsplit \<lparr>su_scheme = py_lower s, su_netloc = ''***@'' @ h, su_path = path,
               su_query = drop 1 query, su_fragment = drop 1 fragment\<rparr>))))"

lemma scheme_char_facts:
  "list_all scheme_char s \<Longrightarrow> c \<in> set s \<Longrightarrow> c \<noteq> CHR '':'' \<and> kept_char c"
  by (auto simp: list_all_iff scheme_char_def is_ascii_alpha_def is_digit_def code_point_def kept_char_def Let_def)

lemma cut_at:
  "\<forall>c \<in> set a. \<not> P c \<Longrightarrow> b = [] \<or> P (hd b) \<Longrightarrow> cut P (a @ b) = (a, b)"
  by (cases b) (simp_all add: cut_def takeWhile_append dropWhile_append)

lemma url_clean_scheme:
  assumes "scheme_ok s"
  shows "url_clean (s @ t) = s @ url_kept t"
proof -
  obtain c s' where s: "s = c # s'" using assms by (cases s) (auto simp: scheme_ok_def)
  then have "\<not> code_point c \<le> 32" using assms by (auto simp: scheme_ok_def is_ascii_alpha_def Let_def)
  then have "url_clean (s @ t) = url_kept s @ url_kept t" using s by (simp add: url_clean_def kept_char_def [abs_def])
  moreover have "url_kept s = s" using assms scheme_char_facts [of s] by (auto simp: scheme_ok_def filter_id_conv)
  ultimately show ?thesis by simp
qed

lemma kept_rest: "r = [] \<or> netloc_end (hd r) \<Longrightarrow> url_kept r = [] \<or> netloc_end (hd (url_kept r))"
  by (cases r) (auto simp: netloc_end_def)

text \<open>The parts of a cleaned address with a network location \<open>n\<close>.\<close>

lemma urlsplit_netloc:
  assumes "scheme_ok s" "\<forall>c \<in> set n. \<not> netloc_end c" "r = [] \<or> netloc_end (hd r)"
  shows "urlsplit chk (s @ ''://'' @ n @ r) =
    (if (CHR ''['' \<in> set (url_kept n)) \<noteq> (CHR '']'' \<in> set (url_kept n)) then url_value_error ''Invalid IPv6 URL''
     else rbind (if CHR ''['' \<in> set (url_kept n) then chk (url_kept n) else Inr ()) (\<lambda>_.
       case cut (\<lambda>c. c = CHR ''#'') (url_kept r) of (r1, fragment) \<Rightarrow>
         (case cut (\<lambda>c. c = CHR ''?'') r1 of (path, query) \<Rightarrow>
            Inr \<lparr>su_scheme = py_lower s, su_netloc = url_kept n, su_path = path,
               su_query = drop 1 query, su_fragment = drop 1 fragment\<rparr>)))"
proof -
  have clean: "url_clean (s @ ''://'' @ n @ r) = s @ ''://'' @ url_kept n @ url_kept r"
    using url_clean_scheme [OF assms(1)] by simp
  have colon: "\<forall>c \<in> set s. c \<noteq> CHR '':''" using assms(1) scheme_char_facts by (auto simp: scheme_ok_def)
  have "cut (\<lambda>c. c = CHR '':'') (s @ ''://'' @ url_kept n @ url_kept r) = (s, ''://'' @ url_kept n @ url_kept r)"
    by (rule cut_at) (use colon in auto)
  then have scheme: "split_scheme (s @ ''://'' @ url_kept n @ url_kept r) = (py_lower s, ''//'' @ url_kept n @ url_kept r)"
    using assms(1) by (simp add: split_scheme_def scheme_ok_def)
  have "cut netloc_end (url_kept n @ url_kept r) = (url_kept n, url_kept r)"
    using assms(2) kept_rest [OF assms(3)] by (intro cut_at) auto
  then have netloc: "split_netloc (''//'' @ url_kept n @ url_kept r) = (url_kept n, url_kept r)"
    by (simp add: split_netloc_def has_prefix_def)
  obtain r1 fragment path query where cuts: "cut (\<lambda>c. c = CHR ''#'') (url_kept r) = (r1, fragment)"
    "cut (\<lambda>c. c = CHR ''?'') r1 = (path, query)" by (metis surj_pair)
  show ?thesis unfolding urlsplit_def clean scheme netloc cuts prod.case ..
qed

lemma mask_endpoint_userinfo:
  assumes "endpoint_ok s h r" "userinfo_ok u" "checks_host chk"
  shows "mask_endpoint chk (endpoint_with s u h r) = masked_url chk s (url_kept h) (url_kept r)"
proof -
  have e: "\<forall>c \<in> set (u @ ''@'' @ h). \<not> netloc_end c"
    using assms by (auto simp: endpoint_ok_def userinfo_ok_def)
  have u: "no_brackets (url_kept u)" and h: "CHR ''@'' \<notin> set (url_kept h)"
    using assms(1,2) by (auto simp: userinfo_ok_def no_brackets_def endpoint_ok_def)
  have chk: "chk (url_kept u @ CHR ''@'' # url_kept h) = chk (url_kept h)" using assms(3) u h by (simp add: checks_host_def)
  have host: "takeWhile (\<lambda>c. c \<noteq> CHR ''@'') (rev (url_kept h) @ CHR ''@'' # rev (url_kept u)) = rev (url_kept h)"
    using h by (subst takeWhile_append2) auto
  have brackets: "CHR ''['' \<notin> set u" "CHR '']'' \<notin> set u" using assms(2) by (auto simp: userinfo_ok_def no_brackets_def)
  have split: "urlsplit chk (endpoint_with s u h r) =
    (if (CHR ''['' \<in> set (url_kept h)) \<noteq> (CHR '']'' \<in> set (url_kept h)) then url_value_error ''Invalid IPv6 URL''
     else rbind (if CHR ''['' \<in> set (url_kept h) then chk (url_kept h) else Inr ()) (\<lambda>_.
       case cut (\<lambda>c. c = CHR ''#'') (url_kept r) of (r1, fragment) \<Rightarrow>
         (case cut (\<lambda>c. c = CHR ''?'') r1 of (path, query) \<Rightarrow>
            Inr \<lparr>su_scheme = py_lower s, su_netloc = url_kept u @ CHR ''@'' # url_kept h, su_path = path,
               su_query = drop 1 query, su_fragment = drop 1 fragment\<rparr>)))"
    using urlsplit_netloc [of s "u @ ''@'' @ h" r chk] assms(1) e brackets chk
    by (simp add: endpoint_ok_def endpoint_with_def del: rbind_Inr_iff cong: if_cong)
  show ?thesis unfolding mask_endpoint_def split masked_url_def
    by (cases "chk (url_kept h)") (auto simp: host url_value_error_def simp del: rbind_Inr_iff split: prod.splits sum.splits)
qed

text \<open>Endpoints that look the same to a reader who may not see the user information.\<close>

definition endpoint_low_equal :: "string \<Rightarrow> string \<Rightarrow> bool" where
  "endpoint_low_equal e f \<longleftrightarrow> e = f \<or>
     (\<exists>s u v h r. e = endpoint_with s u h r \<and> f = endpoint_with s v h r \<and> endpoint_ok s h r \<and>
        userinfo_ok u \<and> userinfo_ok v)"

definition connection_low_equal :: "connection_config \<Rightarrow> connection_config \<Rightarrow> bool" where
  "connection_low_equal c d \<longleftrightarrow> cc_id c = cc_id d \<and> cc_protocol c = cc_protocol d \<and>
     endpoint_low_equal (cc_endpoint c) (cc_endpoint d) \<and> cc_enabled c = cc_enabled d \<and>
     cc_timeout_ms c = cc_timeout_ms d \<and>
     low_equal_mapping (cc_protocol_options c) (cc_protocol_options d)"

definition tag_low_equal :: "tag_config \<Rightarrow> tag_config \<Rightarrow> bool" where
  "tag_low_equal t u \<longleftrightarrow> t\<lparr>tc_metadata := []\<rparr> = u\<lparr>tc_metadata := []\<rparr> \<and>
     low_equal_mapping (tc_metadata t) (tc_metadata u)"

definition config_low_equal :: "gateway_config \<Rightarrow> gateway_config \<Rightarrow> bool" where
  "config_low_equal c d \<longleftrightarrow> list_all2 connection_low_equal (gc_connections c) (gc_connections d) \<and>
     gc_tag_groups c = gc_tag_groups d \<and> list_all2 tag_low_equal (gc_tags c) (gc_tags d)"

definition config_string_keys :: "gateway_config \<Rightarrow> bool" where
  "config_string_keys c \<longleftrightarrow> (\<forall>x \<in> set (gc_connections c). string_keys_mapping (cc_protocol_options x)) \<and>
     (\<forall>t \<in> set (gc_tags c). string_keys_mapping (tc_metadata t))"

lemma mask_endpoint_low_equal: "checks_host chk \<Longrightarrow> endpoint_low_equal e f \<Longrightarrow> mask_endpoint chk e = mask_endpoint chk f"
  by (auto simp: endpoint_low_equal_def mask_endpoint_userinfo)

lemma rmap_cong2:
  "list_all2 R xs ys \<Longrightarrow> (\<And>x y. x \<in> set xs \<Longrightarrow> y \<in> set ys \<Longrightarrow> R x y \<Longrightarrow> f x = f y) \<Longrightarrow> rmap f xs = rmap f ys"
proof (induction rule: list_all2_induct)
  case (Cons x xs y ys)
  have "f x = f y" "rmap f xs = rmap f ys" using Cons by auto
  then show ?case by simp
qed simp

lemma connection_logging_low_equal:
  assumes "connection_low_equal c d" "string_keys_mapping (cc_protocol_options c)" "string_keys_mapping (cc_protocol_options d)"
    and "checks_host chk"
  shows "connection_for_logging chk c = connection_for_logging chk d"
  using assms mask_endpoint_low_equal [OF assms(4), of "cc_endpoint c" "cc_endpoint d"] mask_low_equal(3) [OF assms(2,3)]
  by (simp add: connection_for_logging_def connection_low_equal_def)

lemma tag_logging_low_equal:
  assumes "tag_low_equal t u" "string_keys_mapping (tc_metadata t)" "string_keys_mapping (tc_metadata u)"
  shows "tag_for_logging t = tag_for_logging u"
  using assms mask_low_equal(3) [OF assms(2,3)]
  by (cases t; cases u) (simp add: tag_for_logging_def tag_low_equal_def)

text \<open>
  C10: what is logged does not depend on the secrets. Two configurations that differ only in
  the values under sensitive keys, at any depth of the protocol options and the metadata,
  and in the user information of their endpoints have the same representation for the logs. The keys of both are
  strings, as in every file that was JSON, and the user information has no slash, question mark, hash or bracket:
  with one of the first three it is logged in clear (\<open>delimiter_in_password_is_logged\<close>). Hosts may be in brackets.
\<close>

theorem logs_reveal_no_secrets:
  assumes "config_low_equal c d" "config_string_keys c" "config_string_keys d" "checks_host chk"
  shows "safe_for_logging chk c = safe_for_logging chk d"
proof -
  have "rmap (connection_for_logging chk) (gc_connections c) = rmap (connection_for_logging chk) (gc_connections d)"
    by (rule rmap_cong2 [of connection_low_equal])
      (use assms connection_logging_low_equal in \<open>auto simp: config_low_equal_def config_string_keys_def\<close>)
  moreover have "rmap tag_for_logging (gc_tags c) = rmap tag_for_logging (gc_tags d)"
    by (rule rmap_cong2 [of tag_low_equal])
      (use assms tag_logging_low_equal in \<open>auto simp: config_low_equal_def config_string_keys_def\<close>)
  ultimately show ?thesis using assms(1) by (simp add: safe_for_logging_def config_low_equal_def)
qed

text \<open>
  A password that contains a slash, a question mark or a hash is logged in clear: the
  network location ends at that character, before the \<^verbatim>\<open>@\<close>, so nothing is masked and the
  endpoint is returned as it is.
\<close>

lemma delimiter_in_password_is_logged:
  assumes "scheme_ok s" "no_brackets a" "\<forall>c \<in> set a. \<not> netloc_end c" "CHR ''@'' \<notin> set a"
    and "d \<in> {CHR ''/'', CHR ''?'', CHR ''#''}"
  shows "mask_endpoint chk (endpoint_with s (a @ [d] @ b) h []) = Inr (endpoint_with s (a @ [d] @ b) h [])"
proof -
  let ?r = "d # b @ ''@'' @ h"
  have "no_brackets (url_kept a)" using assms(2) by (auto simp: no_brackets_def)
  then have none: "CHR ''['' \<notin> set (url_kept a)" "CHR '']'' \<notin> set (url_kept a)" by (auto simp: no_brackets_def)
  have "?r = [] \<or> netloc_end (hd ?r)" using assms(5) by auto
  note split = urlsplit_netloc [OF assms(1,3) this, of chk]
  obtain r1 fragment path query where cuts: "cut (\<lambda>c. c = CHR ''#'') (url_kept ?r) = (r1, fragment)"
    "cut (\<lambda>c. c = CHR ''?'') r1 = (path, query)" by (metis surj_pair)
  have "urlsplit chk (s @ ''://'' @ a @ ?r) = Inr \<lparr>su_scheme = py_lower s, su_netloc = url_kept a, su_path = path,
      su_query = drop 1 query, su_fragment = drop 1 fragment\<rparr>"
    unfolding split cuts prod.case using none by simp
  moreover have "endpoint_with s (a @ [d] @ b) h [] = s @ ''://'' @ a @ ?r" by (simp add: endpoint_with_def)
  moreover have "CHR ''@'' \<notin> set (url_kept a)" using assms(4) by simp
  ultimately show ?thesis by (simp add: mask_endpoint_def)
qed

section \<open>What loading guarantees\<close>

lemma unique_ids_from_Inr:
  "unique_ids_from sec i seen ids = Inr S \<longleftrightarrow> distinct ids \<and> set ids \<inter> seen = {} \<and> S = seen \<union> set ids"
  by (induction ids arbitrary: i seen) (auto simp: reference_error_def config_failure_def)

lemma unique_ids_Inr [simp]: "unique_ids sec ids = Inr S \<longleftrightarrow> distinct ids \<and> S = set ids"
  by (auto simp: unique_ids_def unique_ids_from_Inr)

lemma check_references_Inr [simp]: "check_references loc what ok i xs = Inr u \<longleftrightarrow> set xs \<subseteq> ok"
  by (induction xs arbitrary: i) (auto simp: reference_error_def config_failure_def)

definition references_ok :: "string list \<Rightarrow> (string \<times> string) list \<Rightarrow> (string \<times> string) list \<Rightarrow> bool" where
  "references_ok connections tag_groups tags \<longleftrightarrow>
     distinct connections \<and> distinct (map fst tag_groups) \<and> distinct (map fst tags) \<and>
     snd ` set tag_groups \<subseteq> set connections \<and> snd ` set tags \<subseteq> fst ` set tag_groups"

lemma validate_references_Inr:
  "validate_references m = Inr m' \<longleftrightarrow> m' = m \<and> references_ok (map cm_id (wm_connections m))
     (map (\<lambda>g. (gm_id g, gm_connection_id g)) (wm_tag_groups m))
     (map (\<lambda>t. (tm_id t, tm_tag_group_id t)) (wm_tags m))"
  by (auto simp: validate_references_def references_ok_def comp_def image_image)

text \<open>
  What the field declarations promise of a model: \<^verbatim>\<open>str_strip_whitespace\<close> with
  \<^verbatim>\<open>min_length=1\<close>, and \<^verbatim>\<open>gt=0\<close> of the integers.
\<close>

definition fields_ok :: "gateway_model \<Rightarrow> bool" where
  "fields_ok m \<longleftrightarrow>
     (\<forall>c \<in> set (wm_connections m). stripped (cm_id c) \<and> stripped (cm_protocol c) \<and>
        stripped (cm_endpoint c) \<and> 0 < cm_timeout_ms c) \<and>
     (\<forall>g \<in> set (wm_tag_groups m). stripped (gm_id g) \<and> stripped (gm_connection_id g) \<and>
        0 < gm_interval_ms g \<and> 0 < gm_timeout_ms g) \<and>
     (\<forall>t \<in> set (wm_tags m). stripped (tm_id t) \<and> stripped (tm_tag_group_id t) \<and>
        stripped (tm_name t) \<and> stripped (tm_address t))"

definition connection_of :: "connection_model \<Rightarrow> connection_config" where
  "connection_of c = \<lparr>cc_id = cm_id c, cc_protocol = cm_protocol c, cc_endpoint = cm_endpoint c,
     cc_enabled = cm_enabled c, cc_timeout_ms = cm_timeout_ms c,
     cc_protocol_options = cm_protocol_options c\<rparr>"

definition tag_group_of :: "tag_group_model \<Rightarrow> tag_group_config" where
  "tag_group_of g = \<lparr>tg_id = gm_id g, tg_connection_id = gm_connection_id g,
     tg_interval_ms = gm_interval_ms g, tg_timeout_ms = gm_timeout_ms g,
     tg_overlap_policy = gm_overlap_policy g, tg_enabled = gm_enabled g\<rparr>"

definition tag_of :: "tag_model \<Rightarrow> tag_config" where
  "tag_of t = \<lparr>tc_id = tm_id t, tc_tag_group_id = tm_tag_group_id t, tc_name = tm_name t,
     tc_address = tm_address t, tc_value_type = tm_value_type t, tc_enabled = tm_enabled t,
     tc_metadata = tm_metadata t\<rparr>"

definition config_of :: "gateway_model \<Rightarrow> gateway_config" where
  "config_of m = \<lparr>gc_connections = map connection_of (wm_connections m),
     gc_tag_groups = map tag_group_of (wm_tag_groups m), gc_tags = map tag_of (wm_tags m)\<rparr>"

lemma to_domain_fields_ok:
  assumes "fields_ok m"
  shows "to_domain m = Inr (config_of m)"
proof -
  have "rmap connection_to_domain (wm_connections m) = Inr (map connection_of (wm_connections m))"
    by (rule rmap_all_Inr) (use assms in \<open>auto simp: fields_ok_def connection_to_domain_def
        connection_config_new_def connection_of_def\<close>)
  moreover have "rmap tag_group_to_domain (wm_tag_groups m) = Inr (map tag_group_of (wm_tag_groups m))"
    by (rule rmap_all_Inr) (use assms in \<open>auto simp: fields_ok_def tag_group_to_domain_def
        tag_group_config_new_def tag_group_of_def\<close>)
  moreover have "rmap tag_to_domain (wm_tags m) = Inr (map tag_of (wm_tags m))"
    by (rule rmap_all_Inr) (use assms in \<open>auto simp: fields_ok_def tag_to_domain_def
        tag_config_new_def tag_of_def\<close>)
  ultimately show ?thesis by (simp add: to_domain_def config_of_def)
qed

definition gateway_config_ok :: "gateway_config \<Rightarrow> bool" where
  "gateway_config_ok c \<longleftrightarrow> (\<forall>x \<in> set (gc_connections c). connection_ok x) \<and>
     (\<forall>g \<in> set (gc_tag_groups c). tag_group_ok g) \<and> (\<forall>t \<in> set (gc_tags c). tag_ok t) \<and>
     references_ok (map cc_id (gc_connections c))
       (map (\<lambda>g. (tg_id g, tg_connection_id g)) (gc_tag_groups c))
       (map (\<lambda>t. (tc_id t, tc_tag_group_id t)) (gc_tags c))"

lemma config_of_ok:
  assumes "fields_ok m" "validate_references m = Inr m"
  shows "gateway_config_ok (config_of m)"
proof -
  have "map cc_id (gc_connections (config_of m)) = map cm_id (wm_connections m)"
    "map (\<lambda>g. (tg_id g, tg_connection_id g)) (gc_tag_groups (config_of m)) =
       map (\<lambda>g. (gm_id g, gm_connection_id g)) (wm_tag_groups m)"
    "map (\<lambda>t. (tc_id t, tc_tag_group_id t)) (gc_tags (config_of m)) =
       map (\<lambda>t. (tm_id t, tm_tag_group_id t)) (wm_tags m)"
    by (simp_all add: config_of_def connection_of_def tag_group_of_def tag_of_def)
  then have "references_ok (map cc_id (gc_connections (config_of m)))
      (map (\<lambda>g. (tg_id g, tg_connection_id g)) (gc_tag_groups (config_of m)))
      (map (\<lambda>t. (tc_id t, tc_tag_group_id t)) (gc_tags (config_of m)))"
    using assms(2) validate_references_Inr [of m m] by simp
  moreover have "\<forall>x \<in> set (gc_connections (config_of m)). connection_ok x"
    "\<forall>g \<in> set (gc_tag_groups (config_of m)). tag_group_ok g" "\<forall>t \<in> set (gc_tags (config_of m)). tag_ok t"
    using assms(1) by (auto simp: fields_ok_def config_of_def connection_of_def tag_group_of_def
        tag_of_def connection_ok_def tag_group_ok_def tag_ok_def)
  ultimately show ?thesis by (simp add: gateway_config_ok_def)
qed

lemma load_Inr:
  assumes "load_gateway_config env path environ = Inr c"
  obtains raw raw' m where "read_json_object (cf_read env) path = Inr raw"
    "apply_overrides (cf_str env) environ raw = Inr raw'" "cf_validate env raw' = Inr m"
    "validate_references m = Inr m" "to_domain m = Inr c"
proof -
  obtain raw raw' m where r: "read_json_object (cf_read env) path = Inr raw"
    "apply_overrides (cf_str env) environ raw = Inr raw'" "model_validate env raw' = Inr m" "to_domain m = Inr c"
    using assms by (auto simp: load_gateway_config_def)
  show ?thesis
  proof (cases "cf_validate env raw'")
    case (Inl e)
    then show ?thesis using r(3) by (simp add: model_validate_def config_failure_def)
  next
    case (Inr m')
    then have v: "validate_references m' = Inr m" using r(3) by (simp add: model_validate_def)
    then have "m = m'" by (simp add: validate_references_Inr)
    then show ?thesis using that [OF r(1,2) Inr] v r(4) by simp
  qed
qed

lemma load_config_ok:
  assumes "load_gateway_config env path environ = Inr c" "\<forall>raw m. cf_validate env raw = Inr m \<longrightarrow> fields_ok m"
  shows "gateway_config_ok c"
  using assms(1)
proof (rule load_Inr)
  fix raw raw' m
  assume "cf_validate env raw' = Inr m" "validate_references m = Inr m" "to_domain m = Inr c"
  then show ?thesis using assms(2) to_domain_fields_ok [of m] config_of_ok [of m] by simp
qed

section \<open>Errors of loading\<close>

lemma config_error_class: "config_error m = Inl e \<Longrightarrow> exn_class e = ConfigurationError"
  by (auto simp: config_error_def)

lemma config_failure_class: "config_failure m k ds = Inl e \<Longrightarrow> exn_class e = ConfigurationError"
  by (auto simp: config_failure_def)

lemma reference_error_class: "reference_error l m = Inl e \<Longrightarrow> exn_class e = ConfigurationError"
  by (auto simp: reference_error_def config_failure_def)

lemma unique_ids_from_error: "unique_ids_from sec i seen ids = Inl e \<Longrightarrow> exn_class e = ConfigurationError"
  by (induction ids arbitrary: i seen) (auto dest: reference_error_class split: if_splits)

lemma check_references_error: "check_references loc what ok i xs = Inl e \<Longrightarrow> exn_class e = ConfigurationError"
  by (induction xs arbitrary: i) (auto dest: reference_error_class split: if_splits)

lemma validate_references_error: "validate_references m = Inl e \<Longrightarrow> exn_class e = ConfigurationError"
  by (auto simp: validate_references_def unique_ids_def rbind_Inl_iff
      dest: unique_ids_from_error check_references_error)

lemma rmap_Inl: "rmap f xs = Inl e \<Longrightarrow> \<exists>x \<in> set xs. f x = Inl e"
  by (induction xs) (auto simp: rbind_Inl_iff)

lemma to_domain_errors:
  "connection_to_domain c = Inl e \<Longrightarrow> exn_class e = ConfigurationError"
  "tag_group_to_domain g = Inl e \<Longrightarrow> exn_class e = ConfigurationError"
  "tag_to_domain t = Inl e \<Longrightarrow> exn_class e = ConfigurationError"
  by (auto simp: connection_to_domain_def tag_group_to_domain_def tag_to_domain_def
      connection_config_new_def tag_group_config_new_def tag_config_new_def rbind_Inl_iff
      set_stripped_def Let_def config_error_def split: if_splits)

lemma to_domain_error: "to_domain m = Inl e \<Longrightarrow> exn_class e = ConfigurationError"
proof -
  assume e: "to_domain m = Inl e"
  have "exn_class e' = ConfigurationError"
    if "rbind (rmap connection_to_domain (wm_connections m)) (\<lambda>cs.
        rbind (rmap tag_group_to_domain (wm_tag_groups m)) (\<lambda>gs.
        rbind (rmap tag_to_domain (wm_tags m)) (\<lambda>ts.
          Inr \<lparr>gc_connections = cs, gc_tag_groups = gs, gc_tags = ts\<rparr>))) = Inl e'" for e'
    using that
    by (auto simp: rbind_Inl_iff dest!: rmap_Inl dest: to_domain_errors)
  then show ?thesis using e by (auto simp: to_domain_def dest: config_failure_class split: sum.splits if_splits)
qed

lemma coerce_override_error: "coerce_override_value f v = Inl e \<Longrightarrow> exn_class e = ConfigurationError"
  by (auto simp: coerce_override_value_def Let_def dest: config_failure_class split: if_splits option.splits)

lemma override_error_class: "override_error k m ds = Inl e \<Longrightarrow> exn_class e = ConfigurationError"
  by (auto simp: override_error_def dest: config_failure_class)

lemma apply_override_error: "apply_override keys p cs = Inl e \<Longrightarrow> exn_class e = ConfigurationError"
  by (auto simp: apply_override_def Let_def rbind_Inl_iff dest: override_error_class coerce_override_error
      split: if_splits option.splits list.splits)

lemma statements_error:
  "statements f xs s = Inl e \<Longrightarrow> (\<And>x t. f x t = Inl e \<Longrightarrow> P) \<Longrightarrow> P"
  by (induction xs arbitrary: s) (auto simp: rbind_Inl_iff)

lemma apply_overrides_error: "apply_overrides other environ raw = Inl e \<Longrightarrow> exn_class e = ConfigurationError"
  by (auto simp: apply_overrides_def rbind_Inl_iff dest: apply_override_error elim: statements_error
      split: option.splits pyval.splits)

lemma model_validate_error: "model_validate env raw = Inl e \<Longrightarrow> exn_class e = ConfigurationError"
  by (cases "cf_validate env raw") (auto simp: model_validate_def dest: config_failure_class validate_references_error)

lemma read_json_object_error:
  "read_json_object read path = Inl e \<Longrightarrow> exn_class e = ConfigurationError \<or> read path = JR_Error e"
  by (auto simp: read_json_object_def dest: config_failure_class split: if_splits json_read.splits pyval.splits)

section \<open>The effect of overrides\<close>

text \<open>The connection and field an environment variable names, and the last text given for a field.\<close>

definition named_field :: "nat list option list \<Rightarrow> string \<Rightarrow> (nat \<times> string) option" where
  "named_field keys key =
     (if \<not> has_prefix (env_prefix @ ''CONNECTIONS__'') key then None
      else case split_dunder (drop (length env_prefix) key) of
          [_, connection_id, field_name] \<Rightarrow>
            map_option (\<lambda>i. (i, py_lower field_name)) (find_connection keys (py_upper connection_id))
        | _ \<Rightarrow> None)"

fun last_override :: "nat list option list \<Rightarrow> nat \<times> string \<Rightarrow> (string \<times> string) list \<Rightarrow> string option" where
  "last_override keys f [] = None"
| "last_override keys f (p # ps) =
     (case last_override keys f ps of
        Some v \<Rightarrow> Some v
      | None \<Rightarrow> if named_field keys (fst p) = Some f then Some (snd p) else None)"

lemma find_connection_Some: "find_connection keys k = Some i \<Longrightarrow> i < length keys \<and> keys ! i = Some k"
  by (induction keys k arbitrary: i rule: find_connection.induct) (auto split: option.splits if_splits)

lemma apply_override_Inr:
  assumes "apply_override keys p cs = Inr cs'"
  shows "(named_field keys (fst p) = None \<and> cs' = cs) \<or>
    (\<exists>i f v. named_field keys (fst p) = Some (i, f) \<and> i < length keys \<and> f \<in> {''endpoint'', ''enabled'', ''timeout_ms''} \<and>
       coerce_override_value f (snd p) = Inr v \<and> cs' = cs[i := set_field f v (cs ! i)])"
  using assms
  by (auto simp: apply_override_def named_field_def override_error_def config_failure_def Let_def
      dest: find_connection_Some split: if_splits option.splits list.splits)

definition the_dict :: "pyval \<Rightarrow> pydict" where
  "the_dict v = (case v of PDict d \<Rightarrow> d | _ \<Rightarrow> [])"

definition is_dict :: "pyval \<Rightarrow> bool" where
  "is_dict v = (case v of PDict _ \<Rightarrow> True | _ \<Rightarrow> False)"

lemma set_field_dict:
  "is_dict (set_field f v c) = is_dict c"
  "is_dict c \<Longrightarrow> map_of (the_dict (set_field f v c)) = (map_of (the_dict c))(PStr f \<mapsto> v)"
  "\<not> is_dict c \<Longrightarrow> set_field f v c = c"
  by (auto simp: set_field_def is_dict_def the_dict_def split: pyval.splits)

lemma overrides_effect:
  assumes "statements (apply_override keys) environ cs = Inr cs'" "length keys = length cs"
  shows "length cs' = length cs \<and>
    (\<forall>i < length cs. is_dict (cs' ! i) = is_dict (cs ! i) \<and> (\<not> is_dict (cs ! i) \<longrightarrow> cs' ! i = cs ! i) \<and>
       (is_dict (cs ! i) \<longrightarrow> (\<forall>f. case last_override keys (i, f) environ of
            None \<Rightarrow> map_of (the_dict (cs' ! i)) (PStr f) = map_of (the_dict (cs ! i)) (PStr f)
          | Some text \<Rightarrow> f \<in> {''endpoint'', ''enabled'', ''timeout_ms''} \<and>
              (\<exists>v. coerce_override_value f text = Inr v \<and> map_of (the_dict (cs' ! i)) (PStr f) = Some v))))"
  using assms
proof (induction environ arbitrary: cs)
  case (Cons p ps)
  obtain cs1 where one: "apply_override keys p cs = Inr cs1" "statements (apply_override keys) ps cs1 = Inr cs'"
    using Cons.prems(1) by auto
  have len: "length keys = length cs1" using apply_override_Inr [OF one(1)] Cons.prems(2) by auto
  note IH = Cons.IH [OF one(2) len]
  show ?case
  proof (intro conjI allI impI)
    show "length cs' = length cs" using IH len Cons.prems(2) by simp
    fix i
    assume i: "i < length cs"
    have step: "is_dict (cs1 ! i) = is_dict (cs ! i)" "\<not> is_dict (cs ! i) \<Longrightarrow> cs1 ! i = cs ! i"
      using apply_override_Inr [OF one(1)] i Cons.prems(2) by (auto simp: nth_list_update set_field_dict split: if_splits)
    show "is_dict (cs' ! i) = is_dict (cs ! i)" using IH step i len Cons.prems(2) by auto
    show "cs' ! i = cs ! i" if "\<not> is_dict (cs ! i)" using IH step that i len Cons.prems(2) by auto
    fix f
    assume d: "is_dict (cs ! i)"
    have old: "(case (if named_field keys (fst p) = Some (i, f) then Some (snd p) else None) of
            None \<Rightarrow> map_of (the_dict (cs1 ! i)) (PStr f) = map_of (the_dict (cs ! i)) (PStr f)
          | Some text \<Rightarrow> f \<in> {''endpoint'', ''enabled'', ''timeout_ms''} \<and>
              (\<exists>v. coerce_override_value f text = Inr v \<and> map_of (the_dict (cs1 ! i)) (PStr f) = Some v))"
      using apply_override_Inr [OF one(1)] i d Cons.prems(2) by (auto simp: nth_list_update set_field_dict)
    have new: "(case last_override keys (i, f) ps of
            None \<Rightarrow> map_of (the_dict (cs' ! i)) (PStr f) = map_of (the_dict (cs1 ! i)) (PStr f)
          | Some text \<Rightarrow> f \<in> {''endpoint'', ''enabled'', ''timeout_ms''} \<and>
              (\<exists>v. coerce_override_value f text = Inr v \<and> map_of (the_dict (cs' ! i)) (PStr f) = Some v))"
      using IH i d step(1) len Cons.prems(2) by auto
    show "case last_override keys (i, f) (p # ps) of
            None \<Rightarrow> map_of (the_dict (cs' ! i)) (PStr f) = map_of (the_dict (cs ! i)) (PStr f)
          | Some text \<Rightarrow> f \<in> {''endpoint'', ''enabled'', ''timeout_ms''} \<and>
              (\<exists>v. coerce_override_value f text = Inr v \<and> map_of (the_dict (cs' ! i)) (PStr f) = Some v)"
      using old new by (auto split: option.splits if_splits)
  qed
qed simp

section \<open>Storing a loaded configuration\<close>

text \<open>The values of a configuration that SQLite can store: JSON documents and 64 bit integers.\<close>

definition config_fits :: "gateway_config \<Rightarrow> bool" where
  "config_fits c \<longleftrightarrow>
     (\<forall>x \<in> set (gc_connections c). sqlite_int (cc_timeout_ms x) \<and> (\<exists>j. bind_json (cc_protocol_options x) = Inr j)) \<and>
     (\<forall>g \<in> set (gc_tag_groups c). sqlite_int (tg_interval_ms g) \<and> sqlite_int (tg_timeout_ms g)) \<and>
     (\<forall>t \<in> set (gc_tags c). \<exists>j. bind_json (tc_metadata t) = Inr j)"

lemma statements_upsert_total:
  assumes "\<And>x s. x \<in> set xs \<Longrightarrow> P s \<Longrightarrow> \<exists>t. f x s = Inr t" "\<And>x s t. f x s = Inr t \<Longrightarrow> P s \<Longrightarrow> P t" "P s"
  shows "\<exists>t. statements f xs s = Inr t \<and> P t"
  using assms by (intro statements_total) blast+

lemma upserts_succeed:
  assumes "gateway_config_ok c" "config_fits c"
  shows "\<exists>db1 db2 db3. upsert_connections (gc_connections c) db = (db1, Inr ()) \<and>
    upsert_tag_groups (gc_tag_groups c) db1 = (db2, Inr ()) \<and> upsert_tags (gc_tags c) db2 = (db3, Inr ())"
proof -
  have "\<exists>t. upsert_connection x s = Inr t" if x: "x \<in> set (gc_connections c)" for x s
  proof -
    obtain j where "bind_json (cc_protocol_options x) = Inr j" "sqlite_int (cc_timeout_ms x)" "0 < cc_timeout_ms x"
      using x assms unfolding config_fits_def gateway_config_ok_def connection_ok_def by blast
    then show ?thesis by (simp add: upsert_connection_def bind_int_def Let_def)
  qed
  then obtain db1 where db1: "statements upsert_connection (gc_connections c) db = Inr db1"
    using statements_upsert_total [of "gc_connections c" "\<lambda>_. True" upsert_connection db] by blast
  have known1: "known x (db_connections db1)" if "x \<in> cc_id ` set (gc_connections c)" for x
    using connection_upserts.statements_hold [OF db1] that by auto
  have "\<exists>t. upsert_tag_group g s = Inr t"
    if g: "g \<in> set (gc_tag_groups c)" and s: "config_grows db1 s" for g s
  proof -
    have "tg_connection_id g \<in> cc_id ` set (gc_connections c)"
      using assms(1) g by (auto simp: gateway_config_ok_def references_ok_def image_image)
    then have "known (tg_connection_id g) (db_connections s)" using known1 s by (simp add: config_grows_def)
    moreover have "0 < tg_interval_ms g" "0 < tg_timeout_ms g" "sqlite_int (tg_interval_ms g)" "sqlite_int (tg_timeout_ms g)"
      using assms g by (auto simp: config_fits_def gateway_config_ok_def tag_group_ok_def)
    ultimately show ?thesis by (auto simp: upsert_tag_group_def bind_int_def known_def Let_def)
  qed
  moreover have "config_grows db1 t" if "upsert_tag_group g s = Inr t" "config_grows db1 s" for g s t
    using config_grows_trans [OF that(2)] upsert_tag_group_grows [OF that(1)] by blast
  ultimately obtain db2 where db2: "statements upsert_tag_group (gc_tag_groups c) db1 = Inr db2"
    using statements_upsert_total [of "gc_tag_groups c" "config_grows db1" upsert_tag_group db1] config_grows_refl by blast
  have known2: "known x (db_tag_groups db2)" if "x \<in> tg_id ` set (gc_tag_groups c)" for x
    using tag_group_upserts.statements_hold [OF db2] that by auto
  have "\<exists>u. upsert_tag t s = Inr u" if t: "t \<in> set (gc_tags c)" and s: "config_grows db2 s" for t s
  proof -
    have "tc_tag_group_id t \<in> tg_id ` set (gc_tag_groups c)"
      using assms(1) t by (force simp: gateway_config_ok_def references_ok_def image_image)
    then have "known (tc_tag_group_id t) (db_tag_groups s)" using known2 s by (simp add: config_grows_def)
    moreover have "\<exists>j. bind_json (tc_metadata t) = Inr j" using assms(2) t by (simp add: config_fits_def)
    ultimately show ?thesis by (auto simp: upsert_tag_def known_def Let_def)
  qed
  moreover have "config_grows db2 u" if "upsert_tag t s = Inr u" "config_grows db2 s" for t s u
    using config_grows_trans [OF that(2)] upsert_tag_grows [OF that(1)] by blast
  ultimately obtain db3 where db3: "statements upsert_tag (gc_tags c) db2 = Inr db3"
    using statements_upsert_total [of "gc_tags c" "config_grows db2" upsert_tag db2] config_grows_refl by blast
  show ?thesis using db1 db2 db3
    by (simp add: upsert_connections_def upsert_tag_groups_def upsert_tags_def commit_def)
qed

text \<open>Only such a configuration can be stored.\<close>

lemma statements_each:
  "statements f xs s = Inr t \<Longrightarrow> x \<in> set xs \<Longrightarrow> \<exists>u v. f x u = Inr v"
  by (induction xs arbitrary: s) auto

lemma upserts_fit:
  assumes "upsert_connections (gc_connections c) db = (db1, Inr ())"
    "upsert_tag_groups (gc_tag_groups c) db1 = (db2, Inr ())" "upsert_tags (gc_tags c) db2 = (db3, Inr ())"
  shows "config_fits c"
proof -
  have st: "statements upsert_connection (gc_connections c) db = Inr db1"
    "statements upsert_tag_group (gc_tag_groups c) db1 = Inr db2" "statements upsert_tag (gc_tags c) db2 = Inr db3"
    using assms by (simp_all add: upsert_connections_def upsert_tag_groups_def upsert_tags_def commit_unit)
  have "sqlite_int (cc_timeout_ms x) \<and> (\<exists>j. bind_json (cc_protocol_options x) = Inr j)" if "x \<in> set (gc_connections c)" for x
    using statements_each [OF st(1) that] by (auto simp: upsert_connection_def bind_int_def split: if_splits)
  moreover have "sqlite_int (tg_interval_ms g) \<and> sqlite_int (tg_timeout_ms g)" if "g \<in> set (gc_tag_groups c)" for g
    using statements_each [OF st(2) that] by (auto simp: upsert_tag_group_def bind_int_def split: if_splits)
  moreover have "\<exists>j. bind_json (tc_metadata t) = Inr j" if "t \<in> set (gc_tags c)" for t
    using statements_each [OF st(3) that] by (auto simp: upsert_tag_def)
  ultimately show ?thesis by (simp add: config_fits_def)
qed

text \<open>The poll results of the tags of a configuration.\<close>

definition polled_from :: "gateway_config \<Rightarrow> worker_poll_result \<Rightarrow> bool" where
  "polled_from c r \<longleftrightarrow> poll_result_ok r \<and> fits_sqlite r \<and>
     pe_connection_id (wp_execution r) \<in> cc_id ` set (gc_connections c) \<and>
     pe_tag_group_id (wp_execution r) \<in> tg_id ` set (gc_tag_groups c) \<and>
     tr_tag_id ` set (wp_results r) \<subseteq> tc_id ` set (gc_tags c)"

section \<open>Properties\<close>

text \<open>
  C12: a configuration that loads is valid: identifiers are unique, every reference resolves,
  and every connection, group and tag satisfies its invariant.
\<close>

theorem loaded_config_valid:
  assumes "load_gateway_config env path environ = Inr c" "\<forall>raw m. cf_validate env raw = Inr m \<longrightarrow> fields_ok m"
  shows "gateway_config_ok c"
  by (rule load_config_ok [OF assms])

text \<open>
  From the file to the database. A configuration that loads can be stored in any
  database, connections before groups before tags, and afterwards every batch of validated
  poll results of its tags is accepted.
\<close>

lemma loaded_config_stores_results:
  assumes "load_gateway_config env path environ = Inr c" "\<forall>raw m. cf_validate env raw = Inr m \<longrightarrow> fields_ok m"
    and "config_fits c" "\<forall>r \<in> set rs. polled_from c r"
  shows "\<exists>db1 db2 db3 db4 n. upsert_connections (gc_connections c) db = (db1, Inr ()) \<and>
    upsert_tag_groups (gc_tag_groups c) db1 = (db2, Inr ()) \<and> upsert_tags (gc_tags c) db2 = (db3, Inr ()) \<and>
    save_poll_results rs db3 = (db4, Inr n)"
proof -
  obtain db1 db2 db3 where ups: "upsert_connections (gc_connections c) db = (db1, Inr ())"
    "upsert_tag_groups (gc_tag_groups c) db1 = (db2, Inr ())" "upsert_tags (gc_tags c) db2 = (db3, Inr ())"
    using upserts_succeed [OF load_config_ok [OF assms(1,2)] assms(3)] by blast
  have "\<forall>r \<in> set rs. poll_result_ok r \<and> configured db3 r \<and> fits_sqlite r"
    using assms(4) configuration_prepares [OF ups] by (simp add: polled_from_def)
  then show ?thesis using ups save_poll_results_total by blast
qed

text \<open>
  C25: loading fails only with a ConfigurationError, whatever the content of the file, the environment and
  the validation give. The one exception is an error that reading the file raises and that is neither a missing file nor
  a JSON error (no permission, bytes that are not UTF-8): it comes through as it is.
\<close>

theorem load_errors_are_configuration_errors:
  assumes "load_gateway_config env path environ = Inl e"
  shows "exn_class e = ConfigurationError \<or> cf_read env path = JR_Error e"
  using assms
  by (auto simp: load_gateway_config_def rbind_Inl_iff
      dest: read_json_object_error apply_overrides_error model_validate_error to_domain_error)

text \<open>
  C26: overrides touch only what they name. Every connection keeps every field but those for
  which some variable names it; such a field is one of the three that may be overridden and
  has the value of the last such variable. Entries that are not objects stay as they are.
\<close>

theorem overrides_touch_only_named_fields:
  assumes "apply_overrides other environ raw = Inr raw'" "dict_get raw ''connections'' = Some (PList cs)"
  shows "\<exists>cs'. dict_get raw' ''connections'' = Some (PList cs') \<and> length cs' = length cs \<and>
    (\<forall>k. k \<noteq> PStr ''connections'' \<longrightarrow> map_of raw' k = map_of raw k) \<and>
    (\<forall>i < length cs. is_dict (cs' ! i) = is_dict (cs ! i) \<and> (\<not> is_dict (cs ! i) \<longrightarrow> cs' ! i = cs ! i) \<and>
       (is_dict (cs ! i) \<longrightarrow> (\<forall>f. case last_override (map (connection_key other) cs) (i, f) environ of
            None \<Rightarrow> map_of (the_dict (cs' ! i)) (PStr f) = map_of (the_dict (cs ! i)) (PStr f)
          | Some text \<Rightarrow> f \<in> {''endpoint'', ''enabled'', ''timeout_ms''} \<and>
              (\<exists>v. coerce_override_value f text = Inr v \<and> map_of (the_dict (cs' ! i)) (PStr f) = Some v))))"
proof -
  obtain cs' where cs': "statements (apply_override (map (connection_key other) cs)) environ cs = Inr cs'"
    "raw' = AList.update (PStr ''connections'') (PList cs') raw"
    using assms by (auto simp: apply_overrides_def)
  show ?thesis using overrides_effect [OF cs'(1)] cs'(2) by (intro exI [of _ cs']) (simp add: dict_get_def)
qed

section \<open>Witnesses\<close>

text \<open>
  A configuration file whose connection \<open>c\<close> has a password among its options and gets its
  time limit from the environment. The validation accepts the overridden object only.
\<close>

definition ex_raw_connection :: pydict where
  "ex_raw_connection = [(PStr ''id'', PStr ''c''), (PStr ''protocol'', PStr ''mock''),
     (PStr ''endpoint'', PStr ''mock://u:pw@h''),
     (PStr ''protocol_options'', PDict [(PStr ''password'', PStr ''pw'')])]"

definition ex_raw :: pydict where
  "ex_raw = [(PStr ''connections'', PList [PDict ex_raw_connection]), (PStr ''tags'', PList [])]"

definition ex_environ :: "(string \<times> string) list" where
  "ex_environ = [(''PATH'', ''/bin''), (''PLC_GATEWAY_CONNECTIONS__C__TIMEOUT_MS'', ''50''),
     (''PLC_GATEWAY_CONNECTIONS__c__timeout_ms'', '' 1_00 '')]"

definition ex_tag_model :: "string \<Rightarrow> value_type \<Rightarrow> tag_model" where
  "ex_tag_model i vt = \<lparr>tm_id = i, tm_tag_group_id = ''g'', tm_name = i, tm_address = i,
     tm_value_type = vt, tm_enabled = True, tm_metadata = []\<rparr>"

definition ex_model :: gateway_model where
  "ex_model = \<lparr>wm_connections = [\<lparr>cm_id = ''c'', cm_protocol = ''mock'', cm_endpoint = ''mock://u:pw@h'',
       cm_enabled = True, cm_timeout_ms = 100, cm_protocol_options = [(PStr ''password'', PStr ''pw'')]\<rparr>],
     wm_tag_groups = [\<lparr>gm_id = ''g'', gm_connection_id = ''c'', gm_interval_ms = 500, gm_timeout_ms = 100,
       gm_overlap_policy = OP_Skip, gm_enabled = True\<rparr>],
     wm_tags = [ex_tag_model ''t1'' VT_Binary, ex_tag_model ''t2'' VT_Integer]\<rparr>"

definition ex_validate :: "pydict \<Rightarrow> validation_error + gateway_model" where
  "ex_validate raw =
     (if dict_get raw ''connections'' =
         Some (PList [PDict (AList.update (PStr ''timeout_ms'') (PInt 100) ex_raw_connection)])
      then Inr ex_model
      else Inl \<lparr>ve_location = [''tags''], ve_message = ''List should have at least 1 item'', ve_errors = PList []\<rparr>)"

definition ex_config_env :: config_env where
  "ex_config_env = \<lparr>cf_read = \<lambda>p. JR_Loaded (PDict ex_raw), cf_str = \<lambda>v. '''', cf_validate = ex_validate\<rparr>"

lemma ex_load: "load_gateway_config ex_config_env ''/etc/gateway.JSON'' ex_environ = Inr (config_of ex_model)"
  by code_simp

lemma ex_validate_fields: "\<forall>raw m. cf_validate ex_config_env raw = Inr m \<longrightarrow> fields_ok m"
proof -
  have "fields_ok ex_model" by code_simp
  then show ?thesis by (simp add: ex_config_env_def ex_validate_def)
qed

theorem loaded_config_valid_witness: "gateway_config_ok (config_of ex_model)"
  using ex_load ex_validate_fields by (rule loaded_config_valid)

theorem load_errors_are_configuration_errors_witness:
  "\<exists>e. load_gateway_config ex_config_env ''gateway.json'' [] = Inl e \<and> exn_class e = ConfigurationError"
proof -
  have "(case load_gateway_config ex_config_env ''gateway.json'' [] of Inl e \<Rightarrow> True | Inr c \<Rightarrow> False)"
    by code_simp
  then obtain e where e: "load_gateway_config ex_config_env ''gateway.json'' [] = Inl e" by (auto split: sum.splits)
  moreover have "cf_read ex_config_env ''gateway.json'' \<noteq> JR_Error e" by (simp add: ex_config_env_def)
  ultimately show ?thesis using load_errors_are_configuration_errors by blast
qed

theorem overrides_touch_only_named_fields_witness:
  "\<exists>cs'. dict_get (case apply_overrides (\<lambda>v. '''') ex_environ ex_raw of Inr raw \<Rightarrow> raw) ''connections'' = Some (PList cs') \<and>
     length cs' = 1"
proof -
  have "apply_overrides (\<lambda>v. '''') ex_environ ex_raw =
      Inr (case apply_overrides (\<lambda>v. '''') ex_environ ex_raw of Inr raw \<Rightarrow> raw)" by code_simp
  moreover have "dict_get ex_raw ''connections'' = Some (PList [PDict ex_raw_connection])" by code_simp
  ultimately show ?thesis using overrides_touch_only_named_fields by fastforce
qed

text \<open>Two configurations that differ in their secrets, with a host in brackets, and a check of it.\<close>

definition ex_secrets :: "string \<Rightarrow> pyval \<Rightarrow> gateway_config" where
  "ex_secrets user password = (config_of ex_model)\<lparr>gc_connections := [\<lparr>cc_id = ''c'', cc_protocol = ''mock'',
     cc_endpoint = endpoint_with ''mock'' user ''[::1]:502'' ''/plc'', cc_enabled = True, cc_timeout_ms = 100,
     cc_protocol_options = [(PStr ''password'', password)]\<rparr>]\<rparr>"

definition ex_check_brackets :: "string \<Rightarrow> unit result" where
  "ex_check_brackets n =
     (if has_prefix ''['' (rev (takeWhile (\<lambda>c. c \<noteq> CHR ''@'') (rev n))) then Inr () else url_value_error ''Invalid IPv6 URL'')"

lemma ex_check_brackets_host: "checks_host ex_check_brackets"
proof -
  have "ex_check_brackets (u @ ''@'' @ h) = ex_check_brackets h" if h: "CHR ''@'' \<notin> set h" for u h :: string
  proof -
    have "takeWhile (\<lambda>c. c \<noteq> CHR ''@'') (rev h) = rev h"
      unfolding takeWhile_eq_all_conv using h by auto
    moreover have "takeWhile (\<lambda>c. c \<noteq> CHR ''@'') (rev (u @ ''@'' @ h)) = rev h"
      unfolding rev_append append_assoc using h by (subst takeWhile_append2) auto
    ultimately show ?thesis unfolding ex_check_brackets_def by (simp only:)
  qed
  then show ?thesis by (simp add: checks_host_def)
qed

theorem logs_reveal_no_secrets_witness:
  "safe_for_logging ex_check_brackets (ex_secrets ''u:pw'' (PStr ''pw'')) =
   safe_for_logging ex_check_brackets (ex_secrets ''admin:x'' (PList [])) \<and>
   (\<exists>v. safe_for_logging ex_check_brackets (ex_secrets ''u:pw'' (PStr ''pw'')) = Inr v)"
proof
  have ok: "endpoint_ok ''mock'' ''[::1]:502'' ''/plc''" "userinfo_ok ''u:pw''" "userinfo_ok ''admin:x''" by code_simp+
  have "endpoint_low_equal (endpoint_with ''mock'' ''u:pw'' ''[::1]:502'' ''/plc'')
      (endpoint_with ''mock'' ''admin:x'' ''[::1]:502'' ''/plc'')"
    unfolding endpoint_low_equal_def using ok by blast
  moreover have "low_equal_mapping [(PStr ''password'', PStr ''pw'')] [(PStr ''password'', PList [])]" by code_simp
  ultimately have "config_low_equal (ex_secrets ''u:pw'' (PStr ''pw'')) (ex_secrets ''admin:x'' (PList []))"
    by (simp add: config_low_equal_def connection_low_equal_def ex_secrets_def config_of_def ex_model_def
        tag_low_equal_def tag_of_def ex_tag_model_def)
  moreover have "config_string_keys (ex_secrets ''u:pw'' (PStr ''pw''))" "config_string_keys (ex_secrets ''admin:x'' (PList []))"
    by code_simp+
  ultimately show "safe_for_logging ex_check_brackets (ex_secrets ''u:pw'' (PStr ''pw'')) =
      safe_for_logging ex_check_brackets (ex_secrets ''admin:x'' (PList []))"
    using ex_check_brackets_host by (rule logs_reveal_no_secrets)
  have "case safe_for_logging ex_check_brackets (ex_secrets ''u:pw'' (PStr ''pw'')) of Inl e \<Rightarrow> False | Inr v \<Rightarrow> True"
    by code_simp
  then show "\<exists>v. safe_for_logging ex_check_brackets (ex_secrets ''u:pw'' (PStr ''pw'')) = Inr v" by (auto split: sum.splits)
qed

end
