(* ===== verification/Licenses.thy ===== *)
theory Licenses
  imports Config
begin

text \<open>
  src/plc_gateway/license_info.py, build_info.py and _version.py: the build information and
  the license report, read from the bundled \<^verbatim>\<open>credits.json\<close>. Reading and parsing that file
  is an argument: the value \<^verbatim>\<open>json.loads\<close> returns or the error that the read raises. \<open>other\<close>
  is \<^verbatim>\<open>str\<close> of values that are neither strings, integers nor booleans.

  Shown: when a report loads, and which errors it raises otherwise; that the bundled file is
  the one the generator wrote is a matter of the theory of the generator.
\<close>

section \<open>Version and build\<close>

definition get_version :: string where
  "get_version = ''0.1.0''"

record build_info =
  bi_version :: string
  bi_commit_sha :: "string option"

text \<open>\<^verbatim>\<open>environ.get(name) or None\<close>: an empty variable counts as unset.\<close>

definition environ_or_none :: "(string \<times> string) list \<Rightarrow> string \<Rightarrow> string option" where
  "environ_or_none environ k =
     (case map_of environ k of None \<Rightarrow> None | Some s \<Rightarrow> if s = [] then None else Some s)"

definition get_build_info :: "(string \<times> string) list \<Rightarrow> build_info" where
  "get_build_info environ =
     \<lparr>bi_version = get_version, bi_commit_sha = environ_or_none environ ''PLC_GATEWAY_COMMIT_SHA''\<rparr>"

section \<open>The report\<close>

record project_license =
  pl_status :: string
  pl_name :: string
  pl_spdx_id :: string
  pl_license_file :: string

record dependency_credit =
  dc_name :: string
  dc_version :: string
  dc_purpose :: string
  dc_license :: string
  dc_source :: string
  dc_copyright_notice :: string
  dc_bundled_in_distribution :: bool
  dc_notes :: string

record license_report =
  lr_project :: project_license
  lr_build :: build_info
  lr_third_party_notices_file :: string
  lr_dependencies :: "dependency_credit list"

definition get_project_license :: project_license where
  "get_project_license =
     \<lparr>pl_status = ''selected'', pl_name = ''PLC Collector Proprietary License Notice'',
      pl_spdx_id = ''LicenseRef-PLC-Gateway-Proprietary'', pl_license_file = ''LICENSE''\<rparr>"

definition third_party_notices_file :: string where
  "third_party_notices_file = ''THIRD_PARTY_NOTICES.md''"

text \<open>\<^verbatim>\<open>bool(value)\<close> of a JSON value and \<^verbatim>\<open>item[key]\<close>\<close>

fun py_truth :: "pyval \<Rightarrow> bool" where
  "py_truth PNone = False"
| "py_truth (PBool b) = b"
| "py_truth (PInt n) = (n \<noteq> 0)"
| "py_truth (PFloat f) = (f \<noteq> Fin 0)"
| "py_truth (PStr s) = (s \<noteq> [])"
| "py_truth (PBytes b) = (b \<noteq> [])"
| "py_truth (PByteArray b) = (b \<noteq> [])"
| "py_truth (PTuple xs) = (xs \<noteq> [])"
| "py_truth (PList xs) = (xs \<noteq> [])"
| "py_truth (PDict d) = (d \<noteq> [])"
| "py_truth (POther c) = True"

definition item_at :: "pydict \<Rightarrow> string \<Rightarrow> pyval result" where
  "item_at d k = (case dict_get d k of None \<Rightarrow> Inl (exn PyKeyError (quoted k)) | Some v \<Rightarrow> Inr v)"

definition str_at :: "(pyval \<Rightarrow> string) \<Rightarrow> pydict \<Rightarrow> string \<Rightarrow> string result" where
  "str_at other d k = rbind (item_at d k) (\<lambda>v. Inr (py_str other v))"

definition credit_error :: "string \<Rightarrow> 'a result" where
  "credit_error m = Inl (exn PyRuntimeError m)"

definition dependency_credit_of :: "(pyval \<Rightarrow> string) \<Rightarrow> pyval \<Rightarrow> dependency_credit result" where
  "dependency_credit_of other v =
     (case v of
        PDict item \<Rightarrow>
          rbind (str_at other item ''name'') (\<lambda>name.
          rbind (str_at other item ''version'') (\<lambda>version.
          rbind (str_at other item ''purpose'') (\<lambda>purpose.
          rbind (str_at other item ''license'') (\<lambda>license.
          rbind (str_at other item ''source'') (\<lambda>source.
          rbind (str_at other item ''copyright_notice'') (\<lambda>copyright_notice.
          rbind (item_at item ''bundled_in_distribution'') (\<lambda>bundled.
          rbind (str_at other item ''notes'') (\<lambda>notes.
            Inr \<lparr>dc_name = name, dc_version = version, dc_purpose = purpose, dc_license = license,
              dc_source = source, dc_copyright_notice = copyright_notice,
              dc_bundled_in_distribution = py_truth bundled, dc_notes = notes\<rparr>))))))))
      | _ \<Rightarrow> credit_error ''credits.json dependency entries must be objects.'')"

definition load_credits_json :: "pyval result \<Rightarrow> pydict result" where
  "load_credits_json loaded =
     rbind loaded (\<lambda>v. case v of
        PDict d \<Rightarrow> Inr d
      | _ \<Rightarrow> credit_error ''credits.json must contain an object.'')"

definition load_license_report ::
  "(pyval \<Rightarrow> string) \<Rightarrow> (string \<times> string) list \<Rightarrow> pyval result \<Rightarrow> license_report result" where
  "load_license_report other environ loaded =
     rbind (load_credits_json loaded) (\<lambda>credits.
     case dict_get credits ''dependencies'' of
       Some (PList items) \<Rightarrow>
         rbind (rmap (dependency_credit_of other) items) (\<lambda>dependencies.
           Inr \<lparr>lr_project = get_project_license, lr_build = get_build_info environ,
             lr_third_party_notices_file = third_party_notices_file, lr_dependencies = dependencies\<rparr>)
     | _ \<Rightarrow> credit_error ''credits.json dependencies must contain a list.'')"

section \<open>The report as JSON\<close>

definition opt_str :: "string option \<Rightarrow> pyval" where
  "opt_str s = (case s of None \<Rightarrow> PNone | Some t \<Rightarrow> PStr t)"

definition build_info_dict :: "build_info \<Rightarrow> pyval" where
  "build_info_dict b = PDict [(PStr ''version'', PStr (bi_version b)), (PStr ''commit_sha'', opt_str (bi_commit_sha b))]"

definition project_license_dict :: "project_license \<Rightarrow> pyval" where
  "project_license_dict p = PDict
     [(PStr ''status'', PStr (pl_status p)), (PStr ''name'', PStr (pl_name p)),
      (PStr ''spdx_id'', PStr (pl_spdx_id p)), (PStr ''license_file'', PStr (pl_license_file p))]"

definition dependency_credit_dict :: "dependency_credit \<Rightarrow> pyval" where
  "dependency_credit_dict c = PDict
     [(PStr ''name'', PStr (dc_name c)), (PStr ''version'', PStr (dc_version c)),
      (PStr ''purpose'', PStr (dc_purpose c)), (PStr ''license'', PStr (dc_license c)),
      (PStr ''source'', PStr (dc_source c)), (PStr ''copyright_notice'', PStr (dc_copyright_notice c)),
      (PStr ''bundled_in_distribution'', PBool (dc_bundled_in_distribution c)), (PStr ''notes'', PStr (dc_notes c))]"

definition license_report_dict :: "license_report \<Rightarrow> pyval" where
  "license_report_dict r = PDict
     [(PStr ''project'', project_license_dict (lr_project r)), (PStr ''build'', build_info_dict (lr_build r)),
      (PStr ''third_party_notices_file'', PStr (lr_third_party_notices_file r)),
      (PStr ''dependencies'', PList (map dependency_credit_dict (lr_dependencies r)))]"

section \<open>JSON text with sorted keys\<close>

text \<open>
  \<^verbatim>\<open>json.dumps(value, sort_keys=True)\<close>, as the value that \<^verbatim>\<open>json.loads\<close> reads back
  from its text: the same value with the entries of every object in the order of their keys.
\<close>

definition entry_key :: "pyval \<times> pyval \<Rightarrow> string" where
  "entry_key p = (case fst p of PStr k \<Rightarrow> k | _ \<Rightarrow> [])"

fun with_sorted_keys :: "pyval \<Rightarrow> pyval"
  and items_with_sorted_keys :: "pyval list \<Rightarrow> pyval list"
  and entries_with_sorted_keys :: "(pyval \<times> pyval) list \<Rightarrow> (pyval \<times> pyval) list" where
  "with_sorted_keys (PDict d) = PDict (sort_key entry_key (entries_with_sorted_keys d))"
| "with_sorted_keys (PList xs) = PList (items_with_sorted_keys xs)"
| "with_sorted_keys v = v"
| "items_with_sorted_keys [] = []"
| "items_with_sorted_keys (x # xs) = with_sorted_keys x # items_with_sorted_keys xs"
| "entries_with_sorted_keys [] = []"
| "entries_with_sorted_keys ((k, v) # d) = (k, with_sorted_keys v) # entries_with_sorted_keys d"

section \<open>Lemmas\<close>

lemma dependency_credit_of_dict [simp]:
  "dependency_credit_of other (dependency_credit_dict c) = Inr c"
  by (simp add: dependency_credit_of_def dependency_credit_dict_def str_at_def item_at_def dict_get_def py_str_def)

lemma read_dependency_dicts [simp]:
  "rmap (dependency_credit_of other) (map dependency_credit_dict cs) = Inr cs"
  by (induction cs) simp_all

text \<open>The \<^verbatim>\<open>to_dict\<close> of a report is again a readable credits object with the same dependencies.\<close>

lemma load_report_dict:
  "load_license_report other environ (Inr (license_report_dict r)) =
     Inr \<lparr>lr_project = get_project_license, lr_build = get_build_info environ,
       lr_third_party_notices_file = third_party_notices_file, lr_dependencies = lr_dependencies r\<rparr>"
  by (simp add: load_license_report_def load_credits_json_def license_report_dict_def dict_get_def)

text \<open>Dependencies are read in order, and every one has all eight entries.\<close>

lemma load_report_dependencies:
  assumes "load_license_report other environ (Inr (PDict credits)) = Inr rep"
  shows "\<exists>items. dict_get credits ''dependencies'' = Some (PList items) \<and>
    list_all2 (\<lambda>v c. dependency_credit_of other v = Inr c) items (lr_dependencies rep)"
proof -
  obtain items where items: "dict_get credits ''dependencies'' = Some (PList items)"
    using assms by (auto simp: load_license_report_def load_credits_json_def credit_error_def
        split: option.splits pyval.splits)
  then show ?thesis
    using assms by (auto simp: load_license_report_def load_credits_json_def intro: rmap_Inr_all)
qed

lemma dict_get_sort_key [simp]:
  assumes "distinct (map fst d)"
  shows "dict_get (sort_key f d) k = dict_get d k"
proof -
  have "inj_on fst (set d)" "distinct d" using assms by (simp_all add: distinct_map)
  then have "distinct (map fst (sort_key f d))" by (simp add: distinct_map)
  then have "map_of (sort_key f d) = map_of d" using assms by (simp add: map_of_inject_set)
  then show ?thesis by (simp add: dict_get_def)
qed

lemma items_with_sorted_keys_map [simp]: "items_with_sorted_keys xs = map with_sorted_keys xs"
  by (induction xs) auto

end
