(* ===== verification/Logging.thy ===== *)
theory Logging
  imports Licenses
begin

text \<open>
  src/plc_gateway/app/logging.py: the formatter, which gives one JSON object per record, and
  the set-up of the root logger. Opening the log file, with its directory, is a parameter.

  Shown: what a line contains, and that a failed set-up leaves the logger alone.
\<close>

text \<open>
  A log record; \<open>lg_extra\<close> are the attributes given by \<^verbatim>\<open>extra\<close>. The formatted time and the
  formatted exception are the logging library's.
\<close>

record log_record =
  lg_level :: string
  lg_logger :: string
  lg_message :: string
  lg_timestamp :: string
  lg_exception :: "string option"
  lg_extra :: pydict

definition format_record :: "log_record \<Rightarrow> pyval" where
  "format_record r = with_sorted_keys (PDict
     ([(PStr ''level'', PStr (lg_level r)), (PStr ''logger'', PStr (lg_logger r)), (PStr ''message'', PStr (lg_message r)),
       (PStr ''timestamp'', PStr (lg_timestamp r))] @
      (case lg_exception r of None \<Rightarrow> [] | Some e \<Rightarrow> [(PStr ''exception'', PStr e)])))"

datatype log_handler = LH_Stream | LH_File string | LH_Foreign nat

record root_logger =
  rl_level :: nat
  rl_handlers :: "log_handler list"

definition level_of_name :: "string \<Rightarrow> nat option" where
  "level_of_name n =
     map_of [(''CRITICAL'', 50), (''FATAL'', 50), (''ERROR'', 40), (''WARN'', 30), (''WARNING'', 30), (''INFO'', 20),
       (''DEBUG'', 10), (''NOTSET'', 0)] n"

text \<open>The upper-case name as characters, if it has any outside Latin-1 no level has that name.\<close>

definition level_of :: "string \<Rightarrow> nat option" where
  "level_of name = (let up = py_upper name in if \<forall>c \<in> set up. c < 256 then level_of_name (map char_of up) else None)"

definition configure_logging ::
  "(string \<Rightarrow> unit result) \<Rightarrow> string \<Rightarrow> string option \<Rightarrow> root_logger \<Rightarrow> root_logger \<times> unit result" where
  "configure_logging open_file level_name log_file lg =
     (case level_of level_name of
        None \<Rightarrow> (lg, Inl (exn PyValueError (''Unsupported log level: '' @ level_name)))
      | Some level \<Rightarrow>
          (case log_file of
             None \<Rightarrow> (\<lparr>rl_level = level, rl_handlers = [LH_Stream]\<rparr>, Inr ())
           | Some f \<Rightarrow>
               (case open_file f of
                  Inl e \<Rightarrow> (lg, Inl e)
                | Inr _ \<Rightarrow> (\<lparr>rl_level = level, rl_handlers = [LH_Stream, LH_File f]\<rparr>, Inr ()))))"

text \<open>The context given by \<^verbatim>\<open>extra\<close> never reaches a line.\<close>

lemma format_record_ignores_extra: "format_record (r\<lparr>lg_extra := x\<rparr>) = format_record r"
  by (simp add: format_record_def)

lemma configure_logging_cases:
  "configure_logging open_file level_name log_file lg = (lg', r) \<Longrightarrow>
     (case r of
        Inl e \<Rightarrow> lg' = lg
      | Inr u \<Rightarrow> level_of level_name = Some (rl_level lg') \<and>
          rl_handlers lg' = LH_Stream # (case log_file of None \<Rightarrow> [] | Some f \<Rightarrow> [LH_File f]))"
  by (auto simp: configure_logging_def split: option.splits sum.splits)

end
