(* ===== verification/Service.thy ===== *)
theory Service
  imports Logging
begin

text \<open>
  src/plc_gateway/app/service.py: the paths of the service, the PID file, the signal handlers
  and the host that waits for a stop. Parameters: the environment of the process, the platform
  and the home directory, \<^verbatim>\<open>Path(text).expanduser().resolve()\<close>, and the failures of the file
  system, of opening the log file and of the signal functions. The files are those under the PID
  file paths, as a map from paths to contents.

  Shown: on every way out of the host the signal handlers are given back and its PID file is
  gone, and what the paths default to.
\<close>

section \<open>Paths\<close>

text \<open>A path argument: text, of which the empty one counts as missing, or a path object.\<close>

datatype path_arg = Path_Text string | Path_Object string

definition path_truth :: "path_arg option \<Rightarrow> string option" where
  "path_truth v = (case v of
     None \<Rightarrow> None | Some (Path_Text s) \<Rightarrow> if s = [] then None else Some s | Some (Path_Object p) \<Rightarrow> Some p)"

record platform =
  pt_windows :: bool
  pt_home :: "string result"
  pt_resolve :: "string \<Rightarrow> string result"

definition path_join :: "platform \<Rightarrow> string \<Rightarrow> string \<Rightarrow> string" where
  "path_join pt a b =
     (let sep = (if pt_windows pt then CHR 0x5C else CHR ''/'')
      in if a \<noteq> [] \<and> last a = sep then a @ b else a @ [sep] @ b)"

definition default_data_dir :: "platform \<Rightarrow> (string \<times> string) list \<Rightarrow> string result" where
  "default_data_dir pt environ =
     (if pt_windows pt then
        (case environ_or_none environ ''PROGRAMDATA'' of
           Some base \<Rightarrow> Inr (path_join pt base ''PLC Collector'')
         | None \<Rightarrow> rbind (pt_home pt) (\<lambda>h.
             Inr (path_join pt (path_join pt (path_join pt h ''AppData'') ''Local'') ''PLC Collector'')))
      else
        (case environ_or_none environ ''XDG_STATE_HOME'' of
           Some state_home \<Rightarrow> Inr (path_join pt state_home ''plc-gateway'')
         | None \<Rightarrow> rbind (pt_home pt) (\<lambda>h.
             Inr (path_join pt (path_join pt (path_join pt h ''.local'') ''state'') ''plc-gateway''))))"

definition path_from_value :: "platform \<Rightarrow> path_arg option \<Rightarrow> string option \<Rightarrow> string \<Rightarrow> string result" where
  "path_from_value pt cli_value env_value dflt =
     pt_resolve pt (case path_truth cli_value of
        Some p \<Rightarrow> p
      | None \<Rightarrow> (case env_value of None \<Rightarrow> dflt | Some s \<Rightarrow> if s = [] then dflt else s))"

text \<open>\<^verbatim>\<open>config_file or env.get(...)\<close> is the variable itself, even when it is empty.\<close>

definition optional_path :: "platform \<Rightarrow> string option \<Rightarrow> string option result" where
  "optional_path pt v =
     (case v of None \<Rightarrow> Inr None | Some s \<Rightarrow> rbind (pt_resolve pt s) (\<lambda>p. Inr (Some p)))"

record service_paths =
  sv_data_dir :: string
  sv_log_dir :: string
  sv_run_dir :: string
  sv_config_file :: "string option"
  sv_pid_file :: "string option"
  sv_log_file :: "string option"

record path_values =
  pv_data_dir :: "path_arg option"
  pv_log_dir :: "path_arg option"
  pv_run_dir :: "path_arg option"
  pv_config_file :: "path_arg option"
  pv_pid_file :: "path_arg option"
  pv_log_file :: "path_arg option"

definition paths_from_values :: "platform \<Rightarrow> (string \<times> string) list \<Rightarrow> path_values \<Rightarrow> service_paths result" where
  "paths_from_values pt environ v =
     rbind (default_data_dir pt environ) (\<lambda>default_dir.
     rbind (path_from_value pt (pv_data_dir v) (map_of environ ''PLC_GATEWAY_DATA_DIR'') default_dir) (\<lambda>data_dir.
     rbind (path_from_value pt (pv_log_dir v) (map_of environ ''PLC_GATEWAY_LOG_DIR'') (path_join pt data_dir ''logs'')) (\<lambda>log_dir.
     rbind (path_from_value pt (pv_run_dir v) (map_of environ ''PLC_GATEWAY_RUN_DIR'') (path_join pt data_dir ''run'')) (\<lambda>run_dir.
     rbind (optional_path pt (case path_truth (pv_config_file v) of
         Some p \<Rightarrow> Some p | None \<Rightarrow> map_of environ ''PLC_GATEWAY_CONFIG'')) (\<lambda>config_file.
     rbind (path_from_value pt (pv_pid_file v) (map_of environ ''PLC_GATEWAY_PID_FILE'')
         (path_join pt run_dir ''plc-gateway.pid'')) (\<lambda>pid_file.
     rbind (path_from_value pt (pv_log_file v) (map_of environ ''PLC_GATEWAY_LOG_FILE'')
         (path_join pt log_dir ''plc-gateway.log'')) (\<lambda>log_file.
       Inr \<lparr>sv_data_dir = data_dir, sv_log_dir = log_dir, sv_run_dir = run_dir, sv_config_file = config_file,
         sv_pid_file = Some pid_file, sv_log_file = Some log_file\<rparr>)))))))"

text \<open>
  Without an option, an empty PLC_GATEWAY_CONFIG does not mean no file: the working directory,
  which is what the empty path resolves to, becomes the configuration file.
\<close>

lemma empty_config_variable:
  assumes "paths_from_values pt environ v = Inr p" "path_truth (pv_config_file v) = None"
    and "map_of environ ''PLC_GATEWAY_CONFIG'' = Some []"
  shows "\<exists>q. pt_resolve pt [] = Inr q \<and> sv_config_file p = Some q"
  using assms by (auto simp: paths_from_values_def optional_path_def)

section \<open>The host\<close>

text \<open>
  What a signal is handled by: the default of the platform, the loop, the fallback function,
  or some handler from before, known by a number.
\<close>

datatype handler = H_Default | H_Loop | H_Event | H_Other nat

datatype shutdown_signal = SIGTERM | SIGINT | SIGBREAK

text \<open>
  The failures of the calls: \<^verbatim>\<open>mkdir\<close>, \<^verbatim>\<open>write_text\<close>, \<^verbatim>\<open>unlink\<close>, opening the log file and the
  signal functions; then how the wait for the stop event ends and the id of the process. A write
  that fails may have opened the file and leave part of the text in it.
\<close>

record host_env =
  he_mkdir :: "string \<Rightarrow> unit result"
  he_write :: "string \<Rightarrow> (pyexn \<times> string option) option"
  he_unlink :: "string \<Rightarrow> unit result"
  he_open_log :: "string \<Rightarrow> unit result"
  he_has_sigbreak :: bool
  he_add_handler :: "shutdown_signal \<Rightarrow> unit result"
  he_remove_handler :: "shutdown_signal \<Rightarrow> unit result"
  he_signal :: "shutdown_signal \<Rightarrow> unit result"
  he_wait :: "unit outcome"
  he_pid :: int

record host =
  ho_files :: "(string \<times> string) list"
  ho_handlers :: "shutdown_signal \<Rightarrow> handler"
  ho_root :: root_logger

record pid_file =
  pf_path :: string
  pf_written :: bool

definition parent_dir :: "platform \<Rightarrow> string \<Rightarrow> string" where
  "parent_dir pt p =
     (let sep = (if pt_windows pt then CHR 0x5C else CHR ''/'');
          up = rev (drop 1 (dropWhile (\<lambda>c. c \<noteq> sep) (rev p)))
      in if up = [] then (if p \<noteq> [] \<and> hd p = sep then [sep] else ''.'') else up)"

definition pid_write :: "platform \<Rightarrow> host_env \<Rightarrow> pid_file \<Rightarrow> host \<Rightarrow> (pid_file \<times> host) \<times> unit outcome" where
  "pid_write pt env f h =
     (case he_mkdir env (parent_dir pt (pf_path f)) of
        Inl e \<Rightarrow> ((f, h), Raise e)
      | Inr _ \<Rightarrow>
          (case he_write env (pf_path f) of
             Some (e, left) \<Rightarrow>
               ((f, case left of None \<Rightarrow> h | Some t \<Rightarrow> h\<lparr>ho_files := AList.update (pf_path f) t (ho_files h)\<rparr>), Raise e)
           | None \<Rightarrow>
               ((f\<lparr>pf_written := True\<rparr>,
                 h\<lparr>ho_files := AList.update (pf_path f) (show_int (he_pid env) @ [char_of (10 :: nat)]) (ho_files h)\<rparr>), Ret ())))"

definition not_found_error :: "string \<Rightarrow> pyexn" where
  "not_found_error p = exn (OtherError ''FileNotFoundError'') p"

definition pid_remove :: "host_env \<Rightarrow> pid_file \<Rightarrow> host \<Rightarrow> (pid_file \<times> host) \<times> unit outcome" where
  "pid_remove env f h =
     (if \<not> pf_written f then ((f, h), Ret ())
      else
        (case (if map_of (ho_files h) (pf_path f) = None then Inl (not_found_error (pf_path f))
               else he_unlink env (pf_path f)) of
           Inr _ \<Rightarrow> ((f\<lparr>pf_written := False\<rparr>, h\<lparr>ho_files := AList.delete (pf_path f) (ho_files h)\<rparr>), Ret ())
         | Inl e \<Rightarrow>
             ((f\<lparr>pf_written := False\<rparr>, h),
              if exn_class e = OtherError ''FileNotFoundError'' then Ret () else Raise e)))"

definition shutdown_signals :: "platform \<Rightarrow> host_env \<Rightarrow> shutdown_signal list" where
  "shutdown_signals pt env = [SIGTERM, SIGINT] @ (if pt_windows pt \<and> he_has_sigbreak env then [SIGBREAK] else [])"

text \<open>A clean-up callback: remove the handler of the loop, or restore the handler of before.\<close>

datatype callback = CB_Remove shutdown_signal | CB_Restore shutdown_signal handler

definition set_handler :: "shutdown_signal \<Rightarrow> handler \<Rightarrow> host \<Rightarrow> host" where
  "set_handler s k h = h\<lparr>ho_handlers := (ho_handlers h)(s := k)\<rparr>"

definition unsupported :: "pyexn \<Rightarrow> bool" where
  "unsupported e \<longleftrightarrow> exn_class e = OtherError ''NotImplementedError'' \<or> exn_class e = PyRuntimeError"

fun install_handlers :: "host_env \<Rightarrow> shutdown_signal list \<Rightarrow> callback list \<Rightarrow> host \<Rightarrow> host \<times> callback list result" where
  "install_handlers env [] cbs h = (h, Inr cbs)"
| "install_handlers env (s # ss) cbs h =
     (case he_add_handler env s of
        Inr _ \<Rightarrow> install_handlers env ss (cbs @ [CB_Remove s]) (set_handler s H_Loop h)
      | Inl e \<Rightarrow>
          if \<not> unsupported e then (h, Inl e)
          else case he_signal env s of
              Inl e' \<Rightarrow> (h, Inl e')
            | Inr _ \<Rightarrow>
                install_handlers env ss (cbs @ [CB_Restore s (ho_handlers h s)]) (set_handler s H_Event h))"

definition install_signal_handlers :: "platform \<Rightarrow> host_env \<Rightarrow> host \<Rightarrow> host \<times> callback list result" where
  "install_signal_handlers pt env h = install_handlers env (shutdown_signals pt env) [] h"

definition run_callback :: "host_env \<Rightarrow> callback \<Rightarrow> host \<Rightarrow> host \<times> unit result" where
  "run_callback env cb h =
     (case cb of
        CB_Remove s \<Rightarrow> (case he_remove_handler env s of Inl e \<Rightarrow> (h, Inl e) | Inr _ \<Rightarrow> (set_handler s H_Default h, Inr ()))
      | CB_Restore s k \<Rightarrow> (case he_signal env s of Inl e \<Rightarrow> (h, Inl e) | Inr _ \<Rightarrow> (set_handler s k h, Inr ())))"

fun run_callbacks :: "host_env \<Rightarrow> callback list \<Rightarrow> host \<Rightarrow> host \<times> unit result" where
  "run_callbacks env [] h = (h, Inr ())"
| "run_callbacks env (cb # cbs) h =
     (case run_callback env cb h of (h1, Inl e) \<Rightarrow> (h1, Inl e) | (h1, Inr _) \<Rightarrow> run_callbacks env cbs h1)"

text \<open>The \<^verbatim>\<open>finally\<close> block: an error of its own replaces how the body ended.\<close>

definition host_cleanup :: "host_env \<Rightarrow> callback list \<Rightarrow> pid_file \<Rightarrow> host \<Rightarrow> int outcome \<Rightarrow> host \<times> int outcome" where
  "host_cleanup env cbs f h out =
     (case run_callbacks env cbs h of
        (h1, Inl e) \<Rightarrow> (h1, Raise e)
      | (h1, Inr _) \<Rightarrow>
          (case pid_remove env f h1 of
             ((f', h2), Ret _) \<Rightarrow> (h2, out)
           | ((f', h2), Raise e) \<Rightarrow> (h2, Raise e)
           | ((f', h2), Cancelled) \<Rightarrow> (h2, Cancelled)))"

definition ensure_directories :: "host_env \<Rightarrow> service_paths \<Rightarrow> unit result" where
  "ensure_directories env p =
     rbind (he_mkdir env (sv_data_dir p)) (\<lambda>_. rbind (he_mkdir env (sv_log_dir p)) (\<lambda>_. he_mkdir env (sv_run_dir p)))"

definition pid_file_path :: "platform \<Rightarrow> service_paths \<Rightarrow> string" where
  "pid_file_path pt p = (case sv_pid_file p of Some f \<Rightarrow> f | None \<Rightarrow> path_join pt (sv_run_dir p) ''plc-gateway.pid'')"

definition start_host :: "host_env \<Rightarrow> service_paths \<Rightarrow> string \<Rightarrow> host \<Rightarrow> host \<times> unit result" where
  "start_host env p log_level h =
     (case ensure_directories env p of
        Inl e \<Rightarrow> (h, Inl e)
      | Inr _ \<Rightarrow>
          (case configure_logging (he_open_log env) log_level (sv_log_file p) (ho_root h) of
             (root', r) \<Rightarrow> (h\<lparr>ho_root := root'\<rparr>, r)))"

definition run_service_until_stopped ::
  "platform \<Rightarrow> host_env \<Rightarrow> service_paths \<Rightarrow> string \<Rightarrow> host \<Rightarrow> host \<times> int outcome" where
  "run_service_until_stopped pt env p log_level h =
     (case start_host env p log_level h of
        (h0, Inl e) \<Rightarrow> (h0, Raise e)
      | (h0, Inr _) \<Rightarrow>
          (case install_signal_handlers pt env h0 of
             (h1, Inl e) \<Rightarrow> (h1, Raise e)
           | (h1, Inr cbs) \<Rightarrow>
               (case pid_write pt env \<lparr>pf_path = pid_file_path pt p, pf_written = False\<rparr> h1 of
                  ((f, h2), Ret _) \<Rightarrow>
                    host_cleanup env cbs f h2
                      (case he_wait env of Ret _ \<Rightarrow> Ret 0 | Raise e \<Rightarrow> Raise e | Cancelled \<Rightarrow> Cancelled)
                | ((f, h2), Raise e) \<Rightarrow> host_cleanup env cbs f h2 (Raise e)
                | ((f, h2), Cancelled) \<Rightarrow> host_cleanup env cbs f h2 Cancelled)))"

section \<open>Signal handlers are given back\<close>

definition callback_for :: "host_env \<Rightarrow> (shutdown_signal \<Rightarrow> handler) \<Rightarrow> shutdown_signal \<Rightarrow> callback" where
  "callback_for env before s =
     (if he_add_handler env s = Inr () then CB_Remove s else CB_Restore s (before s))"

text \<open>The clean-up calls work, and adding a handler fails only where the platform does not support it.\<close>

definition signals_work :: "host_env \<Rightarrow> bool" where
  "signals_work env \<longleftrightarrow> (\<forall>s. he_remove_handler env s = Inr () \<and> he_signal env s = Inr () \<and>
     (\<forall>e. he_add_handler env s = Inl e \<longrightarrow> unsupported e))"

lemma install_handlers_all:
  "signals_work env \<Longrightarrow> distinct ss \<Longrightarrow>
   install_handlers env ss cbs h =
     (h\<lparr>ho_handlers := (\<lambda>s. if s \<in> set ss then if he_add_handler env s = Inr () then H_Loop else H_Event
        else ho_handlers h s)\<rparr>, Inr (cbs @ map (callback_for env (ho_handlers h)) ss))"
proof (induction ss arbitrary: cbs h)
  case (Cons s ss)
  have others: "map (callback_for env ((ho_handlers h)(s := k))) ss = map (callback_for env (ho_handlers h)) ss" for k
    using Cons.prems(2) by (auto simp: callback_for_def)
  have step: "install_handlers env (s # ss) cbs h =
      install_handlers env ss (cbs @ [callback_for env (ho_handlers h) s])
        (set_handler s (if he_add_handler env s = Inr () then H_Loop else H_Event) h)"
    using Cons.prems(1) by (cases "he_add_handler env s") (auto simp: signals_work_def callback_for_def)
  show ?case unfolding step
    using Cons.IH [OF Cons.prems(1), of "cbs @ [callback_for env (ho_handlers h) s]"] Cons.prems(2)
    by (auto simp: others set_handler_def fun_eq_iff)
qed simp

lemma run_callbacks_all:
  "signals_work env \<Longrightarrow>
   run_callbacks env (map (callback_for env before) ss) h =
     (h\<lparr>ho_handlers := (\<lambda>s. if s \<in> set ss then if he_add_handler env s = Inr () then H_Default else before s
        else ho_handlers h s)\<rparr>, Inr ())"
proof (induction ss arbitrary: h)
  case (Cons s ss)
  have "run_callback env (callback_for env before s) h =
      (set_handler s (if he_add_handler env s = Inr () then H_Default else before s) h, Inr ())"
    using Cons.prems by (simp add: run_callback_def callback_for_def signals_work_def)
  then show ?case using Cons by (auto simp: set_handler_def fun_eq_iff)
qed simp

lemma shutdown_signals_distinct: "distinct (shutdown_signals pt env)"
  by (simp add: shutdown_signals_def)

section \<open>Properties\<close>

text \<open>The host starts if its directories and the logging can be set up, and then writes its PID file.\<close>

definition host_starts :: "host_env \<Rightarrow> service_paths \<Rightarrow> string \<Rightarrow> bool" where
  "host_starts env p log_level \<longleftrightarrow> ensure_directories env p = Inr () \<and> level_of log_level \<noteq> None \<and>
     (case sv_log_file p of None \<Rightarrow> True | Some f \<Rightarrow> he_open_log env f = Inr ())"

lemma start_host_cases:
  "host_starts env p log_level \<Longrightarrow> \<exists>root'. start_host env p log_level h = (h\<lparr>ho_root := root'\<rparr>, Inr ())"
  "\<not> host_starts env p log_level \<Longrightarrow> \<exists>e. start_host env p log_level h = (h, Inl e)"
  by (auto simp: host_starts_def start_host_def configure_logging_def split: sum.splits option.splits)

definition pid_file_writable :: "platform \<Rightarrow> host_env \<Rightarrow> service_paths \<Rightarrow> bool" where
  "pid_file_writable pt env p \<longleftrightarrow>
     he_mkdir env (parent_dir pt (pid_file_path pt p)) = Inr () \<and> he_write env (pid_file_path pt p) = None"

definition pid_file_left :: "platform \<Rightarrow> host_env \<Rightarrow> service_paths \<Rightarrow> string option" where
  "pid_file_left pt env p =
     (if he_mkdir env (parent_dir pt (pid_file_path pt p)) = Inr ()
      then (case he_write env (pid_file_path pt p) of Some (e, left) \<Rightarrow> left | None \<Rightarrow> None) else None)"

text \<open>
  C21: the host cleans up if the clean-up calls work. Let restoring a handler, removing one from the loop and deleting the
  PID file succeed, and adding one to the loop fail only where the platform does not support it. However the
  host ends, because directories or logging fail, the PID file cannot be written, the wait is cancelled or raises, or the
  stop event is set, afterwards a handler that it replaced itself is the handler of before, and one that
  the event loop managed is the default handler, whatever it was before; a PID file that was written
  completely is gone, whatever was there before, and what a failed write left of it stays; no other file has changed.
  It returns, with 0, exactly if it started, wrote the PID file and the stop event was set.
\<close>

theorem service_cleans_up:
  assumes "signals_work env" "\<forall>q. he_unlink env q = Inr ()"
  shows "\<exists>h' out. run_service_until_stopped pt env p log_level h = (h', out) \<and>
    (\<forall>s. ho_handlers h' s = (if host_starts env p log_level \<and> s \<in> set (shutdown_signals pt env) \<and> he_add_handler env s = Inr ()
       then H_Default else ho_handlers h s)) \<and>
    (\<forall>q. map_of (ho_files h') q = (if \<not> host_starts env p log_level \<or> q \<noteq> pid_file_path pt p then map_of (ho_files h) q
       else if pid_file_writable pt env p then None
       else case pid_file_left pt env p of Some t \<Rightarrow> Some t | None \<Rightarrow> map_of (ho_files h) q)) \<and>
    (out = Ret 0 \<longleftrightarrow> host_starts env p log_level \<and> pid_file_writable pt env p \<and> he_wait env = Ret ()) \<and>
    (\<forall>n. out = Ret n \<longrightarrow> n = 0)"
proof (cases "host_starts env p log_level")
  case False
  then show ?thesis using start_host_cases(2) [OF False, of h] by (auto simp: run_service_until_stopped_def)
next
  case started: True
  obtain root' where ready: "start_host env p log_level h = (h\<lparr>ho_root := root'\<rparr>, Inr ())"
    using start_host_cases(1) [OF started] by blast
  let ?ss = "shutdown_signals pt env" and ?f = "\<lparr>pf_path = pid_file_path pt p, pf_written = False\<rparr>"
  define h1 where "h1 = h\<lparr>ho_root := root', ho_handlers := (\<lambda>s. if s \<in> set ?ss
      then if he_add_handler env s = Inr () then H_Loop else H_Event else ho_handlers h s)\<rparr>"
  define cbs where "cbs = map (callback_for env (ho_handlers h)) ?ss"
  have install: "install_signal_handlers pt env (h\<lparr>ho_root := root'\<rparr>) = (h1, Inr cbs)"
    using install_handlers_all [OF assms(1) shutdown_signals_distinct [of pt env], of "[]" "h\<lparr>ho_root := root'\<rparr>"]
    by (simp add: install_signal_handlers_def h1_def cbs_def cong: if_cong)
  show ?thesis
  proof (cases "pid_file_writable pt env p")
    case True
    then have "pid_write pt env ?f h1 = ((?f\<lparr>pf_written := True\<rparr>, h1\<lparr>ho_files := AList.update (pid_file_path pt p)
        (show_int (he_pid env) @ [char_of (10 :: nat)]) (ho_files h1)\<rparr>), Ret ())"
      by (simp add: pid_write_def pid_file_writable_def)
    then show ?thesis using started True assms(2) run_callbacks_all [OF assms(1)]
      by (auto simp: run_service_until_stopped_def ready install host_cleanup_def cbs_def pid_remove_def h1_def
          delete_conv' split: outcome.splits)
  next
    case False
    then obtain e where "pid_write pt env ?f h1 = ((?f, case pid_file_left pt env p of None \<Rightarrow> h1
        | Some t \<Rightarrow> h1\<lparr>ho_files := AList.update (pid_file_path pt p) t (ho_files h1)\<rparr>), Raise e)"
      by (cases "he_mkdir env (parent_dir pt (pid_file_path pt p))"; cases "he_write env (pid_file_path pt p)")
        (auto simp: pid_write_def pid_file_writable_def pid_file_left_def split: prod.splits cong: option.case_cong)
    then show ?thesis using started False run_callbacks_all [OF assms(1)]
      by (cases "pid_file_left pt env p")
        (auto simp: run_service_until_stopped_def ready install host_cleanup_def cbs_def pid_remove_def h1_def)
  qed
qed

section \<open>Witnesses\<close>

text \<open>A platform without loop handlers for SIGINT; a PID file of another instance is there already.\<close>

definition ex_platform :: platform where
  "ex_platform = \<lparr>pt_windows = False, pt_home = Inr ''/home/plc'', pt_resolve = (\<lambda>s. Inr s)\<rparr>"

definition ex_host_env :: host_env where
  "ex_host_env =
     \<lparr>he_mkdir = (\<lambda>_. Inr ()), he_write = (\<lambda>_. None), he_unlink = (\<lambda>_. Inr ()), he_open_log = (\<lambda>_. Inr ()),
      he_has_sigbreak = False,
      he_add_handler = (\<lambda>s. if s = SIGINT then Inl (exn (OtherError ''NotImplementedError'') []) else Inr ()),
      he_remove_handler = (\<lambda>_. Inr ()), he_signal = (\<lambda>_. Inr ()), he_wait = Ret (), he_pid = 42\<rparr>"

definition ex_paths :: service_paths where
  "ex_paths =
     \<lparr>sv_data_dir = ''/d'', sv_log_dir = ''/d/logs'', sv_run_dir = ''/d/run'', sv_config_file = None,
      sv_pid_file = None, sv_log_file = None\<rparr>"

definition ex_host :: host where
  "ex_host = \<lparr>ho_files = [(''/d/run/plc-gateway.pid'', ''41'')], ho_handlers = (\<lambda>_. H_Other 1),
     ho_root = \<lparr>rl_level = 30, rl_handlers = []\<rparr>\<rparr>"

theorem service_cleans_up_witness:
  "\<exists>h'. run_service_until_stopped ex_platform ex_host_env ex_paths ''info'' ex_host = (h', Ret 0) \<and>
     ho_handlers h' SIGINT = H_Other 1 \<and> ho_handlers h' SIGTERM = H_Default \<and>
     map_of (ho_files h') ''/d/run/plc-gateway.pid'' = None"
proof -
  have work: "signals_work ex_host_env" "\<forall>q. he_unlink ex_host_env q = Inr ()"
    by (auto simp: signals_work_def ex_host_env_def unsupported_def split: if_splits)
  have path: "pid_file_path ex_platform ex_paths = ''/d/run/plc-gateway.pid''" by code_simp
  have "level_of ''info'' \<noteq> None" by code_simp
  then have facts: "host_starts ex_host_env ex_paths ''info''" "pid_file_writable ex_platform ex_host_env ex_paths"
    "he_wait ex_host_env = Ret ()" "set (shutdown_signals ex_platform ex_host_env) = {SIGTERM, SIGINT}"
    by (simp_all add: host_starts_def pid_file_writable_def ensure_directories_def ex_host_env_def ex_paths_def
        shutdown_signals_def ex_platform_def)
  from service_cleans_up [OF work, of ex_platform ex_paths "''info''" ex_host] show ?thesis
    by (auto simp: facts path) (auto simp: ex_host_env_def ex_host_def)
qed

end
