(* ===== verification/Credits.thy ===== *)
theory Credits
  imports Licenses
begin

text \<open>
  src/tools/generate_credits.py: the generator of the bundled \<^verbatim>\<open>credits.json\<close>. It collects
  the closure of the runtime dependencies, parses the verified notices, checks one against
  the other and writes the credits. The installed distributions and the parser of requirement
  strings belong to the packaging libraries and are parameters; so is the TOML reader.

  Shown: the closure loop returns exactly the needed distributions whenever these are finite,
  notices written in the documented format are read back, and the report that the gateway
  loads from generated credits lists the closure with the installed versions.
\<close>

section \<open>Names and requirements\<close>

definition is_separator :: "char \<Rightarrow> bool" where
  "is_separator c = (c = CHR ''-'' \<or> c = CHR ''_'' \<or> c = CHR ''.'')"

text \<open>\<^verbatim>\<open>re.sub(r"[-_.]+", "-", name)\<close>; the flag says that the character before is a separator.\<close>

fun collapse :: "bool \<Rightarrow> string \<Rightarrow> string" where
  "collapse b [] = []"
| "collapse b (c # s) =
     (if is_separator c then (if b then collapse True s else CHR ''-'' # collapse True s)
      else c # collapse False s)"

definition normalize_name :: "string \<Rightarrow> string" where
  "normalize_name name = py_lower (collapse False name)"

definition name_char :: "char \<Rightarrow> bool" where
  "name_char c = (let n = code_point c in (48 \<le> n \<and> n \<le> 57) \<or> is_ascii_alpha c \<or> is_separator c)"

text \<open>\<open>show\<close> is the text of the value in the message.\<close>

definition require_dependency_name :: "(pyval \<Rightarrow> string) \<Rightarrow> pyval \<Rightarrow> string result" where
  "require_dependency_name shown v =
     (case v of
        PStr s \<Rightarrow>
          (let name = takeWhile name_char (dropWhile is_space s)
           in if name = [] then credit_error (''Could not parse dependency requirement: '' @ s) else Inr name)
      | _ \<Rightarrow> credit_error (''Invalid dependency requirement: '' @ shown v))"

text \<open>\<^verbatim>\<open>data[key]\<close> of a TOML value\<close>

definition toml_at :: "pyval \<Rightarrow> string \<Rightarrow> pyval result" where
  "toml_at v k = (case v of PDict d \<Rightarrow> item_at d k | _ \<Rightarrow> Inl (exn PyTypeError ''indices must be integers or slices''))"

definition read_direct_runtime_dependencies :: "(pyval \<Rightarrow> string) \<Rightarrow> pyval result \<Rightarrow> string list result" where
  "read_direct_runtime_dependencies shown toml =
     rbind toml (\<lambda>data.
     rbind (toml_at data ''project'') (\<lambda>project.
     rbind (toml_at project ''dependencies'') (\<lambda>dependencies.
     case dependencies of
       PList items \<Rightarrow> rbind (rmap (require_dependency_name shown) items) (\<lambda>names. Inr (map normalize_name names))
     | _ \<Rightarrow> credit_error ''project.dependencies must be a list.'')))"

section \<open>The closure of the installed dependencies\<close>

record distribution =
  ds_version :: string
  ds_requires :: "string list option"

text \<open>A parsed requirement: its name and, with a marker, what \<^verbatim>\<open>marker.evaluate()\<close> gives.\<close>

record requirement =
  rm_name :: string
  rm_marker :: "bool result option"

record package_env =
  pk_distribution :: "string \<Rightarrow> distribution result"
  pk_requirement :: "string \<Rightarrow> requirement result"

definition skip_requirement :: "requirement \<Rightarrow> bool result" where
  "skip_requirement r =
     (case rm_marker r of None \<Rightarrow> Inr False | Some m \<Rightarrow> rbind m (\<lambda>b. Inr (\<not> b)))"

fun push_requirements :: "package_env \<Rightarrow> string set \<Rightarrow> string list \<Rightarrow> string list \<Rightarrow> string list result" where
  "push_requirements env seen [] pending = Inr pending"
| "push_requirements env seen (r # rs) pending =
     rbind (pk_requirement env r) (\<lambda>p.
     rbind (skip_requirement p) (\<lambda>skip.
       push_requirements env seen rs
         (if skip \<or> normalize_name (rm_name p) \<in> seen then pending
          else pending @ [normalize_name (rm_name p)])))"

definition requires_of :: "distribution \<Rightarrow> string list" where
  "requires_of d = (case ds_requires d of None \<Rightarrow> [] | Some rs \<Rightarrow> rs)"

text \<open>The loop; it need not end when infinitely many distributions are needed.\<close>

partial_function (option) closure_loop ::
  "package_env \<Rightarrow> (string \<times> string) list \<Rightarrow> string list \<Rightarrow> (string \<times> string) list result option" where
  "closure_loop env resolved pending =
     (if pending = [] then Some (Inr resolved)
      else if last pending \<in> fst ` set resolved then closure_loop env resolved (butlast pending)
      else case pk_distribution env (last pending) of
          Inl e \<Rightarrow> Some (Inl e)
        | Inr d \<Rightarrow>
            (case push_requirements env (insert (last pending) (fst ` set resolved)) (requires_of d) (butlast pending) of
               Inl e \<Rightarrow> Some (Inl e)
             | Inr pending' \<Rightarrow> closure_loop env (resolved @ [(last pending, ds_version d)]) pending'))"

definition collect_runtime_dependency_closure ::
  "package_env \<Rightarrow> string list \<Rightarrow> (string \<times> string) list result option" where
  "collect_runtime_dependency_closure env direct = closure_loop env [] (sorted_list_of_set (set direct))"

section \<open>Parsing the notices\<close>

record notice_entry =
  ne_name :: string
  ne_version :: string
  ne_purpose :: string
  ne_license :: string
  ne_source :: string
  ne_copyright_notice :: string
  ne_bundled_in_distribution :: bool
  ne_notes :: string

text \<open>\<^verbatim>\<open>text.split(sep, 1)\<close>: the texts before and after the first occurrence.\<close>

fun split_once :: "string \<Rightarrow> string \<Rightarrow> (string \<times> string) option" where
  "split_once sep [] = (if sep = [] then Some ([], []) else None)"
| "split_once sep (c # s) =
     (if has_prefix sep (c # s) then Some ([], drop (length sep) (c # s))
      else map_option (\<lambda>(a, b). (c # a, b)) (split_once sep s))"

text \<open>A missing end leaves the whole rest: \<^verbatim>\<open>split(end, 1)[0]\<close> exists in any case.\<close>

definition between :: "string \<Rightarrow> string \<Rightarrow> string \<Rightarrow> string result" where
  "between text start stop =
     (case split_once start text of
        None \<Rightarrow> credit_error (''Could not find section between '' @ start @ '' and '' @ stop @ ''.'')
      | Some (_, after_start) \<Rightarrow>
          Inr (case split_once stop after_start of None \<Rightarrow> after_start | Some (inside, _) \<Rightarrow> inside))"

definition is_line_break :: "char \<Rightarrow> bool" where
  "is_line_break c = (let n = code_point c in (10 \<le> n \<and> n \<le> 13) \<or> (28 \<le> n \<and> n \<le> 30) \<or> n = 133)"

definition newline :: char where
  "newline = char_of (10 :: nat)"

text \<open>\<^verbatim>\<open>text.splitlines()\<close>; a carriage return and line feed count as one break.\<close>

fun split_lines :: "string \<Rightarrow> string list" where
  "split_lines [] = []"
| "split_lines (c # s) =
     (if is_line_break c
      then [] # split_lines (if code_point c = 13 \<and> s \<noteq> [] \<and> hd s = newline then tl s else s)
      else case split_lines s of [] \<Rightarrow> [[c]] | l # ls \<Rightarrow> (c # l) # ls)"

text \<open>
  \<^verbatim>\<open>re.split(r"(?m)^### ", text)\<close>; the flag says that the position is at the start of a line,
  which is the start of the text or the place after a line feed.
\<close>

fun split_headings :: "bool \<Rightarrow> string \<Rightarrow> string list" where
  "split_headings b [] = [[]]"
| "split_headings b (c # s) =
     (if b \<and> has_prefix ''### '' (c # s) then [] # split_headings False (drop 3 s)
      else case split_headings (c = newline) s of [] \<Rightarrow> [[c]] | p # ps \<Rightarrow> (c # p) # ps)"

definition notice_line ::
  "string \<Rightarrow> (string \<times> string) list \<times> string option \<Rightarrow> (string \<times> string) list \<times> string option" where
  "notice_line line = (\<lambda>(found, current).
     if has_prefix ''- '' line then
       (let body = drop 2 line;
            key = py_strip (takeWhile (\<lambda>c. c \<noteq> CHR '':'') body)
        in (AList.update key (py_strip (drop 1 (dropWhile (\<lambda>c. c \<noteq> CHR '':'') body))) found, Some key))
     else
       (case current of
          None \<Rightarrow> (found, current)
        | Some key \<Rightarrow>
            if has_prefix ''  '' line
            then (AList.update key
                    (py_strip ((case map_of found key of None \<Rightarrow> [] | Some v \<Rightarrow> v) @ '' '' @ py_strip line)) found, current)
            else (found, current)))"

definition parse_notice_fields :: "string list \<Rightarrow> (string \<times> string) list" where
  "parse_notice_fields lines = fst (fold notice_line lines ([], None))"

definition required_field :: "(string \<times> string) list \<Rightarrow> string \<Rightarrow> string result" where
  "required_field found key =
     (case map_of found key of
        None \<Rightarrow> credit_error (''Missing notice field: '' @ key)
      | Some v \<Rightarrow> if py_strip v = [] then credit_error (''Missing notice field: '' @ key) else Inr v)"

definition parse_yes_no :: "string \<Rightarrow> bool result" where
  "parse_yes_no v =
     (let normalized = py_lower (py_strip v)
      in if normalized = ''yes'' then Inr True
         else if normalized = ''no'' then Inr False
         else credit_error (''Expected yes/no value, got '' @ quoted v @ ''.''))"

definition parse_notice :: "string \<Rightarrow> notice_entry result" where
  "parse_notice block_text =
     (let lines = split_lines block_text; found = parse_notice_fields (tl lines)
      in rbind (required_field found ''Version'') (\<lambda>version.
         rbind (required_field found ''Purpose'') (\<lambda>purpose.
         rbind (required_field found ''License'') (\<lambda>license.
         rbind (required_field found ''Source'') (\<lambda>source.
         rbind (required_field found ''Copyright notice'') (\<lambda>copyright_notice.
         rbind (rbind (required_field found ''Bundled in distribution'') parse_yes_no) (\<lambda>bundled.
         rbind (required_field found ''Notes'') (\<lambda>notes.
           Inr \<lparr>ne_name = py_strip (hd lines), ne_version = version, ne_purpose = purpose, ne_license = license,
             ne_source = source, ne_copyright_notice = copyright_notice,
             ne_bundled_in_distribution = bundled, ne_notes = notes\<rparr>))))))))"

fun parse_blocks :: "string list \<Rightarrow> (string \<times> notice_entry) list \<Rightarrow> (string \<times> notice_entry) list result" where
  "parse_blocks [] entries = Inr entries"
| "parse_blocks (block # blocks) entries =
     (let block_text = py_strip block
      in if block_text = [] \<or> has_prefix ''The following packages'' block_text then parse_blocks blocks entries
         else rbind (parse_notice block_text) (\<lambda>entry.
           parse_blocks blocks (AList.update (normalize_name (ne_name entry)) entry entries)))"

definition parse_runtime_notices :: "string \<Rightarrow> (string \<times> notice_entry) list result" where
  "parse_runtime_notices text =
     rbind (between text ''## Runtime Dependencies'' ''## Development Dependencies'') (\<lambda>runtime_section.
       parse_blocks (split_headings True runtime_section) [])"

section \<open>The credits\<close>

definition notice_entry_dict :: "notice_entry \<Rightarrow> pyval" where
  "notice_entry_dict e = PDict
     [(PStr ''name'', PStr (ne_name e)), (PStr ''version'', PStr (ne_version e)),
      (PStr ''purpose'', PStr (ne_purpose e)), (PStr ''license'', PStr (ne_license e)),
      (PStr ''source'', PStr (ne_source e)), (PStr ''copyright_notice'', PStr (ne_copyright_notice e)),
      (PStr ''bundled_in_distribution'', PBool (ne_bundled_in_distribution e)), (PStr ''notes'', PStr (ne_notes e))]"

definition verified_credit ::
  "(string \<times> string) list \<Rightarrow> (string \<times> notice_entry) list \<Rightarrow> string \<Rightarrow> pyval result" where
  "verified_credit dependencies notices n =
     (case (map_of notices n, map_of dependencies n) of
        (Some entry, Some installed) \<Rightarrow>
          if ne_version entry \<noteq> installed
          then credit_error (''Version mismatch for '' @ ne_name entry @ '': notices='' @ ne_version entry @
                 '', installed='' @ installed)
          else if py_strip (ne_license entry) = []
          then credit_error (''Missing verified license for '' @ ne_name entry @ ''.'')
          else Inr (notice_entry_dict entry)
      | _ \<Rightarrow> Inl (exn PyKeyError (quoted n)))"

definition build_credits :: "(string \<times> string) list \<Rightarrow> (string \<times> notice_entry) list \<Rightarrow> pyval result" where
  "build_credits dependencies notices =
     (let missing = sorted_list_of_set (fst ` set dependencies - fst ` set notices)
      in if missing \<noteq> [] then credit_error (''Missing verified runtime notices: '' @ str_join '', '' missing)
         else rbind (rmap (verified_credit dependencies notices) (sorted_list_of_set (fst ` set dependencies)))
                (\<lambda>credits. Inr (PDict
                   [(PStr ''schema_version'', PInt 1), (PStr ''generated_from'', PStr ''THIRD_PARTY_NOTICES.md''),
                    (PStr ''dependencies'', PList credits)])))"

text \<open>The whole run: the value written, an error, or nothing if the closure does not end.\<close>

definition generate_credits ::
  "package_env \<Rightarrow> (pyval \<Rightarrow> string) \<Rightarrow> pyval result \<Rightarrow> string result \<Rightarrow> pyval result option" where
  "generate_credits env shown pyproject notices_text =
     (case read_direct_runtime_dependencies shown pyproject of
        Inl e \<Rightarrow> Some (Inl e)
      | Inr direct \<Rightarrow>
          map_option (\<lambda>closure.
            rbind closure (\<lambda>dependencies.
            rbind (rbind notices_text parse_runtime_notices) (\<lambda>notices.
            rbind (build_credits dependencies notices) (\<lambda>credits.
              Inr (with_sorted_keys credits)))))
            (collect_runtime_dependency_closure env direct))"

section \<open>The closure is what is needed\<close>

text \<open>
  One distribution depends on another if a requirement of it that is not skipped names it;
  needed is what the direct dependencies lead to.
\<close>

definition depends_on :: "package_env \<Rightarrow> string \<Rightarrow> string \<Rightarrow> bool" where
  "depends_on env n m \<longleftrightarrow> (\<exists>d r p. pk_distribution env n = Inr d \<and> r \<in> set (requires_of d) \<and>
     pk_requirement env r = Inr p \<and> skip_requirement p = Inr False \<and> m = normalize_name (rm_name p))"

inductive needed :: "package_env \<Rightarrow> string set \<Rightarrow> string \<Rightarrow> bool" for env direct where
  needed_direct: "n \<in> direct \<Longrightarrow> needed env direct n"
| needed_by: "needed env direct n \<Longrightarrow> depends_on env n m \<Longrightarrow> needed env direct m"

text \<open>The errors a distribution can stop the loop with.\<close>

definition fails_with :: "package_env \<Rightarrow> string \<Rightarrow> pyexn \<Rightarrow> bool" where
  "fails_with env n e \<longleftrightarrow> pk_distribution env n = Inl e \<or>
     (\<exists>d r. pk_distribution env n = Inr d \<and> r \<in> set (requires_of d) \<and>
        (pk_requirement env r = Inl e \<or> (\<exists>p. pk_requirement env r = Inr p \<and> skip_requirement p = Inl e)))"

lemma push_requirements_Inr:
  "push_requirements env seen rs pending = Inr pending' \<Longrightarrow>
   set pending' = set pending \<union> {normalize_name (rm_name p) | r p. r \<in> set rs \<and> pk_requirement env r = Inr p \<and>
     skip_requirement p = Inr False \<and> normalize_name (rm_name p) \<notin> seen} \<and>
   (\<forall>r \<in> set rs. \<exists>p b. pk_requirement env r = Inr p \<and> skip_requirement p = Inr b)"
proof (induction rs arbitrary: pending)
  case (Cons r rs)
  obtain p b where p: "pk_requirement env r = Inr p" "skip_requirement p = Inr b"
    "push_requirements env seen rs (if b \<or> normalize_name (rm_name p) \<in> seen then pending
       else pending @ [normalize_name (rm_name p)]) = Inr pending'"
    using Cons.prems by auto
  show ?case using Cons.IH [OF p(3)] p(1,2) by (auto split: if_splits)
qed simp

lemma push_requirements_Inl:
  "push_requirements env seen rs pending = Inl e \<Longrightarrow>
   \<exists>r \<in> set rs. pk_requirement env r = Inl e \<or> (\<exists>p. pk_requirement env r = Inr p \<and> skip_requirement p = Inl e)"
  by (induction rs arbitrary: pending) (auto simp: rbind_Inl_iff)

definition closure_inv :: "package_env \<Rightarrow> string set \<Rightarrow> (string \<times> string) list \<Rightarrow> string list \<Rightarrow> bool" where
  "closure_inv env direct resolved pending \<longleftrightarrow>
     distinct (map fst resolved) \<and> (\<forall>n \<in> set pending. needed env direct n) \<and>
     (\<forall>(n, v) \<in> set resolved. needed env direct n \<and> (\<exists>d. pk_distribution env n = Inr d \<and> v = ds_version d)) \<and>
     (\<forall>n m. n \<in> fst ` set resolved \<longrightarrow> depends_on env n m \<longrightarrow> m \<in> fst ` set resolved \<union> set pending) \<and>
     direct \<subseteq> fst ` set resolved \<union> set pending"

lemma closure_inv_skip:
  assumes "closure_inv env direct resolved (pending @ [n])" "n \<in> fst ` set resolved"
  shows "closure_inv env direct resolved pending"
proof -
  have same: "fst ` set resolved \<union> set (pending @ [n]) = fst ` set resolved \<union> set pending"
    using assms(2) by auto
  show ?thesis using assms(1) unfolding closure_inv_def same by simp
qed

lemma closure_inv_add:
  assumes inv: "closure_inv env direct resolved (pending @ [n])" and new: "n \<notin> fst ` set resolved"
    and d: "pk_distribution env n = Inr d"
    and push: "push_requirements env (insert n (fst ` set resolved)) (requires_of d) pending = Inr pending'"
  shows "closure_inv env direct (resolved @ [(n, ds_version d)]) pending'"
proof -
  note pending' = push_requirements_Inr [OF push, THEN conjunct1]
  have n: "needed env direct n" using inv by (simp add: closure_inv_def)
  have into: "needed env direct m" if "m \<in> set pending'" for m
  proof (cases "m \<in> set pending")
    case True
    then show ?thesis using inv by (simp add: closure_inv_def)
  next
    case False
    then have "depends_on env n m" using that d by (auto simp: pending' depends_on_def)
    then show ?thesis by (rule needed_by [OF n])
  qed
  have out: "m \<in> insert n (fst ` set resolved) \<union> set pending'" if "depends_on env n m" for m
    using that d by (auto simp: pending' depends_on_def)
  have "distinct (map fst (resolved @ [(n, ds_version d)]))" using inv new by (simp add: closure_inv_def)
  moreover have "\<forall>(m, v) \<in> set (resolved @ [(n, ds_version d)]).
      needed env direct m \<and> (\<exists>d. pk_distribution env m = Inr d \<and> v = ds_version d)"
    using inv n d by (simp add: closure_inv_def)
  moreover have "k \<in> fst ` set (resolved @ [(n, ds_version d)]) \<union> set pending'"
    if k: "m \<in> fst ` set (resolved @ [(n, ds_version d)])" "depends_on env m k" for m k
  proof (cases "m = n")
    case True
    then show ?thesis using out [of k] k(2) by simp
  next
    case False
    then have "m \<in> fst ` set resolved" using k(1) by auto
    then have "k \<in> fst ` set resolved \<union> set (pending @ [n])" using inv k(2) unfolding closure_inv_def by blast
    then show ?thesis by (auto simp: pending')
  qed
  moreover have "direct \<subseteq> fst ` set (resolved @ [(n, ds_version d)]) \<union> set pending'"
    using inv by (auto simp: closure_inv_def pending')
  ultimately show ?thesis using into unfolding closure_inv_def by blast
qed

lemma closure_inv_done:
  assumes "closure_inv env direct resolved []"
  shows "needed env direct n \<longleftrightarrow> n \<in> fst ` set resolved"
proof
  assume "needed env direct n"
  then show "n \<in> fst ` set resolved"
    by induction (use assms in \<open>auto simp: closure_inv_def\<close>)
qed (use assms in \<open>auto simp: closure_inv_def\<close>)

lemma closure_inv_result:
  assumes "closure_inv env direct resolved []"
  shows "map_of resolved n = Some v \<longleftrightarrow> needed env direct n \<and> (\<exists>d. pk_distribution env n = Inr d \<and> v = ds_version d)"
proof -
  have "map_of resolved n = Some v \<longleftrightarrow> (n, v) \<in> set resolved"
    using assms by (simp add: closure_inv_def)
  moreover have "needed env direct n \<longleftrightarrow> (\<exists>w. (n, w) \<in> set resolved)"
    using closure_inv_done [OF assms] by force
  ultimately show ?thesis using assms by (auto simp: closure_inv_def)
qed

lemma closure_inv_distinct: "closure_inv env direct resolved [] \<Longrightarrow> distinct (map fst resolved)"
  by (simp add: closure_inv_def)

text \<open>The loop ends, by the needed distributions not yet resolved and then the pending names.\<close>

lemma closure_loop_ends:
  assumes fin: "finite {n. needed env direct n}"
  shows "closure_inv env direct resolved pending \<Longrightarrow>
    (\<exists>r. closure_loop env resolved pending = Some r \<and>
      (case r of Inr final \<Rightarrow> closure_inv env direct final []
       | Inl e \<Rightarrow> \<exists>n. needed env direct n \<and> fails_with env n e))"
proof (induction "card ({n. needed env direct n} - fst ` set resolved)" arbitrary: resolved pending rule: less_induct)
  case less
  note outer = less.hyps
  from less.prems show ?case
  proof (induction pending rule: rev_induct)
    case Nil
    then show ?case by (subst closure_loop.simps) simp
  next
    case (snoc n pending)
    show ?case
    proof (cases "n \<in> fst ` set resolved")
      case True
      then show ?thesis
        using snoc.IH [OF closure_inv_skip [OF snoc.prems True]] by (subst closure_loop.simps) simp
    next
      case new: False
      have n: "needed env direct n" using snoc.prems by (simp add: closure_inv_def)
      show ?thesis
      proof (cases "pk_distribution env n")
        case (Inl e)
        then show ?thesis using new n by (subst closure_loop.simps) (auto simp: fails_with_def)
      next
        case d: (Inr d)
        show ?thesis
        proof (cases "push_requirements env (insert n (fst ` set resolved)) (requires_of d) pending")
          case (Inl e)
          then have "fails_with env n e"
            using d push_requirements_Inl [OF Inl] by (auto simp: fails_with_def)
          then show ?thesis using new n d Inl by (subst closure_loop.simps) auto
        next
          case (Inr pending')
          have "card ({n. needed env direct n} - fst ` set (resolved @ [(n, ds_version d)]))
              < card ({n. needed env direct n} - fst ` set resolved)"
            by (rule psubset_card_mono) (use fin n new in auto)
          from outer [OF this closure_inv_add [OF snoc.prems new d Inr]] show ?thesis
            using new d Inr by (subst closure_loop.simps) simp
        qed
      qed
    qed
  qed
qed

lemma closure_inv_start: "closure_inv env (set direct) [] (sorted_list_of_set (set direct))"
  by (auto simp: closure_inv_def intro: needed_direct)

text \<open>
  C18: the closure loop ends whenever finitely many distributions are needed, and what it
  returns is exact: each needed distribution once with its installed version, and nothing
  else. It raises only what a needed distribution raises: it is not installed, or one of its
  requirements cannot be parsed or evaluated.
\<close>

theorem closure_exact:
  assumes "finite {n. needed env (set direct) n}"
  shows "\<exists>r. collect_runtime_dependency_closure env direct = Some r \<and>
    (case r of
       Inr resolved \<Rightarrow> distinct (map fst resolved) \<and>
         (\<forall>n v. map_of resolved n = Some v \<longleftrightarrow>
            needed env (set direct) n \<and> (\<exists>d. pk_distribution env n = Inr d \<and> v = ds_version d))
     | Inl e \<Rightarrow> \<exists>n. needed env (set direct) n \<and> fails_with env n e)"
proof -
  obtain r where r: "collect_runtime_dependency_closure env direct = Some r"
    "case r of Inr final \<Rightarrow> closure_inv env (set direct) final []
     | Inl e \<Rightarrow> \<exists>n. needed env (set direct) n \<and> fails_with env n e"
    using closure_loop_ends [OF assms closure_inv_start]
    unfolding collect_runtime_dependency_closure_def by blast
  then show ?thesis
    using closure_inv_result by (intro exI [of _ r]) (auto simp: closure_inv_distinct split: sum.splits)
qed
lemma closure_loop_sound:
  assumes "closure_loop env resolved pending = Some r"
  shows "closure_inv env direct resolved pending \<Longrightarrow> r = Inr final \<Longrightarrow> closure_inv env direct final []"
  using assms
proof (rule closure_loop.raw_induct [of
    "\<lambda>env resolved pending r. closure_inv env direct resolved pending \<longrightarrow> r = Inr final \<longrightarrow> closure_inv env direct final []",
    THEN mp, THEN mp, rotated])
  fix f env resolved pending r
  assume rec: "\<And>env resolved pending r. f env resolved pending = Some r \<Longrightarrow>
      closure_inv env direct resolved pending \<longrightarrow> r = Inr final \<longrightarrow> closure_inv env direct final []"
    and body: "(if pending = [] then Some (Inr resolved)
      else if last pending \<in> fst ` set resolved then f env resolved (butlast pending)
      else case pk_distribution env (last pending) of
          Inl e \<Rightarrow> Some (Inl e)
        | Inr d \<Rightarrow>
            (case push_requirements env (insert (last pending) (fst ` set resolved)) (requires_of d) (butlast pending) of
               Inl e \<Rightarrow> Some (Inl e)
             | Inr pending' \<Rightarrow> f env (resolved @ [(last pending, ds_version d)]) pending')) = Some r"
  show "closure_inv env direct resolved pending \<longrightarrow> r = Inr final \<longrightarrow> closure_inv env direct final []"
  proof (intro impI)
    assume inv: "closure_inv env direct resolved pending" and final: "r = Inr final"
    show "closure_inv env direct final []"
    proof (cases pending rule: rev_exhaust)
      case Nil
      then show ?thesis using body inv final by simp
    next
      case (snoc rest n)
      show ?thesis
      proof (cases "n \<in> fst ` set resolved")
        case True
        have "f env resolved rest = Some r" using body snoc True by simp
        from rec [OF this] closure_inv_skip [OF inv [unfolded snoc] True] final show ?thesis by blast
      next
        case new: False
        obtain d pending' where d: "pk_distribution env n = Inr d"
          "push_requirements env (insert n (fst ` set resolved)) (requires_of d) rest = Inr pending'"
          "f env (resolved @ [(n, ds_version d)]) pending' = Some r"
          using body snoc new final by (auto split: sum.splits)
        from rec [OF d(3)] closure_inv_add [OF inv [unfolded snoc] new d(1,2)] final show ?thesis by blast
      qed
    qed
  qed
qed

section \<open>From the generator to the report\<close>

text \<open>The credit that the report shows for a notice.\<close>

definition credit_of_notice :: "notice_entry \<Rightarrow> dependency_credit" where
  "credit_of_notice e =
     \<lparr>dc_name = ne_name e, dc_version = ne_version e, dc_purpose = ne_purpose e, dc_license = ne_license e,
      dc_source = ne_source e, dc_copyright_notice = ne_copyright_notice e,
      dc_bundled_in_distribution = ne_bundled_in_distribution e, dc_notes = ne_notes e\<rparr>"

lemma dependency_credit_of_written [simp]:
  "dependency_credit_of other (with_sorted_keys (notice_entry_dict e)) = Inr (credit_of_notice e)"
  by (simp add: notice_entry_dict_def dependency_credit_of_def str_at_def item_at_def credit_of_notice_def
      del: sort_key_simps) (simp add: dict_get_def py_str_def)

text \<open>What makes a credit verified: its notice, the installed version and a license.\<close>

definition credit_verified ::
  "(string \<times> string) list \<Rightarrow> (string \<times> notice_entry) list \<Rightarrow> string \<Rightarrow> dependency_credit \<Rightarrow> bool" where
  "credit_verified dependencies notices n c \<longleftrightarrow> (\<exists>e. map_of notices n = Some e \<and> c = credit_of_notice e \<and>
     map_of dependencies n = Some (dc_version c) \<and> py_strip (dc_license c) \<noteq> [])"

lemma verified_credit_Inr:
  "verified_credit dependencies notices n = Inr v \<Longrightarrow>
   \<exists>c. dependency_credit_of other (with_sorted_keys v) = Inr c \<and> credit_verified dependencies notices n c"
  by (auto simp: verified_credit_def credit_error_def credit_verified_def credit_of_notice_def
      split: option.splits if_splits)

lemma verified_credits_Inr:
  "rmap (verified_credit dependencies notices) ns = Inr vs \<Longrightarrow>
   \<exists>cs. rmap (dependency_credit_of other) (map with_sorted_keys vs) = Inr cs \<and>
     list_all2 (credit_verified dependencies notices) ns cs"
proof (induction ns arbitrary: vs)
  case (Cons n ns)
  then obtain v vs' where v: "verified_credit dependencies notices n = Inr v"
    "rmap (verified_credit dependencies notices) ns = Inr vs'" "vs = v # vs'" by auto
  show ?case using verified_credit_Inr [OF v(1), of other] Cons.IH [OF v(2)] v(3) by auto
qed simp

lemma build_credits_report:
  assumes "build_credits dependencies notices = Inr v"
  shows "\<exists>rep. load_license_report other environ (Inr (with_sorted_keys v)) = Inr rep \<and>
    list_all2 (credit_verified dependencies notices) (sorted_list_of_set (fst ` set dependencies)) (lr_dependencies rep)"
proof -
  obtain vs where vs: "rmap (verified_credit dependencies notices) (sorted_list_of_set (fst ` set dependencies)) = Inr vs"
    "v = PDict [(PStr ''schema_version'', PInt 1), (PStr ''generated_from'', PStr ''THIRD_PARTY_NOTICES.md''),
      (PStr ''dependencies'', PList vs)]"
    using assms by (auto simp: build_credits_def credit_error_def Let_def split: if_splits)
  obtain cs where cs: "rmap (dependency_credit_of other) (map with_sorted_keys vs) = Inr cs"
    "list_all2 (credit_verified dependencies notices) (sorted_list_of_set (fst ` set dependencies)) cs"
    using verified_credits_Inr [OF vs(1)] by blast
  have "dict_get (sort_key entry_key [(PStr ''schema_version'', PInt 1), (PStr ''generated_from'', PStr ''THIRD_PARTY_NOTICES.md''),
      (PStr ''dependencies'', PList (map with_sorted_keys vs))]) ''dependencies'' = Some (PList (map with_sorted_keys vs))"
    by (subst dict_get_sort_key) (simp_all add: dict_get_def)
  then show ?thesis using vs(2) cs
    by (simp add: load_license_report_def load_credits_json_def del: sort_key_simps)
qed

text \<open>
  The report that the gateway loads from generated credits is complete and verified. If
  the generator writes a file, then reading it gives a report with one entry for each needed
  distribution, in the order of the names, and nothing else: the entry is the notice of that
  name, its version is the installed one and its license is not blank.
\<close>

lemma generated_report_complete:
  assumes "generate_credits env shown pyproject notices_text = Some (Inr v)"
  shows "\<exists>direct notices rep. read_direct_runtime_dependencies shown pyproject = Inr direct \<and>
    rbind notices_text parse_runtime_notices = Inr notices \<and>
    load_license_report other environ (Inr v) = Inr rep \<and> finite {n. needed env (set direct) n} \<and>
    list_all2 (\<lambda>n c. (\<exists>e. map_of notices n = Some e \<and> c = credit_of_notice e) \<and>
        (\<exists>d. pk_distribution env n = Inr d \<and> dc_version c = ds_version d) \<and> py_strip (dc_license c) \<noteq> [])
      (sorted_list_of_set {n. needed env (set direct) n}) (lr_dependencies rep)"
proof -
  obtain direct where direct: "read_direct_runtime_dependencies shown pyproject = Inr direct"
    using assms by (auto simp: generate_credits_def split: sum.splits)
  then obtain deps notices credits where parts:
    "collect_runtime_dependency_closure env direct = Some (Inr deps)"
    "rbind notices_text parse_runtime_notices = Inr notices"
    "build_credits deps notices = Inr credits" "v = with_sorted_keys credits"
    using assms by (auto simp: generate_credits_def)
  have inv: "closure_inv env (set direct) deps []"
    using closure_loop_sound [OF parts(1) [unfolded collect_runtime_dependency_closure_def] closure_inv_start refl] .
  have names: "{n. needed env (set direct) n} = fst ` set deps" using closure_inv_done [OF inv] by blast
  obtain rep where rep: "load_license_report other environ (Inr v) = Inr rep"
    "list_all2 (credit_verified deps notices) (sorted_list_of_set (fst ` set deps)) (lr_dependencies rep)"
    using build_credits_report [OF parts(3)] parts(4) by blast
  have "list_all2 (\<lambda>n c. (\<exists>e. map_of notices n = Some e \<and> c = credit_of_notice e) \<and>
      (\<exists>d. pk_distribution env n = Inr d \<and> dc_version c = ds_version d) \<and> py_strip (dc_license c) \<noteq> [])
    (sorted_list_of_set (fst ` set deps)) (lr_dependencies rep)"
    by (rule list.rel_mono_strong [OF rep(2)])
      (auto simp: credit_verified_def closure_inv_result [OF inv])
  then show ?thesis using direct parts(2) rep(1) names
    by (intro exI [of _ direct] exI [of _ notices] exI [of _ rep]) (simp del: rbind_Inr_iff)
qed

section \<open>Reading notices in the documented format\<close>

text \<open>
  The format of THIRD_PARTY_NOTICES.md: a heading with the name, a blank line and one item per
  field; a value may go on over indented lines, which \<open>wrap\<close> chooses.
\<close>

definition unlines :: "string list \<Rightarrow> string" where
  "unlines ls = concat (map (\<lambda>l. l @ [newline]) ls)"

definition indented :: "string \<Rightarrow> string" where
  "indented l = ''  '' @ l"

definition field_lines :: "string \<Rightarrow> string list \<Rightarrow> string list" where
  "field_lines key ls =
     (case ls of [] \<Rightarrow> [] | l # rest \<Rightarrow> (''- '' @ key @ '': '' @ l) # map indented rest)"

definition notice_body :: "(string \<Rightarrow> string list) \<Rightarrow> notice_entry \<Rightarrow> string list" where
  "notice_body wrap e = [] #
     field_lines ''Version'' (wrap (ne_version e)) @ field_lines ''Purpose'' (wrap (ne_purpose e)) @
     field_lines ''License'' (wrap (ne_license e)) @ field_lines ''Source'' (wrap (ne_source e)) @
     field_lines ''Copyright notice'' (wrap (ne_copyright_notice e)) @
     field_lines ''Bundled in distribution'' [if ne_bundled_in_distribution e then ''yes'' else ''no''] @
     field_lines ''Notes'' (wrap (ne_notes e))"

definition notice_block :: "(string \<Rightarrow> string list) \<Rightarrow> notice_entry \<Rightarrow> string" where
  "notice_block wrap e = unlines (ne_name e # notice_body wrap e @ [[]])"

definition written_notice :: "(string \<Rightarrow> string list) \<Rightarrow> notice_entry \<Rightarrow> string" where
  "written_notice wrap e = ''### '' @ notice_block wrap e"

definition line_ok :: "string \<Rightarrow> bool" where
  "line_ok l \<longleftrightarrow> l \<noteq> [] \<and> py_strip l = l \<and> (\<forall>c \<in> set l. \<not> is_line_break c)"

definition wraps :: "(string \<Rightarrow> string list) \<Rightarrow> string \<Rightarrow> bool" where
  "wraps wrap v \<longleftrightarrow> wrap v \<noteq> [] \<and> (\<forall>l \<in> set (wrap v). line_ok l) \<and> str_join '' '' (wrap v) = v"

definition notice_ok :: "(string \<Rightarrow> string list) \<Rightarrow> notice_entry \<Rightarrow> bool" where
  "notice_ok wrap e \<longleftrightarrow> line_ok (ne_name e) \<and> \<not> has_prefix ''The following packages'' (ne_name e) \<and>
     wraps wrap (ne_version e) \<and> wraps wrap (ne_purpose e) \<and> wraps wrap (ne_license e) \<and>
     wraps wrap (ne_source e) \<and> wraps wrap (ne_copyright_notice e) \<and> wraps wrap (ne_notes e)"

text \<open>Lines before the first heading, which the parser drops.\<close>

definition preamble_ok :: "string list \<Rightarrow> bool" where
  "preamble_ok ls \<longleftrightarrow> (\<forall>l \<in> set ls. newline \<notin> set l \<and> \<not> has_prefix ''### '' l) \<and>
     (let t = py_strip (unlines ls) in t = [] \<or> has_prefix ''The following packages'' t)"

subsection \<open>Headings\<close>

lemma newline_not [simp]:
  "newline \<noteq> CHR ''-''" "newline \<noteq> CHR '':''" "newline \<noteq> CHR '' ''" "newline \<noteq> CHR ''#''" "code_point newline = 10"
  "is_space newline" "is_line_break newline"
  by code_simp+

lemma has_prefix_line:
  assumes "c \<notin> set p"
  shows "has_prefix p (l @ c # t) \<longleftrightarrow> has_prefix p l"
proof (cases "length p \<le> length l")
  case True
  then show ?thesis by (simp add: has_prefix_def)
next
  case False
  then have "take (length p) (l @ c # t) ! length l = c" "length l < length p" by (simp_all add: nth_append)
  then have "take (length p) (l @ c # t) \<noteq> p" using assms nth_mem by metis
  moreover have "take (length p) l \<noteq> p" using False by (metis length_take min.cobounded1)
  ultimately show ?thesis by (simp add: has_prefix_def)
qed

lemma split_headings_nonempty: "split_headings b s \<noteq> []"
  by (cases "(b, s)" rule: split_headings.cases) (auto split: list.splits)

text \<open>Text in front of the first piece.\<close>

definition glue :: "string \<Rightarrow> string list \<Rightarrow> string list" where
  "glue s ps = (s @ hd ps) # tl ps"

lemma glue_glue [simp]: "glue s (glue t ps) = glue (s @ t) ps"
  by (simp add: glue_def)

lemma glue_Cons [simp]: "glue s (p # ps) = (s @ p) # ps"
  by (simp add: glue_def)

lemma split_headings_line:
  "newline \<notin> set l \<Longrightarrow> \<not> (b \<and> has_prefix ''### '' l) \<Longrightarrow>
   split_headings b (l @ newline # t) = glue (l @ [newline]) (split_headings True t)"
proof (induction l arbitrary: b)
  case Nil
  obtain p ps where "split_headings True t = p # ps" using split_headings_nonempty by (meson neq_Nil_conv)
  then show ?case by (simp add: has_prefix_def)
next
  case (Cons c l)
  have "\<not> (b \<and> has_prefix ''### '' (c # l @ newline # t))"
    using Cons.prems has_prefix_line [of newline "''### ''" "c # l" t] by auto
  moreover have "split_headings False (l @ newline # t) = glue (l @ [newline]) (split_headings True t)"
    using Cons.prems(1) by (intro Cons.IH) auto
  ultimately show ?case using Cons.prems(1) by (auto simp: glue_def)
qed

lemma split_headings_lines:
  "\<forall>l \<in> set ls. newline \<notin> set l \<and> \<not> has_prefix ''### '' l \<Longrightarrow>
   split_headings True (unlines ls @ t) = glue (unlines ls) (split_headings True t)"
proof (induction ls)
  case Nil
  obtain p ps where "split_headings True t = p # ps" using split_headings_nonempty by (meson neq_Nil_conv)
  then show ?case by (simp add: unlines_def)
next
  case (Cons l ls)
  have "split_headings True (unlines (l # ls) @ t) = split_headings True (l @ newline # unlines ls @ t)"
    by (simp add: unlines_def)
  also have "\<dots> = glue (unlines (l # ls)) (split_headings True t)"
    using Cons split_headings_line [of l True "unlines ls @ t"] by (simp add: unlines_def)
  finally show ?case .
qed

lemma has_prefix_simps [simp]:
  "has_prefix [] s" "has_prefix (c # p) (d # s) \<longleftrightarrow> c = d \<and> has_prefix p s" "\<not> has_prefix (c # p) []"
  by (auto simp: has_prefix_def)

lemma field_lines_set:
  assumes "l \<in> set (field_lines key ls)"
  shows "\<exists>m \<in> set ls. l = ''- '' @ key @ '': '' @ m \<or> l = ''  '' @ m"
  using assms by (auto simp: field_lines_def indented_def split: list.splits)

lemma line_ok_newline: "line_ok l \<Longrightarrow> newline \<notin> set l"
  by (auto simp: line_ok_def)

lemma keys_no_break [simp]:
  "\<forall>c \<in> set ''Version''. \<not> is_line_break c" "\<forall>c \<in> set ''Purpose''. \<not> is_line_break c"
  "\<forall>c \<in> set ''License''. \<not> is_line_break c" "\<forall>c \<in> set ''Source''. \<not> is_line_break c"
  "\<forall>c \<in> set ''Copyright notice''. \<not> is_line_break c" "\<forall>c \<in> set ''Bundled in distribution''. \<not> is_line_break c"
  "\<forall>c \<in> set ''Notes''. \<not> is_line_break c"
  by code_simp+

lemma field_lines_heading:
  assumes "l \<in> set (field_lines key ls)" "\<forall>c \<in> set key. \<not> is_line_break c" "\<forall>m \<in> set ls. line_ok m"
  shows "newline \<notin> set l \<and> \<not> has_prefix ''### '' l"
proof -
  have "newline \<notin> set key" using assms(2) by auto
  then show ?thesis using field_lines_set [OF assms(1)] assms(3) line_ok_newline by (auto simp: indented_def)
qed

lemma yes_no_line: "\<forall>m \<in> set [if b then ''yes'' else ''no'']. line_ok m"
proof -
  have "line_ok ''yes''" "line_ok ''no''" by code_simp+
  then show ?thesis by simp
qed

lemma notice_body_cases:
  assumes "notice_ok wrap e" "l \<in> set (notice_body wrap e @ [[]])"
  shows "l = [] \<or> (\<exists>key ls. l \<in> set (field_lines key ls) \<and> (\<forall>c \<in> set key. \<not> is_line_break c) \<and> (\<forall>m \<in> set ls. line_ok m))"
proof -
  define yn where "yn = [if ne_bundled_in_distribution e then ''yes'' else ''no'']"
  have "\<forall>m \<in> set (wrap (ne_version e)). line_ok m" "\<forall>m \<in> set (wrap (ne_purpose e)). line_ok m"
    "\<forall>m \<in> set (wrap (ne_license e)). line_ok m" "\<forall>m \<in> set (wrap (ne_source e)). line_ok m"
    "\<forall>m \<in> set (wrap (ne_copyright_notice e)). line_ok m" "\<forall>m \<in> set yn. line_ok m"
    "\<forall>m \<in> set (wrap (ne_notes e)). line_ok m"
    using assms(1) yes_no_line [of "ne_bundled_in_distribution e"] by (simp_all add: notice_ok_def wraps_def yn_def)
  note all_lines = this
  have "l = [] \<or> l \<in> set (field_lines ''Version'' (wrap (ne_version e))) \<or> l \<in> set (field_lines ''Purpose'' (wrap (ne_purpose e))) \<or>
    l \<in> set (field_lines ''License'' (wrap (ne_license e))) \<or> l \<in> set (field_lines ''Source'' (wrap (ne_source e))) \<or>
    l \<in> set (field_lines ''Copyright notice'' (wrap (ne_copyright_notice e))) \<or>
    l \<in> set (field_lines ''Bundled in distribution'' yn) \<or> l \<in> set (field_lines ''Notes'' (wrap (ne_notes e)))"
    using assms(2) unfolding notice_body_def yn_def [symmetric] by auto
  then show ?thesis using all_lines keys_no_break by (elim disjE) (simp, blast+)
qed

lemma notice_body_line:
  assumes "notice_ok wrap e" "l \<in> set (notice_body wrap e @ [[]])"
  shows "newline \<notin> set l \<and> \<not> has_prefix ''### '' l"
  using notice_body_cases [OF assms] field_lines_heading by auto

lemma split_headings_notice:
  assumes "notice_ok wrap e"
  shows "split_headings True (written_notice wrap e @ t) = [] # glue (notice_block wrap e) (split_headings True t)"
proof -
  have name: "newline \<notin> set (ne_name e)" using assms by (simp add: notice_ok_def line_ok_newline)
  have "split_headings False (ne_name e @ newline # unlines (notice_body wrap e @ [[]]) @ t)
      = glue (ne_name e @ [newline]) (split_headings True (unlines (notice_body wrap e @ [[]]) @ t))"
    using split_headings_line [OF name, of False] by simp
  also have "\<dots> = glue (notice_block wrap e) (split_headings True t)"
    using split_headings_lines [of "notice_body wrap e @ [[]]" t] notice_body_line [OF assms]
    by (simp add: notice_block_def unlines_def)
  finally show ?thesis by (simp add: written_notice_def notice_block_def unlines_def)
qed

lemma split_headings_notices:
  "\<forall>e \<in> set es. notice_ok wrap e \<Longrightarrow>
   split_headings True (concat (map (written_notice wrap) es)) = [] # map (notice_block wrap) es"
  by (induction es) (auto simp: split_headings_notice glue_def)

subsection \<open>Lines and white space\<close>

lemma py_strip_core:
  assumes "w \<noteq> []" "\<not> is_space (hd w)" "\<not> is_space (last w)" "\<forall>c \<in> set u. is_space c" "\<forall>c \<in> set v. is_space c"
  shows "py_strip (v @ w @ u) = w"
proof -
  have lead: "dropWhile is_space (v @ w @ u) = w @ u" using assms by (cases w) (auto simp: dropWhile_append2)
  have "dropWhile is_space (rev u @ rev w) = rev w"
    using assms by (subst dropWhile_append2) (auto simp: hd_rev [symmetric] dropWhile_eq_self_iff)
  then show ?thesis by (simp add: py_strip_def lead)
qed

lemma stripped_ends:
  assumes "py_strip l = l" "l \<noteq> []"
  shows "\<not> is_space (hd l) \<and> \<not> is_space (last l)"
proof -
  define m where "m = dropWhile is_space l"
  have l: "l = rev (dropWhile is_space (rev m))" using assms(1) by (simp add: py_strip_def m_def)
  then have ne: "dropWhile is_space (rev m) \<noteq> []" using assms(2) by auto
  then have "\<not> is_space (hd (dropWhile is_space (rev m)))" using dropWhile_hd by blast
  then have "\<not> is_space (last l)" by (subst l) (simp add: last_rev)
  moreover have "\<not> is_space (hd l)"
  proof -
    have "length l \<le> length m" by (subst l) (metis length_dropWhile_le length_rev)
    moreover have "length m \<le> length l" by (simp add: m_def length_dropWhile_le)
    ultimately have "m = l" unfolding m_def
      by (metis append_eq_append_conv self_append_conv2 takeWhile_dropWhile_id le_antisym)
    then show ?thesis using dropWhile_hd [of is_space l] assms(2) by (simp add: m_def)
  qed
  ultimately show ?thesis by simp
qed

lemma line_ok_ends: "line_ok l \<Longrightarrow> l \<noteq> [] \<and> \<not> is_space (hd l) \<and> \<not> is_space (last l)"
  using stripped_ends by (auto simp: line_ok_def)

lemma str_join_ends:
  assumes "ls \<noteq> []" "hd ls \<noteq> []" "last ls \<noteq> []"
  shows "str_join sep ls \<noteq> [] \<and> hd (str_join sep ls) = hd (hd ls) \<and> last (str_join sep ls) = last (last ls)"
proof -
  have "str_join sep ls \<noteq> [] \<and> hd (str_join sep ls) = hd (hd ls)"
    using assms by (induction sep ls rule: str_join.induct) auto
  moreover have "str_join sep ls \<noteq> [] \<and> last (str_join sep ls) = last (last ls)" if "ls \<noteq> []" "last ls \<noteq> []" for ls
    using that by (induction sep ls rule: str_join.induct) auto
  ultimately show ?thesis using assms by blast
qed

lemma unlines_join: "ls \<noteq> [] \<Longrightarrow> unlines ls = str_join [newline] ls @ [newline]"
  by (induction "[newline]" ls rule: str_join.induct) (auto simp: unlines_def)

lemma split_lines_last: "l \<noteq> [] \<Longrightarrow> \<forall>c \<in> set l. \<not> is_line_break c \<Longrightarrow> split_lines l = [l]"
proof (induction l)
  case (Cons c l)
  then show ?case by (cases "l = []") auto
qed simp

lemma split_lines_line: "\<forall>c \<in> set l. \<not> is_line_break c \<Longrightarrow> split_lines (l @ newline # t) = l # split_lines t"
  by (induction l) auto

lemma split_lines_join:
  "ls \<noteq> [] \<Longrightarrow> last ls \<noteq> [] \<Longrightarrow> \<forall>l \<in> set ls. \<forall>c \<in> set l. \<not> is_line_break c \<Longrightarrow>
   split_lines (str_join [newline] ls) = ls"
  by (induction "[newline]" ls rule: str_join.induct) (auto simp: split_lines_last split_lines_line)
lemma space_char: "is_space (CHR '' '')"
  by code_simp

lemma update_update: "AList.update k v (AList.update k u t) = AList.update k v t"
  by (induction t) auto

subsection \<open>Fields\<close>

lemma str_join_merge: "str_join sep ((v @ sep @ l) # ls) = str_join sep (v # l # ls)"
  by (cases ls) auto

lemma continued_lines:
  "\<forall>l \<in> set ls. line_ok l \<Longrightarrow> v \<noteq> [] \<Longrightarrow> \<not> is_space (hd v) \<Longrightarrow> map_of found key = Some v \<Longrightarrow>
   fold notice_line (map indented ls) (found, Some key) = (AList.update key (str_join '' '' (v # ls)) found, Some key)"
proof (induction ls arbitrary: v found)
  case (Cons l ls)
  have l: "line_ok l" using Cons.prems(1) by simp
  have "py_strip (v @ '' '' @ l) = v @ '' '' @ l"
    using Cons.prems(2,3) line_ok_ends [OF l] py_strip_core [of "v @ '' '' @ l" "[]" "[]"] by (simp add: last_append)
  moreover have "py_strip (indented l) = l"
    using line_ok_ends [OF l] py_strip_core [of l "[]" "''  ''"] by (simp add: space_char indented_def)
  ultimately have step: "notice_line (indented l) (found, Some key) = (AList.update key (v @ '' '' @ l) found, Some key)"
    using Cons.prems(4) l by (simp add: notice_line_def line_ok_def indented_def)
  have "fold notice_line (map indented ls) (AList.update key (v @ '' '' @ l) found, Some key) =
      (AList.update key (str_join '' '' ((v @ '' '' @ l) # ls)) (AList.update key (v @ '' '' @ l) found), Some key)"
    using Cons.prems(1-3) by (intro Cons.IH) auto
  then show ?case using step str_join_merge [of "'' ''" v l ls] by (simp add: update_update)
qed simp

text \<open>The keys of the format: no colon, and no white space around them.\<close>

definition key_ok :: "string \<Rightarrow> bool" where
  "key_ok key \<longleftrightarrow> CHR '':'' \<notin> set key \<and> py_strip key = key"

lemma parse_field:
  assumes "key_ok key" "ls \<noteq> []" "\<forall>l \<in> set ls. line_ok l"
  shows "fold notice_line (field_lines key ls) (found, current) = (AList.update key (str_join '' '' ls) found, Some key)"
proof -
  obtain l rest where ls: "ls = l # rest" using assms(2) by (cases ls) auto
  have l: "l \<noteq> []" "\<not> is_space (hd l)" "\<not> is_space (last l)" using assms(3) ls line_ok_ends by auto
  have upto: "takeWhile (\<lambda>c. c \<noteq> CHR '':'') (key @ '': '' @ l) = key"
    "dropWhile (\<lambda>c. c \<noteq> CHR '':'') (key @ '': '' @ l) = '': '' @ l"
    using assms(1) by (auto simp: key_ok_def takeWhile_append dropWhile_append)
  have "py_strip ('' '' @ l) = l" using py_strip_core [of l "[]" "'' ''"] l by (simp add: space_char)
  then have "notice_line (''- '' @ key @ '': '' @ l) (found, current) = (AList.update key l found, Some key)"
    using assms(1) upto by (simp add: notice_line_def Let_def key_ok_def)
  moreover have "fold notice_line (map indented rest) (AList.update key l found, Some key) =
      (AList.update key (str_join '' '' ls) (AList.update key l found), Some key)"
    using continued_lines [of rest l "AList.update key l found" key] assms(3) ls l by simp
  ultimately show ?thesis by (simp add: field_lines_def ls update_update)
qed

lemma keys_ok [simp]:
  "key_ok ''Version''" "key_ok ''Purpose''" "key_ok ''License''" "key_ok ''Source''"
  "key_ok ''Copyright notice''" "key_ok ''Bundled in distribution''" "key_ok ''Notes''"
  by code_simp+

lemma wraps_field:
  assumes "key_ok key" "wraps wrap v"
  shows "fold notice_line (field_lines key (wrap v)) (found, current) = (AList.update key v found, Some key)"
  using parse_field [OF assms(1), of "wrap v" found current] assms(2) by (simp add: wraps_def)

lemma bundled_field:
  "fold notice_line (field_lines ''Bundled in distribution'' [if b then ''yes'' else ''no'']) (found, current) =
     (AList.update ''Bundled in distribution'' (if b then ''yes'' else ''no'') found, Some ''Bundled in distribution'')"
  by (subst parse_field) (use yes_no_line [of b] in simp_all)

lemma wraps_not_blank:
  assumes "wraps wrap v"
  shows "py_strip v \<noteq> []"
proof -
  have ls: "wrap v \<noteq> []" "\<forall>l \<in> set (wrap v). line_ok l" "str_join '' '' (wrap v) = v"
    using assms by (auto simp: wraps_def)
  then have "line_ok (hd (wrap v))" "line_ok (last (wrap v))" by simp_all
  then have "hd v = hd (hd (wrap v)) \<and> v \<noteq> []" "\<not> is_space (hd (hd (wrap v)))"
    using str_join_ends [OF ls(1), of "'' ''"] ls(3) line_ok_ends by auto
  then have "hd v \<in> set v" "\<not> is_space (hd v)" by (blast intro: list.set_sel, simp)
  then show ?thesis by (auto simp: py_strip_eq_Nil)
qed

lemma parse_notice_body:
  assumes "notice_ok wrap e"
  shows "parse_notice_fields (notice_body wrap e) =
    [(''Version'', ne_version e), (''Purpose'', ne_purpose e), (''License'', ne_license e), (''Source'', ne_source e),
     (''Copyright notice'', ne_copyright_notice e),
     (''Bundled in distribution'', if ne_bundled_in_distribution e then ''yes'' else ''no''), (''Notes'', ne_notes e)]"
proof -
  have "notice_line [] ([], None) = ([], None)" by (simp add: notice_line_def)
  then show ?thesis using assms
    unfolding parse_notice_fields_def notice_body_def notice_ok_def
    by (simp add: wraps_field bundled_field [of True, simplified] bundled_field [of False, simplified])
qed

lemma parse_yes_no_written: "parse_yes_no (if b then ''yes'' else ''no'') = Inr b"
proof -
  have "parse_yes_no ''yes'' = Inr True" "parse_yes_no ''no'' = Inr False" by code_simp+
  then show ?thesis by simp
qed

lemma yes_no_not_blank: "py_strip (if b then ''yes'' else ''no'') \<noteq> []"
proof -
  have "py_strip ''yes'' \<noteq> []" "py_strip ''no'' \<noteq> []" by code_simp+
  then show ?thesis by simp
qed

subsection \<open>Notices\<close>

lemma field_lines_ok:
  assumes "l \<in> set (field_lines key ls)" "\<forall>c \<in> set key. \<not> is_line_break c" "\<forall>m \<in> set ls. line_ok m"
  shows "\<forall>c \<in> set l. \<not> is_line_break c"
proof -
  have "\<not> is_line_break (CHR ''-'')" "\<not> is_line_break (CHR '' '')" "\<not> is_line_break (CHR '':'')" by code_simp+
  then show ?thesis using field_lines_set [OF assms(1)] assms(2,3) by (auto simp: line_ok_def indented_def)
qed

lemma notice_body_no_break:
  assumes "notice_ok wrap e" "l \<in> set (notice_body wrap e)"
  shows "\<forall>c \<in> set l. \<not> is_line_break c"
proof -
  have "l \<in> set (notice_body wrap e @ [[]])" using assms(2) by simp
  from notice_body_cases [OF assms(1) this] show ?thesis using field_lines_ok by auto
qed

lemma last_field_line:
  assumes "ls \<noteq> []" "\<forall>l \<in> set ls. line_ok l"
  shows "field_lines key ls \<noteq> [] \<and> last (field_lines key ls) \<noteq> [] \<and> \<not> is_space (last (last (field_lines key ls)))"
proof -
  obtain l rest where ls: "ls = l # rest" using assms(1) by (cases ls) auto
  show ?thesis
  proof (cases rest rule: rev_cases)
    case Nil
    then show ?thesis using assms line_ok_ends [of l] by (simp add: field_lines_def ls last_append)
  next
    case (snoc front m)
    then have "line_ok m" using assms(2) ls by simp
    then show ?thesis using snoc line_ok_ends [of m] by (simp add: field_lines_def ls indented_def last_append)
  qed
qed

text \<open>A block without the surrounding white space is the lines joined.\<close>

lemma strip_notice_block:
  assumes "notice_ok wrap e"
  shows "py_strip (notice_block wrap e) = str_join [newline] (ne_name e # notice_body wrap e)"
    and "last (ne_name e # notice_body wrap e) \<noteq> []"
proof -
  let ?ls = "ne_name e # notice_body wrap e"
  have name: "line_ok (ne_name e)" using assms by (simp add: notice_ok_def)
  have wrapped: "wrap (ne_notes e) \<noteq> []" "\<forall>l \<in> set (wrap (ne_notes e)). line_ok l"
    using assms by (auto simp: notice_ok_def wraps_def)
  have "last ?ls = last (field_lines ''Notes'' (wrap (ne_notes e)))"
    using last_field_line [OF wrapped, of "''Notes''"] by (simp add: notice_body_def)
  then show ends: "last ?ls \<noteq> []" using last_field_line [OF wrapped, of "''Notes''"] by simp
  have join: "str_join [newline] ?ls \<noteq> []" "\<not> is_space (hd (str_join [newline] ?ls))"
    "\<not> is_space (last (str_join [newline] ?ls))"
    using str_join_ends [of ?ls "[newline]"] line_ok_ends [OF name] ends
      \<open>last ?ls = last (field_lines ''Notes'' (wrap (ne_notes e)))\<close> last_field_line [OF wrapped, of "''Notes''"]
    by simp_all
  have "notice_block wrap e = str_join [newline] ?ls @ [newline, newline]"
    using unlines_join [of ?ls] by (simp add: notice_block_def unlines_def)
  then show "py_strip (notice_block wrap e) = str_join [newline] ?ls"
    using py_strip_core [OF join, of "[newline, newline]" "[]"] by simp
qed

lemma parse_notice_block:
  assumes "notice_ok wrap e"
  shows "parse_notice (py_strip (notice_block wrap e)) = Inr e"
proof -
  have "split_lines (py_strip (notice_block wrap e)) = ne_name e # notice_body wrap e"
    unfolding strip_notice_block(1) [OF assms]
    by (rule split_lines_join [OF _ strip_notice_block(2) [OF assms]])
      (use assms notice_body_no_break [OF assms] in \<open>auto simp: notice_ok_def line_ok_def\<close>)
  moreover have "py_strip (ne_name e) = ne_name e" using assms by (simp add: notice_ok_def line_ok_def)
  moreover have "py_strip (ne_version e) \<noteq> []" "py_strip (ne_purpose e) \<noteq> []" "py_strip (ne_license e) \<noteq> []"
    "py_strip (ne_source e) \<noteq> []" "py_strip (ne_copyright_notice e) \<noteq> []" "py_strip (ne_notes e) \<noteq> []"
    using assms wraps_not_blank by (auto simp: notice_ok_def)
  ultimately show ?thesis
    using yes_no_not_blank [of "ne_bundled_in_distribution e"] parse_yes_no_written [of "ne_bundled_in_distribution e"]
    by (simp add: parse_notice_def parse_notice_body [OF assms] required_field_def Let_def)
qed

lemma notice_not_preamble:
  assumes "notice_ok wrap e"
  shows "py_strip (notice_block wrap e) \<noteq> [] \<and> \<not> has_prefix ''The following packages'' (py_strip (notice_block wrap e))"
proof -
  obtain l ls where body: "notice_body wrap e = l # ls" by (simp add: notice_body_def)
  have "newline \<notin> set ''The following packages''" by code_simp
  then show ?thesis
    using assms line_ok_ends [of "ne_name e"]
      has_prefix_line [of newline "''The following packages''" "ne_name e" "str_join [newline] (notice_body wrap e)"]
    by (simp add: strip_notice_block(1) body notice_ok_def del: has_prefix_simps)
qed

lemma parse_notice_blocks:
  "\<forall>e \<in> set es. notice_ok wrap e \<Longrightarrow>
   distinct (map fst entries @ map (\<lambda>e. normalize_name (ne_name e)) es) \<Longrightarrow>
   parse_blocks (map (notice_block wrap) es) entries = Inr (entries @ map (\<lambda>e. (normalize_name (ne_name e), e)) es)"
proof (induction es arbitrary: entries)
  case (Cons e es)
  have ok: "notice_ok wrap e" using Cons.prems(1) by simp
  have "map_of entries (normalize_name (ne_name e)) = None"
    using Cons.prems(2) by (auto simp: map_of_eq_None_iff)
  then have "AList.update (normalize_name (ne_name e)) e entries = entries @ [(normalize_name (ne_name e), e)]"
    by (rule length_update_new)
  moreover have "parse_blocks (map (notice_block wrap) es) (entries @ [(normalize_name (ne_name e), e)]) =
      Inr ((entries @ [(normalize_name (ne_name e), e)]) @ map (\<lambda>e. (normalize_name (ne_name e), e)) es)"
    using Cons.prems by (intro Cons.IH) auto
  ultimately show ?case using notice_not_preamble [OF ok] by (simp add: parse_notice_block [OF ok] Let_def)
qed simp

text \<open>
  C20: notices written in the documented format are read back. If the runtime section is a
  preamble followed by written notices of different packages, with values wrapped over lines
  in any way, parsing gives exactly these notices under their normalized names.
\<close>

theorem notices_round_trip:
  assumes "between text ''## Runtime Dependencies'' ''## Development Dependencies'' =
      Inr (unlines preamble @ concat (map (written_notice wrap) es))"
    and "preamble_ok preamble" "\<forall>e \<in> set es. notice_ok wrap e" "distinct (map (\<lambda>e. normalize_name (ne_name e)) es)"
  shows "parse_runtime_notices text = Inr (map (\<lambda>e. (normalize_name (ne_name e), e)) es)"
proof -
  have "split_headings True (unlines preamble @ concat (map (written_notice wrap) es)) =
      unlines preamble # map (notice_block wrap) es"
    using assms(2,3) split_headings_lines [of preamble "concat (map (written_notice wrap) es)"]
    by (simp add: preamble_ok_def split_headings_notices glue_def)
  then show ?thesis
    using assms parse_notice_blocks [of es wrap "[]"]
    by (auto simp: parse_runtime_notices_def preamble_ok_def Let_def)
qed

section \<open>Witnesses\<close>

declare closure_loop.simps [code]

text \<open>Evaluation compares prefixes character by character.\<close>

lemma has_prefix_code [code]:
  "has_prefix [] s = True" "has_prefix (c # p) [] = False"
  "has_prefix (c # p) (d # s) = (if c = d then has_prefix p s else False)"
  by simp_all

text \<open>A package whose requirements name a second one and, for an extra, a third that is not installed.\<close>

definition ex_packages :: package_env where
  "ex_packages =
     \<lparr>pk_distribution = (\<lambda>n.
        if n = ''web-kit'' then Inr \<lparr>ds_version = ''1.0'', ds_requires = Some [''h.11>=0.9'', ''tests; extra'']\<rparr>
        else if n = ''h-11'' then Inr \<lparr>ds_version = ''0.9'', ds_requires = None\<rparr>
        else Inl (exn (OtherError ''PackageNotFoundError'') n)),
      pk_requirement = (\<lambda>r.
        if r = ''h.11>=0.9'' then Inr \<lparr>rm_name = ''H.11'', rm_marker = None\<rparr>
        else Inr \<lparr>rm_name = ''tests'', rm_marker = Some (Inr False)\<rparr>)\<rparr>"

definition ex_pyproject :: pyval where
  "ex_pyproject = PDict [(PStr ''project'', PDict [(PStr ''dependencies'', PList [PStr '' Web_Kit==1.0''])])]"

definition ex_notices :: "notice_entry list" where
  "ex_notices =
     [\<lparr>ne_name = ''Web_Kit'', ne_version = ''1.0'', ne_purpose = ''serves the API'', ne_license = ''MIT'',
       ne_source = ''https://pypi.org'', ne_copyright_notice = ''See license.'', ne_bundled_in_distribution = True,
       ne_notes = ''declared directly''\<rparr>,
      \<lparr>ne_name = ''h.11'', ne_version = ''0.9'', ne_purpose = ''transitive'', ne_license = ''MIT'',
       ne_source = ''https://pypi.org'', ne_copyright_notice = ''See license.'', ne_bundled_in_distribution = False,
       ne_notes = ''none''\<rparr>]"

definition ex_wrap :: "string \<Rightarrow> string list" where
  "ex_wrap v = (if v = ''serves the API'' then [''serves'', ''the API''] else [v])"

definition ex_preamble :: "string list" where
  "ex_preamble = [[], ''The following packages are installed.'', []]"

definition ex_notices_text :: string where
  "ex_notices_text = ''# Notices'' @ [newline] @ ''## Runtime Dependencies'' @ unlines ex_preamble @
     concat (map (written_notice ex_wrap) ex_notices) @ ''## Development Dependencies'' @ [newline]"

lemma ex_needed: "needed ex_packages (set [''web-kit'']) n \<Longrightarrow> n \<in> {''web-kit'', ''h-11''}"
proof (induction rule: needed.induct)
  case (needed_by n m)
  have h11: "normalize_name ''H.11'' = ''h-11''" by code_simp
  show ?case using needed_by.IH needed_by.hyps(2)
    by (auto simp: depends_on_def ex_packages_def requires_of_def skip_requirement_def h11 split: if_splits)
qed simp

theorem closure_exact_witness:
  "\<exists>r. collect_runtime_dependency_closure ex_packages [''web-kit''] = Some r \<and>
    (case r of
       Inr resolved \<Rightarrow> distinct (map fst resolved) \<and>
         (\<forall>n v. map_of resolved n = Some v \<longleftrightarrow>
            needed ex_packages (set [''web-kit'']) n \<and> (\<exists>d. pk_distribution ex_packages n = Inr d \<and> v = ds_version d))
     | Inl e \<Rightarrow> \<exists>n. needed ex_packages (set [''web-kit'']) n \<and> fails_with ex_packages n e)"
proof (rule closure_exact)
  show "finite {n. needed ex_packages (set [''web-kit'']) n}"
    by (rule finite_subset [of _ "{''web-kit'', ''h-11''}"]) (use ex_needed in auto)
qed

lemma ex_between:
  "between ex_notices_text ''## Runtime Dependencies'' ''## Development Dependencies'' =
     Inr (unlines ex_preamble @ concat (map (written_notice ex_wrap) ex_notices))"
  by code_simp

lemma ex_notices_ok:
  "preamble_ok ex_preamble" "list_all (notice_ok ex_wrap) ex_notices"
  "map (\<lambda>e. normalize_name (ne_name e)) ex_notices = [''web-kit'', ''h-11'']"
  by code_simp+

theorem notices_round_trip_witness:
  "parse_runtime_notices ex_notices_text = Inr [(''web-kit'', ex_notices ! 0), (''h-11'', ex_notices ! 1)]"
proof -
  have "distinct (map (\<lambda>e. normalize_name (ne_name e)) ex_notices)" by (simp add: ex_notices_ok(3))
  from notices_round_trip [OF ex_between ex_notices_ok(1) _ this] ex_notices_ok(2)
  have "parse_runtime_notices ex_notices_text = Inr (map (\<lambda>e. (normalize_name (ne_name e), e)) ex_notices)"
    by (simp add: list_all_iff)
  moreover have "normalize_name ''Web_Kit'' = ''web-kit''" "normalize_name ''h.11'' = ''h-11''" by code_simp+
  ultimately show ?thesis by (simp add: ex_notices_def)
qed

lemma ex_generated:
  "\<exists>v. generate_credits ex_packages (\<lambda>v. []) (Inr ex_pyproject) (Inr ex_notices_text) = Some (Inr v)"
proof -
  have "(case generate_credits ex_packages (\<lambda>v. []) (Inr ex_pyproject) (Inr ex_notices_text) of
      Some (Inr v) \<Rightarrow> True | _ \<Rightarrow> False)" by code_simp
  then show ?thesis by (auto split: option.splits sum.splits)
qed

end
