(* ===== verification/Arguments.thy ===== *)
theory Arguments
  imports Config
begin

text \<open>
  The command lines of src/src/plc_gateway/__main__.py and src/tools/generate_credits.py: what
  the two programs use of argparse, that is optional arguments with the actions store (texts and
  integers) and store_true, and the help options. A parser is the table of its option strings
  with the defaults; parsing classifies the arguments (option, argument, \<^verbatim>\<open>--\<close>), then consumes
  them from left to right and gives the namespace or the exit status of the process: 0 after the
  help, 2 after an error. Options may be abbreviated to a unique prefix. Where Python versions
  differ, an ambiguous option is an error when it is reached, as in the current 3.12 and 3.13.
  Messages are not modelled.

  Shown: settings written on the command line, in any of the ways argparse reads them, are
  read back in order, and a parsed namespace has exactly the declared attributes and types.
\<close>

section \<open>Parsers\<close>

datatype arg_action = Act_Help | Act_Flag | Act_Text | Act_Int

record arg_parser =
  ap_options :: "(string \<times> arg_action) list"
  ap_defaults :: "(string \<times> pyval) list"

type_synonym namespace = "(string \<times> pyval) list"

definition new_parser :: arg_parser where
  "new_parser = \<lparr>ap_options = [(''-h'', Act_Help), (''--help'', Act_Help)], ap_defaults = []\<rparr>"

text \<open>The attribute of an option: its name without the dashes in front, the others as underscores.\<close>

definition dest_of :: "string \<Rightarrow> string" where
  "dest_of name = map (\<lambda>c. if c = CHR ''-'' then CHR ''_'' else c) (dropWhile (\<lambda>c. c = CHR ''-'') name)"

definition add_argument :: "string \<Rightarrow> arg_action \<Rightarrow> pyval \<Rightarrow> arg_parser \<Rightarrow> arg_parser" where
  "add_argument name act dflt p =
     p\<lparr>ap_options := ap_options p @ [(name, act)], ap_defaults := ap_defaults p @ [(dest_of name, dflt)]\<rparr>"

section \<open>Classification\<close>

text \<open>
  An option found for an argument: the action, the option string and the text attached to it;
  the flag says that the text follows an equals sign and not a single-letter option directly.
\<close>

datatype found_option = Unknown_Option | Found arg_action string "(bool \<times> string) option"

text \<open>\<^verbatim>\<open>s.partition("=")\<close>: the text behind the sign only if there is one.\<close>

fun partition_eq :: "string \<Rightarrow> string \<times> string option" where
  "partition_eq [] = ([], None)"
| "partition_eq (c # s) =
     (if c = CHR ''='' then ([], Some s) else case partition_eq s of (a, b) \<Rightarrow> (c # a, b))"

definition after_eq :: "string \<Rightarrow> (bool \<times> string) option" where
  "after_eq s = map_option (Pair True) (snd (partition_eq s))"

definition option_tuples :: "(string \<times> arg_action) list \<Rightarrow> string \<Rightarrow> found_option list" where
  "option_tuples opts s =
     (if s ! 1 = CHR ''-'' then
        map (\<lambda>(n, a). Found a n (after_eq s)) (filter (\<lambda>(n, a). has_prefix (fst (partition_eq s)) n) opts)
      else concat (map (\<lambda>(n, a).
        if n = take 2 s then [Found a n (Some (False, drop 2 s))]
        else if has_prefix (fst (partition_eq s)) n then [Found a n (after_eq s)] else []) opts))"

text \<open>\<^verbatim>\<open>-\d+\<close> or \<^verbatim>\<open>-\d*.\d+\<close>\<close>

definition negative_number :: "string \<Rightarrow> bool" where
  "negative_number s =
     (case s of [] \<Rightarrow> False
      | c # t \<Rightarrow> c = CHR ''-'' \<and>
          (let ds = dropWhile is_digit t
           in (ds = [] \<and> t \<noteq> []) \<or> (ds \<noteq> [] \<and> hd ds = CHR ''.'' \<and> tl ds \<noteq> [] \<and> list_all is_digit (tl ds))))"

text \<open>\<open>None\<close> is an argument of another option or a positional one.\<close>

definition parse_optional :: "(string \<times> arg_action) list \<Rightarrow> string \<Rightarrow> found_option list option" where
  "parse_optional opts s =
     (if s = [] \<or> hd s \<noteq> CHR ''-'' then None
      else case map_of opts s of
          Some a \<Rightarrow> Some [Found a s None]
        | None \<Rightarrow>
            if length s = 1 then None
            else case (partition_eq s, map_of opts (fst (partition_eq s))) of
                ((n, Some v), Some a) \<Rightarrow> Some [Found a n (Some (True, v))]
              | _ \<Rightarrow>
                  (case option_tuples opts s of
                     [] \<Rightarrow> if negative_number s \<or> CHR '' '' \<in> set s then None else Some [Unknown_Option]
                   | fs \<Rightarrow> Some fs))"

datatype arg_token = Tok_Arg | Tok_Dashes | Tok_Option "found_option list"

fun arg_pattern :: "(string \<times> arg_action) list \<Rightarrow> string list \<Rightarrow> (string \<times> arg_token) list" where
  "arg_pattern opts [] = []"
| "arg_pattern opts (s # ss) =
     (if s = ''--'' then (s, Tok_Dashes) # map (\<lambda>t. (t, Tok_Arg)) ss
      else (s, case parse_optional opts s of None \<Rightarrow> Tok_Arg | Some fs \<Rightarrow> Tok_Option fs) # arg_pattern opts ss)"

section \<open>Parsing\<close>

definition takes_value :: "arg_action \<Rightarrow> bool" where
  "takes_value a \<longleftrightarrow> a = Act_Text \<or> a = Act_Int"

text \<open>An action with the text given to it (none for the help and for flags); an error is the exit status.\<close>

definition take_action :: "arg_action \<Rightarrow> string \<Rightarrow> string \<Rightarrow> namespace \<Rightarrow> int + namespace" where
  "take_action a name v ns =
     (case a of
        Act_Help \<Rightarrow> Inl 0
      | Act_Flag \<Rightarrow> Inr (AList.update (dest_of name) (PBool True) ns)
      | Act_Text \<Rightarrow> Inr (AList.update (dest_of name) (PStr v) ns)
      | Act_Int \<Rightarrow> (case py_int v of None \<Rightarrow> Inl 2 | Some n \<Rightarrow> Inr (AList.update (dest_of name) (PInt n) ns)))"

text \<open>
  The text behind \<^verbatim>\<open>-h\<close>, the only single-letter option: more letters \<^verbatim>\<open>h\<close> mean the same, an equals
  sign or a dash is an error, and any other letter ends the argument.
\<close>

fun help_letters :: "bool \<Rightarrow> string \<Rightarrow> int" where
  "help_letters True v = 2"
| "help_letters False [] = 0"
| "help_letters False (c # cs) =
     (if c = CHR ''-'' then 2
      else if c = CHR ''h'' then (if cs \<noteq> [] \<and> hd cs = CHR ''='' then 2 else help_letters False cs)
      else 0)"

text \<open>Left to right; what is no option and no argument of one is left over.\<close>

fun consume_args ::
  "(string \<times> arg_token) list \<Rightarrow> namespace \<Rightarrow> string list \<Rightarrow> int + namespace \<times> string list" where
  "consume_args [] ns extras = Inr (ns, extras)"
| "consume_args ((s, Tok_Option [Unknown_Option]) # ts) ns extras = consume_args ts ns (extras @ [s])"
| "consume_args ((s, Tok_Option [Found a n (Some (eq, v))]) # ts) ns extras =
     (if takes_value a then rbind (take_action a n v ns) (\<lambda>ns'. consume_args ts ns' extras)
      else if n = ''-h'' then Inl (help_letters eq v)
      else Inl 2)"
| "consume_args ((s, Tok_Option [Found a n None]) # ts) ns extras =
     (if takes_value a then
        (case ts of
           (v, Tok_Arg) # ts' \<Rightarrow> rbind (take_action a n v ns) (\<lambda>ns'. consume_args ts' ns' extras)
         | _ \<Rightarrow> Inl 2)
      else rbind (take_action a n [] ns) (\<lambda>ns'. consume_args ts ns' extras))"
| "consume_args ((s, Tok_Option _) # ts) ns extras = Inl 2"
| "consume_args ((s, _) # ts) ns extras = consume_args ts ns (extras @ [s])"

definition parse_args :: "arg_parser \<Rightarrow> string list \<Rightarrow> int + namespace" where
  "parse_args p argv = rbind (consume_args (arg_pattern (ap_options p) argv) (ap_defaults p) [])
     (\<lambda>(ns, extras). if extras = [] then Inr ns else Inl 2)"

text \<open>\<^verbatim>\<open>args.name\<close>\<close>

definition arg_bool :: "namespace \<Rightarrow> string \<Rightarrow> bool" where
  "arg_bool ns d = (map_of ns d = Some (PBool True))"

definition arg_text :: "namespace \<Rightarrow> string \<Rightarrow> string option" where
  "arg_text ns d = (case map_of ns d of Some (PStr s) \<Rightarrow> Some s | _ \<Rightarrow> None)"

definition arg_int :: "namespace \<Rightarrow> string \<Rightarrow> int" where
  "arg_int ns d = (case map_of ns d of Some (PInt n) \<Rightarrow> n | _ \<Rightarrow> 0)"

section \<open>Settings\<close>

text \<open>
  What a command line can say: a flag, or an option with its value behind an equals sign or as
  the next argument. The option is given by its name or by a prefix that only it has.
\<close>

datatype setting = Flag_Given string | Value_Joined string string | Value_Next string string

fun render :: "setting \<Rightarrow> string list" where
  "render (Flag_Given g) = [g]"
| "render (Value_Joined g v) = [g @ ''='' @ v]"
| "render (Value_Next g v) = [g, v]"

definition option_named :: "(string \<times> arg_action) list \<Rightarrow> string \<Rightarrow> (string \<times> arg_action) option" where
  "option_named opts g =
     (if CHR ''='' \<in> set g \<or> g = ''--'' then None
      else case map_of opts g of
          Some a \<Rightarrow> Some (g, a)
        | None \<Rightarrow>
            if take 2 g = ''--'' then
              (case filter (\<lambda>(n, a). has_prefix g n) opts of [na] \<Rightarrow> Some na | _ \<Rightarrow> None)
            else None)"

definition read_value :: "string \<times> arg_action \<Rightarrow> string \<Rightarrow> (string \<times> pyval) option" where
  "read_value na v =
     (case snd na of
        Act_Text \<Rightarrow> Some (dest_of (fst na), PStr v)
      | Act_Int \<Rightarrow> map_option (\<lambda>n. (dest_of (fst na), PInt n)) (py_int v)
      | _ \<Rightarrow> None)"

text \<open>The assignment a setting makes, or \<open>None\<close> if it is not a valid one.\<close>

fun setting_of :: "(string \<times> arg_action) list \<Rightarrow> setting \<Rightarrow> (string \<times> pyval) option" where
  "setting_of opts (Flag_Given g) =
     (case option_named opts g of
        Some (n, Act_Flag) \<Rightarrow> Some (dest_of n, PBool True)
      | _ \<Rightarrow> None)"
| "setting_of opts (Value_Joined g v) =
     (case option_named opts g of None \<Rightarrow> None | Some na \<Rightarrow> read_value na v)"
| "setting_of opts (Value_Next g v) =
     (if v = ''--'' \<or> parse_optional opts v \<noteq> None then None
      else case option_named opts g of None \<Rightarrow> None | Some na \<Rightarrow> read_value na v)"

definition assign :: "(string \<times> pyval) list \<Rightarrow> namespace \<Rightarrow> namespace" where
  "assign vs ns = fold (\<lambda>(d, v). AList.update d v) vs ns"

text \<open>The parsers of the two programs: the help options first, then long options.\<close>

definition parser_ok :: "arg_parser \<Rightarrow> bool" where
  "parser_ok p \<longleftrightarrow> take 2 (ap_options p) = ap_options new_parser \<and>
     list_all (\<lambda>(n, a). take 2 n = ''--'' \<and> n \<noteq> ''--'' \<and> CHR ''='' \<notin> set n) (drop 2 (ap_options p))"

lemma parser_ok_option:
  assumes "parser_ok p" "(n, a) \<in> set (ap_options p)"
  shows "n = ''-h'' \<and> a = Act_Help \<or> take 2 n = ''--'' \<and> n \<noteq> ''--'' \<and> CHR ''='' \<notin> set n"
proof -
  have "ap_options p = take 2 (ap_options p) @ drop 2 (ap_options p)" by simp
  then have "(n, a) \<in> set (take 2 (ap_options p)) \<or> (n, a) \<in> set (drop 2 (ap_options p))"
    using assms(2) by (metis Un_iff set_append)
  then show ?thesis using assms(1) by (auto simp: parser_ok_def new_parser_def list_all_iff)
qed

lemma parser_ok_help:
  assumes "parser_ok p"
  obtains opts where "ap_options p = (''-h'', Act_Help) # (''--help'', Act_Help) # opts"
proof -
  have "ap_options p = take 2 (ap_options p) @ drop 2 (ap_options p)" by simp
  also have "take 2 (ap_options p) = [(''-h'', Act_Help), (''--help'', Act_Help)]"
    using assms by (simp add: parser_ok_def new_parser_def)
  finally show ?thesis using that by simp
qed

lemma take2_dashes: "take 2 n = ''--'' \<Longrightarrow> \<exists>t. n = CHR ''-'' # CHR ''-'' # t"
  by (cases n; cases "tl n") auto

lemma option_starts:
  assumes "parser_ok p" "map_of (ap_options p) n = Some a"
  shows "n \<noteq> [] \<and> hd n = CHR ''-'' \<and> CHR ''='' \<notin> set n \<and> n \<noteq> ''--''"
  using parser_ok_option [OF assms(1) map_of_SomeD [OF assms(2)]] by (auto dest: take2_dashes)

paragraph \<open>Texts with an equals sign\<close>

lemma partition_eq_none [simp]: "CHR ''='' \<notin> set s \<Longrightarrow> partition_eq s = (s, None)"
  by (induction s) auto

lemma partition_eq_some [simp]: "CHR ''='' \<notin> set g \<Longrightarrow> partition_eq (g @ CHR ''='' # v) = (g, Some v)"
  by (induction g) auto

lemma partition_eq_split:
  "(CHR ''='' \<notin> set s \<and> partition_eq s = (s, None)) \<or>
   (\<exists>g v. CHR ''='' \<notin> set g \<and> s = g @ CHR ''='' # v \<and> partition_eq s = (g, Some v))"
  using split_list_first [of "CHR ''=''" s] by (cases "CHR ''='' \<in> set s") auto

lemma equals_no_option: "parser_ok p \<Longrightarrow> map_of (ap_options p) (g @ CHR ''='' # v) = None"
  using option_starts [of p "g @ CHR ''='' # v"] by (cases "map_of (ap_options p) (g @ CHR ''='' # v)") auto

lemma option_named_exact:
  assumes "parser_ok p" "map_of (ap_options p) g = Some a"
  shows "option_named (ap_options p) g = Some (g, a)"
  using option_starts [OF assms] assms by (simp add: option_named_def)

paragraph \<open>Classification of what a setting writes\<close>

lemma option_tuples_long:
  assumes "take 2 s = ''--''"
  shows "option_tuples opts s =
    map (\<lambda>(n, a). Found a n (after_eq s)) (filter (\<lambda>(n, a). has_prefix (fst (partition_eq s)) n) opts)"
  using take2_dashes [OF assms] by (auto simp: option_tuples_def)

lemma option_named_cases:
  assumes "option_named opts g = Some (n, a)"
  shows "CHR ''='' \<notin> set g \<and> g \<noteq> ''--'' \<and> (map_of opts g = Some a \<and> n = g \<or>
    map_of opts g = None \<and> take 2 g = ''--'' \<and> filter (\<lambda>(n, a). has_prefix g n) opts = [(n, a)])"
  using assms by (auto simp: option_named_def split: if_splits option.splits list.splits)

lemma parse_named:
  assumes "parser_ok p" "option_named (ap_options p) g = Some (n, a)"
  shows "parse_optional (ap_options p) g = Some [Found a n None]"
  using option_named_cases [OF assms(2)] option_starts [OF assms(1), of g]
  by (auto simp: parse_optional_def option_tuples_long after_eq_def dest!: take2_dashes)

lemma parse_joined:
  assumes "parser_ok p" "option_named (ap_options p) g = Some (n, a)"
  shows "parse_optional (ap_options p) (g @ CHR ''='' # v) = Some [Found a n (Some (True, v))]"
proof -
  have long: "take 2 g = ''--'' \<Longrightarrow> take 2 (g @ CHR ''='' # v) = ''--''" by (auto dest: take2_dashes)
  show ?thesis
    using option_named_cases [OF assms(2)] option_starts [OF assms(1), of g] equals_no_option [OF assms(1)] long
    by (auto simp: parse_optional_def option_tuples_long after_eq_def dest!: take2_dashes)
qed

paragraph \<open>What a single option found comes from\<close>

lemma long_tuples_found:
  assumes "take 2 s = ''--''" "option_tuples opts s = [Found a n e]" "map_of opts (fst (partition_eq s)) = None"
    "fst (partition_eq s) \<noteq> ''--''"
  shows "e = after_eq s \<and> option_named opts (fst (partition_eq s)) = Some (n, a)"
proof -
  let ?g = "fst (partition_eq s)"
  from assms(1,2) have e: "e = after_eq s" and one: "filter (\<lambda>(n, a). has_prefix ?g n) opts = [(n, a)]"
    by (auto simp: option_tuples_long map_eq_Cons_conv)
  have g: "CHR ''='' \<notin> set ?g" using partition_eq_split [of s] by auto
  moreover have "take 2 ?g = ''--''"
    using take2_dashes [OF assms(1)] assms(4) g partition_eq_split [of s] by (auto simp: Cons_eq_append_conv)
  ultimately show ?thesis using e one assms(3,4) by (simp add: option_named_def)
qed

lemma short_tuples_found:
  assumes "parser_ok p" "s = CHR ''-'' # c # t" "c \<noteq> CHR ''-''" "option_tuples (ap_options p) s = [Found a n e]"
  shows "a = Act_Help"
proof -
  obtain opts where opts: "ap_options p = (''-h'', Act_Help) # (''--help'', Act_Help) # opts"
    using parser_ok_help [OF assms(1)] .
  show ?thesis
  proof (cases "c = CHR ''=''")
    case True
    then show ?thesis using assms by (simp add: option_tuples_def opts has_prefix_def)
  next
    case False
    have "Found a n e \<in> set (option_tuples (ap_options p) s)" using assms(4) by simp
    then obtain m b where m: "(m, b) \<in> set (ap_options p)" "m = take 2 s \<or> has_prefix (fst (partition_eq s)) m" "a = b"
      using assms(2,3) by (auto simp: option_tuples_def split: if_splits)
    have "\<not> has_prefix (fst (partition_eq s)) m \<or> take 2 m \<noteq> ''--''"
      using assms(2,3) False by (auto simp: has_prefix_def split: prod.splits dest!: take2_dashes)
    moreover have "take 2 m \<noteq> ''--'' \<or> m \<noteq> take 2 s" using assms(2,3) by auto
    ultimately show ?thesis using parser_ok_option [OF assms(1) m(1)] m(2,3) by auto
  qed
qed

lemma parse_optional_unnamed:
  assumes "map_of opts s = None" "snd (partition_eq s) = None \<or> map_of opts (fst (partition_eq s)) = None"
    "s \<noteq> []" "hd s = CHR ''-''" "length s \<noteq> 1"
  shows "parse_optional opts s = (case option_tuples opts s of
      [] \<Rightarrow> if negative_number s \<or> CHR '' '' \<in> set s then None else Some [Unknown_Option] | fs \<Rightarrow> Some fs)"
proof -
  obtain g w where "partition_eq s = (g, w)" by fastforce
  then show ?thesis using assms by (cases w; cases "map_of opts g") (simp_all add: parse_optional_def)
qed

lemma parse_optional_found:
  assumes "parse_optional opts s = Some [Found a n e]" "s \<noteq> []" "hd s = CHR ''-''"
  obtains "map_of opts s = Some a" "e = None" "n = s"
    | v where "partition_eq s = (fst (partition_eq s), Some v)" "map_of opts (fst (partition_eq s)) = Some a"
        "n = fst (partition_eq s)" "e = Some (True, v)"
    | "map_of opts s = None" "snd (partition_eq s) = None \<or> map_of opts (fst (partition_eq s)) = None"
        "option_tuples opts s = [Found a n e]" "length s \<noteq> 1"
proof (cases "map_of opts s")
  case (Some b)
  have "parse_optional opts s = Some [Found b s None]" using assms(2,3) Some by (simp add: parse_optional_def)
  then show ?thesis using assms(1) Some by (intro that(1)) simp_all
next
  case None
  then have len: "length s \<noteq> 1" using assms by (auto simp: parse_optional_def)
  show ?thesis
  proof (cases "snd (partition_eq s) = None \<or> map_of opts (fst (partition_eq s)) = None")
    case True
    have "parse_optional opts s = (case option_tuples opts s of
        [] \<Rightarrow> if negative_number s \<or> CHR '' '' \<in> set s then None else Some [Unknown_Option] | fs \<Rightarrow> Some fs)"
      by (rule parse_optional_unnamed [OF None True assms(2,3) len])
    then have "option_tuples opts s = [Found a n e]"
      using assms(1) by (cases "option_tuples opts s") (auto split: if_splits)
    then show ?thesis using that(3) None True len by blast
  next
    case False
    then obtain v b where "partition_eq s = (fst (partition_eq s), Some v)" "map_of opts (fst (partition_eq s)) = Some b"
      by (metis option.exhaust prod.collapse)
    moreover from this have "n = fst (partition_eq s)" "e = Some (True, v)" "a = b"
      using assms None len by (cases "partition_eq s"; simp add: parse_optional_def)+
    ultimately show ?thesis using that(2) by blast
  qed
qed

lemma found_option:
  assumes "parser_ok p" "parse_optional (ap_options p) s = Some [Found a n e]" "a \<noteq> Act_Help" "s \<noteq> ''--''"
  shows "(e = None \<and> option_named (ap_options p) s = Some (n, a)) \<or>
    (\<exists>g v. s = g @ CHR ''='' # v \<and> e = Some (True, v) \<and> option_named (ap_options p) g = Some (n, a)) \<or>
    (\<exists>v. e = Some (True, v) \<and> s = ''--='' @ v \<and> filter (\<lambda>(n, a). has_prefix ''--'' n) (ap_options p) = [(n, a)])"
proof -
  let ?g = "fst (partition_eq s)"
  have start: "s \<noteq> []" "hd s = CHR ''-''" using assms(2) by (auto simp: parse_optional_def split: if_splits)
  consider "map_of (ap_options p) s = Some a" "e = None" "n = s"
    | v where "partition_eq s = (?g, Some v)" "map_of (ap_options p) ?g = Some a" "n = ?g" "e = Some (True, v)"
    | "map_of (ap_options p) s = None" "snd (partition_eq s) = None \<or> map_of (ap_options p) ?g = None"
        "option_tuples (ap_options p) s = [Found a n e]" "length s \<noteq> 1"
    using assms(2) start by (rule parse_optional_found)
  then show ?thesis
  proof cases
    case 1
    then show ?thesis using option_named_exact [OF assms(1)] by simp
  next
    case 2
    then show ?thesis using option_named_exact [OF assms(1), of ?g] partition_eq_split [of s] by auto
  next
    case 3
    have none: "map_of (ap_options p) ?g = None" using 3(1,2) partition_eq_split [of s] by auto
    obtain c t where s: "s = CHR ''-'' # c # t" using start 3(4) by (cases s; cases "tl s") auto
    have c: "c = CHR ''-''" using short_tuples_found [OF assms(1) s _ 3(3)] assms(3) by blast
    then have long: "take 2 s = ''--''" using s by simp
    show ?thesis
    proof (cases "?g = ''--''")
      case True
      then obtain v where v: "s = ''--='' @ v" "partition_eq s = (''--'', Some v)"
        using partition_eq_split [of s] assms(4) by auto
      then have "e = Some (True, v) \<and> filter (\<lambda>(n, a). has_prefix ''--'' n) (ap_options p) = [(n, a)]"
        using 3(3) unfolding option_tuples_long [OF long] by (auto simp: after_eq_def map_eq_Cons_conv)
      then show ?thesis using v(1) by blast
    next
      case False
      then show ?thesis
        using long_tuples_found [OF long 3(3) none] partition_eq_split [of s] by (auto simp: after_eq_def)
    qed
  qed
qed

text \<open>A lone \<^verbatim>\<open>--=\<close> matches every long option, hence the help.\<close>

lemma only_help_matches:
  assumes "parser_ok p" "filter (\<lambda>(n, a). has_prefix ''--'' n) (ap_options p) = [(n, a)]"
  shows "a = Act_Help"
proof -
  obtain opts where "ap_options p = (''-h'', Act_Help) # (''--help'', Act_Help) # opts" using parser_ok_help [OF assms(1)] .
  then show ?thesis using assms(2) by (simp add: has_prefix_def)
qed

paragraph \<open>Consuming a setting\<close>

lemma take_action_value:
  "takes_value a \<Longrightarrow> take_action a n v ns =
     (case read_value (n, a) v of None \<Rightarrow> Inl 2 | Some (d, w) \<Rightarrow> Inr (AList.update d w ns))"
  by (cases a) (auto simp: takes_value_def take_action_def read_value_def split: option.splits)

lemma read_value_takes: "read_value (n, a) v = Some dw \<Longrightarrow> takes_value a"
  by (cases a) (auto simp: takes_value_def read_value_def)

lemma consume_setting:
  assumes "parser_ok p" "setting_of (ap_options p) s = Some (d, w)"
  shows "consume_args (arg_pattern (ap_options p) (render s @ rest)) ns extras =
    consume_args (arg_pattern (ap_options p) rest) (AList.update d w ns) extras"
proof (cases s)
  case (Flag_Given g)
  then obtain n where n: "option_named (ap_options p) g = Some (n, Act_Flag)" "d = dest_of n" "w = PBool True"
    using assms(2) by (auto split: option.splits arg_action.splits)
  moreover have "g \<noteq> ''--''" using option_named_cases [OF n(1)] by blast
  ultimately show ?thesis
    using Flag_Given by (simp add: parse_named [OF assms(1) n(1)] takes_value_def take_action_def)
next
  case (Value_Joined g v)
  then obtain n a where n: "option_named (ap_options p) g = Some (n, a)" "read_value (n, a) v = Some (d, w)"
    using assms(2) by (auto split: option.splits)
  have "g @ CHR ''='' # v \<noteq> ''--''"
  proof
    assume "g @ CHR ''='' # v = ''--''"
    then have "CHR ''='' \<in> set ''--''" by (metis in_set_conv_decomp)
    then show False by simp
  qed
  then show ?thesis
    using Value_Joined n read_value_takes [OF n(2)]
    by (simp add: parse_joined [OF assms(1) n(1)] take_action_value)
next
  case (Value_Next g v)
  then obtain n a where n: "option_named (ap_options p) g = Some (n, a)" "read_value (n, a) v = Some (d, w)"
    and v: "v \<noteq> ''--''" "parse_optional (ap_options p) v = None"
    using assms(2) by (auto split: option.splits if_splits)
  have "g \<noteq> ''--''" using option_named_cases [OF n(1)] by blast
  then show ?thesis
    using Value_Next n v read_value_takes [OF n(2)]
    by (simp add: parse_named [OF assms(1) n(1)] take_action_value)
qed

lemma consume_settings:
  assumes "parser_ok p" "map (setting_of (ap_options p)) ss = map Some vs"
  shows "consume_args (arg_pattern (ap_options p) (concat (map render ss))) ns extras = Inr (assign vs ns, extras)"
  using assms(2)
proof (induction ss arbitrary: vs ns)
  case Nil
  then show ?case by (simp add: assign_def)
next
  case (Cons s ss)
  then obtain d w vs' where vs: "vs = (d, w) # vs'" "setting_of (ap_options p) s = Some (d, w)"
    "map (setting_of (ap_options p)) ss = map Some vs'" by (cases vs) auto
  then show ?case using Cons.IH [OF vs(3)] by (simp add: consume_setting [OF assms(1) vs(2)] assign_def)
qed

paragraph \<open>Everything consumed is a setting\<close>

lemma extras_grow: "consume_args ts ns extras = Inr (ns', extras') \<Longrightarrow> \<exists>more. extras' = extras @ more"
  by (induction ts ns extras rule: consume_args.induct)
    (auto split: if_splits list.splits arg_token.splits prod.splits)

lemma consume_left_over:
  "consume_args ((s, t) # ts) ns extras = Inr (ns', []) \<Longrightarrow> \<exists>a n e. t = Tok_Option [Found a n e]"
  by (erule consume_args.elims) (auto dest: extras_grow [OF sym])

lemma one_setting:
  assumes "setting_of opts s = Some (d, w)"
    "\<exists>ss vs. argv = concat (map render ss) \<and> map (setting_of opts) ss = map Some vs \<and> ns' = assign vs (AList.update d w ns)"
  shows "\<exists>ss vs. render s @ argv = concat (map render ss) \<and> map (setting_of opts) ss = map Some vs \<and> ns' = assign vs ns"
proof -
  obtain ss vs where "argv = concat (map render ss)" "map (setting_of opts) ss = map Some vs"
    "ns' = assign vs (AList.update d w ns)" using assms(2) by blast
  then show ?thesis using assms(1) by (intro exI [of _ "s # ss"] exI [of _ "(d, w) # vs"]) (simp add: assign_def)
qed

lemma consume_sound:
  assumes "parser_ok p" "consume_args (arg_pattern (ap_options p) argv) ns extras = Inr (ns', [])"
  shows "extras = [] \<and> (\<exists>ss vs. argv = concat (map render ss) \<and> map (setting_of (ap_options p)) ss = map Some vs \<and>
    ns' = assign vs ns)"
  using assms(2)
proof (induction argv arbitrary: ns rule: length_induct)
  case (1 argv)
  let ?opts = "ap_options p"
  let ?goal = "\<lambda>argv ns. \<exists>ss vs. argv = concat (map render ss) \<and> map (setting_of ?opts) ss = map Some vs \<and> ns' = assign vs ns"
  note IH = 1(1) [rule_format]
  show ?case
  proof (cases argv)
    case Nil
    then show ?thesis using 1(2) by (auto simp: assign_def intro: exI [of _ "[]"])
  next
    case (Cons s rest)
    obtain a n e where found: "s \<noteq> ''--''" "parse_optional ?opts s = Some [Found a n e]"
    proof -
      have "\<exists>t ts. arg_pattern ?opts argv = (s, t) # ts \<and>
          (\<forall>fs. t = Tok_Option fs \<longrightarrow> s \<noteq> ''--'' \<and> parse_optional ?opts s = Some fs)"
        using Cons by (auto split: option.splits)
      then show ?thesis using that 1(2) by (auto dest!: consume_left_over)
    qed
    have step: "consume_args ((s, Tok_Option [Found a n e]) # arg_pattern ?opts rest) ns extras = Inr (ns', [])"
      using 1(2) found Cons by simp
    have next_arg: thesis if "takes_value a" "e = None"
      "\<And>v rest'. rest = v # rest' \<Longrightarrow> v \<noteq> ''--'' \<Longrightarrow> parse_optional ?opts v = None \<Longrightarrow>
         rbind (take_action a n v ns) (\<lambda>ns1. consume_args (arg_pattern ?opts rest') ns1 extras) = Inr (ns', []) \<Longrightarrow> thesis"
      for thesis using step that by (cases rest) (auto split: if_splits option.splits)
    show ?thesis
    proof (cases "takes_value a")
      case False
      then have flag: "a = Act_Flag" "e = None" using step
        by (cases a; cases e; auto simp: takes_value_def take_action_def split: if_splits)+
      then have "option_named ?opts s = Some (n, Act_Flag)" using found_option [OF assms(1) found(2)] found(1) by auto
      then have "setting_of ?opts (Flag_Given s) = Some (dest_of n, PBool True)" by simp
      moreover have rest: "consume_args (arg_pattern ?opts rest) (AList.update (dest_of n) (PBool True) ns) extras = Inr (ns', [])"
        using step flag by (simp add: takes_value_def take_action_def)
      ultimately show ?thesis using IH [OF _ rest] one_setting [of ?opts "Flag_Given s"] Cons by simp
    next
      case True
      note taken = take_action_value [OF True, of n]
      show ?thesis
      proof (cases e)
        case None
        obtain v rest' where v: "rest = v # rest'" "v \<noteq> ''--''" "parse_optional ?opts v = None"
          "rbind (take_action a n v ns) (\<lambda>ns1. consume_args (arg_pattern ?opts rest') ns1 extras) = Inr (ns', [])"
          using next_arg [OF True None] by blast
        then obtain d w where w: "read_value (n, a) v = Some (d, w)"
          "consume_args (arg_pattern ?opts rest') (AList.update d w ns) extras = Inr (ns', [])"
          by (auto simp: taken split: option.splits)
        have "option_named ?opts s = Some (n, a)" using found_option [OF assms(1) found(2)] found(1) True None
          by (auto simp: takes_value_def)
        then have "setting_of ?opts (Value_Next s v) = Some (d, w)" using v w by simp
        then show ?thesis using IH [OF _ w(2)] one_setting [of ?opts "Value_Next s v" d w rest' ns' ns] Cons v(1) by simp
      next
        case (Some ev)
        then obtain eq v where ev: "e = Some (eq, v)" by (cases ev) auto
        then obtain d w where w: "read_value (n, a) v = Some (d, w)"
          "consume_args (arg_pattern ?opts rest) (AList.update d w ns) extras = Inr (ns', [])"
          using step True by (auto simp: taken split: option.splits)
        obtain g where g: "s = g @ CHR ''='' # v" "option_named ?opts g = Some (n, a)"
          using found_option [OF assms(1) found(2)] found(1) True ev only_help_matches [OF assms(1), of n a]
          by (auto simp: takes_value_def)
        then have "setting_of ?opts (Value_Joined g v) = Some (d, w)" using w by simp
        then show ?thesis using IH [OF _ w(2)] one_setting [of ?opts "Value_Joined g v" d w rest ns' ns] Cons g(1) by simp
      qed
    qed
  qed
qed

text \<open>
  A command line parses exactly if it consists of valid settings, and the namespace has the
  defaults with the settings assigned in order.
\<close>

lemma parse_args_settings:
  assumes "parser_ok p"
  shows "parse_args p argv = Inr ns \<longleftrightarrow> (\<exists>ss vs. argv = concat (map render ss) \<and>
    map (setting_of (ap_options p)) ss = map Some vs \<and> ns = assign vs (ap_defaults p))"
proof
  assume "parse_args p argv = Inr ns"
  then have "consume_args (arg_pattern (ap_options p) argv) (ap_defaults p) [] = Inr (ns, [])"
    by (auto simp: parse_args_def split: if_splits prod.splits)
  then show "\<exists>ss vs. argv = concat (map render ss) \<and> map (setting_of (ap_options p)) ss = map Some vs \<and>
    ns = assign vs (ap_defaults p)" using consume_sound [OF assms] by blast
next
  assume "\<exists>ss vs. argv = concat (map render ss) \<and> map (setting_of (ap_options p)) ss = map Some vs \<and>
    ns = assign vs (ap_defaults p)"
  then show "parse_args p argv = Inr ns" by (auto simp: parse_args_def consume_settings [OF assms])
qed

section \<open>Types of the attributes\<close>

fun arg_typed :: "arg_action \<Rightarrow> pyval \<Rightarrow> bool" where
  "arg_typed Act_Flag (PBool b) = True"
| "arg_typed Act_Text (PStr s) = True"
| "arg_typed Act_Text PNone = True"
| "arg_typed Act_Int (PInt n) = True"
| "arg_typed _ _ = False"

text \<open>A namespace has one attribute per option, in order, of the type of its action.\<close>

definition declared :: "(string \<times> arg_action) list \<Rightarrow> namespace \<Rightarrow> bool" where
  "declared opts ns \<longleftrightarrow> list_all2 (\<lambda>(n, a) (d, v). d = dest_of n \<and> arg_typed a v) opts ns"

lemma declared_names: "declared opts ns \<Longrightarrow> map fst ns = map (dest_of \<circ> fst) opts"
  unfolding declared_def by (induction rule: list_all2_induct) auto

lemma declared_update:
  assumes "declared opts ns" "distinct (map (dest_of \<circ> fst) opts)" "(n, a) \<in> set opts" "arg_typed a v"
  shows "declared opts (AList.update (dest_of n) v ns)"
  using assms(1) [unfolded declared_def] assms(2,3)
proof (induction rule: list_all2_induct)
  case Nil
  then show ?case by (simp add: declared_def)
next
  case (Cons na opts dv ns)
  obtain m b d u where eq: "na = (m, b)" "dv = (d, u)" by (cases na; cases dv) auto
  then have d: "d = dest_of m" using Cons.hyps by simp
  show ?case
  proof (cases "(n, a) = (m, b)")
    case True
    then show ?thesis using Cons.hyps assms(4) d by (simp add: eq declared_def)
  next
    case False
    then have mem: "(n, a) \<in> set opts" using Cons.prems by (auto simp: eq)
    then have "dest_of n \<in> (dest_of \<circ> fst) ` set opts" by force
    moreover have "d \<notin> (dest_of \<circ> fst) ` set opts" using Cons.prems(1) by (simp add: eq d)
    ultimately have "dest_of n \<noteq> d" by blast
    then show ?thesis using Cons.IH Cons.prems Cons.hyps mem by (simp add: eq declared_def d)
  qed
qed

lemma read_value_typed: "read_value (n, a) v = Some (d, w) \<Longrightarrow> d = dest_of n \<and> arg_typed a w"
  by (cases a) (auto simp: read_value_def)

lemma option_named_member: "option_named opts g = Some na \<Longrightarrow> na \<in> set opts"
proof -
  assume *: "option_named opts g = Some na"
  obtain n a where na: "na = (n, a)" by (cases na)
  from * consider "map_of opts g = Some a" "n = g" | "filter (\<lambda>(n, a). has_prefix g n) opts = [(n, a)]"
    unfolding na by (blast dest: option_named_cases)
  then show "na \<in> set opts"
  proof cases
    case 1
    then show ?thesis by (simp add: na map_of_SomeD)
  next
    case 2
    then have "na \<in> set (filter (\<lambda>(n, a). has_prefix g n) opts)" unfolding 2 na by simp
    then show ?thesis by (rule subsetD [OF filter_is_subset])
  qed
qed

lemma setting_typed:
  assumes "setting_of opts s = Some (d, w)"
  shows "\<exists>n a. (n, a) \<in> set opts \<and> d = dest_of n \<and> arg_typed a w"
proof -
  consider g n where "option_named opts g = Some (n, Act_Flag)" "d = dest_of n" "w = PBool True"
    | g v n a where "option_named opts g = Some (n, a)" "read_value (n, a) v = Some (d, w)"
    using assms by (cases s) (auto split: option.splits arg_action.splits if_splits)
  then show ?thesis
  proof cases
    case 1
    then show ?thesis using option_named_member by fastforce
  next
    case 2
    then show ?thesis using option_named_member [OF 2(1)] read_value_typed [OF 2(2)] by blast
  qed
qed

lemma parse_args_declared:
  assumes "parser_ok p" "distinct (map (dest_of \<circ> fst) (drop 2 (ap_options p)))"
    "declared (drop 2 (ap_options p)) (ap_defaults p)" "parse_args p argv = Inr ns"
  shows "declared (drop 2 (ap_options p)) ns"
proof -
  let ?opts = "drop 2 (ap_options p)"
  obtain ss vs where vs: "map (setting_of (ap_options p)) ss = map Some vs" "ns = assign vs (ap_defaults p)"
    using assms(4) parse_args_settings [OF assms(1)] by blast
  have "\<exists>n a. (n, a) \<in> set ?opts \<and> d = dest_of n \<and> arg_typed a w" if dw: "(d, w) \<in> set vs" for d w
  proof -
    obtain s where "setting_of (ap_options p) s = Some (d, w)"
      using arg_cong [OF vs(1), of set] dw by (metis (no_types, lifting) image_iff list.set_map)
    then obtain n a where "(n, a) \<in> set (ap_options p)" "d = dest_of n" "arg_typed a w"
      using setting_typed by blast
    moreover obtain opts where "ap_options p = (''-h'', Act_Help) # (''--help'', Act_Help) # opts"
      using parser_ok_help [OF assms(1)] .
    ultimately show ?thesis by auto
  qed
  then have "declared ?opts (assign vs ns0)" if "declared ?opts ns0" for ns0
    using that
  proof (induction vs arbitrary: ns0)
    case Nil
    then show ?case by (simp add: assign_def)
  next
    case (Cons dw vs)
    obtain d w where dw: "dw = (d, w)" by (cases dw)
    then obtain n a where "(n, a) \<in> set ?opts" "d = dest_of n" "arg_typed a w" using Cons.prems(1) [of d w] by auto
    then have "declared ?opts (AList.update d w ns0)" using declared_update [OF Cons.prems(2) assms(2)] by blast
    then show ?case using Cons.IH Cons.prems(1) by (simp add: dw assign_def)
  qed
  then show ?thesis using vs(2) assms(3) by blast
qed

lemma assign_lookup:
  "map_of (assign vs ns) d = (case map_of (rev vs) d of None \<Rightarrow> map_of ns d | Some v \<Rightarrow> Some v)"
proof (induction vs arbitrary: ns)
  case Nil
  then show ?case by (simp add: assign_def)
next
  case (Cons v vs)
  then show ?case by (cases v) (auto simp: assign_def map_add_def split: option.splits)
qed

text \<open>There is no other way to end than the two exits.\<close>

lemma help_letters_exits: "help_letters b v = 0 \<or> help_letters b v = 2"
  by (induction b v rule: help_letters.induct) auto

lemma consume_exits: "consume_args ts ns extras = Inl c \<Longrightarrow> c = 0 \<or> c = 2"
proof (induction ts ns extras rule: consume_args.induct)
  case (3 s a n eq v ts ns extras)
  then show ?case using help_letters_exits [of eq v]
    by (auto simp: rbind_Inl_iff take_action_def split: if_splits arg_action.splits option.splits)
qed (auto simp: rbind_Inl_iff take_action_def split: if_splits list.splits prod.splits arg_token.splits
    arg_action.splits option.splits)

lemma parse_args_exits: "parse_args p argv = Inl c \<Longrightarrow> c = 0 \<or> c = 2"
  by (auto simp: parse_args_def rbind_Inl_iff dest: consume_exits split: if_splits prod.splits)

end
