(* ===== verification/Application.thy ===== *)
theory Application
  imports Service Credits Worker Writer Arguments
begin

text \<open>
  src/plc_gateway/api/state.py, api/app.py, app/health.py and __main__.py: the
  runtime state shown by the read-only API with its endpoints, the health payload and the
  command line. Routing and the response objects belong to FastAPI; an endpoint
  is the status and the value it returns.

  Shown: every payload is plain JSON, which settings the command runs with for every command
  line and environment, and what it does with an invalid port variable.
\<close>

section \<open>Runtime state\<close>

record api_state =
  as_configuration_loaded :: bool
  as_storage_available :: bool
  as_components :: "component_status list"
  as_workers :: "component_status list"
  as_worker_metrics :: "worker_metrics list"
  as_queue_metrics :: "queue_metrics option"
  as_writer_metrics :: "writer_metrics option"
  as_spool_metrics :: "spool_metrics option"
  as_critical_errors :: "string list"

definition default_api_state :: api_state where
  "default_api_state =
     \<lparr>as_configuration_loaded = True, as_storage_available = True, as_components = [], as_workers = [],
      as_worker_metrics = [], as_queue_metrics = None, as_writer_metrics = None, as_spool_metrics = None,
      as_critical_errors = []\<rparr>"

definition api_ready :: "api_state \<Rightarrow> bool" where
  "api_ready s \<longleftrightarrow> as_configuration_loaded s \<and> as_storage_available s \<and> as_critical_errors s = []"

definition api_degraded :: "api_state \<Rightarrow> bool" where
  "api_degraded s \<longleftrightarrow> list_ex (\<lambda>c. worker_state_value (cs_state c) \<noteq> ''running'') (as_workers s)"

section \<open>Encoding\<close>

text \<open>What the endpoints encode: dataclasses by their fields, enumeration members, times, sequences.\<close>

datatype api_object =
    AO_None
  | AO_Data "(string \<times> api_object) list"
  | AO_Enum string
  | AO_Datetime datetime
  | AO_Seq "api_object list"
  | AO_Dict "(pyval \<times> api_object) list"
  | AO_Plain pyval

fun api_encode :: "(pyval \<Rightarrow> string) \<Rightarrow> api_object \<Rightarrow> pyval"
  and encode_fields :: "(pyval \<Rightarrow> string) \<Rightarrow> (string \<times> api_object) list \<Rightarrow> (pyval \<times> pyval) list"
  and encode_items :: "(pyval \<Rightarrow> string) \<Rightarrow> api_object list \<Rightarrow> pyval list"
  and encode_entries :: "(pyval \<Rightarrow> string) \<Rightarrow> (pyval \<times> api_object) list \<Rightarrow> (pyval \<times> pyval) list" where
  "api_encode other AO_None = PNone"
| "api_encode other (AO_Data fs) = PDict (encode_fields other fs)"
| "api_encode other (AO_Enum v) = PStr v"
| "api_encode other (AO_Datetime d) = PStr (isoformat d)"
| "api_encode other (AO_Seq xs) = PList (encode_items other xs)"
| "api_encode other (AO_Dict d) = PDict (encode_entries other d)"
| "api_encode other (AO_Plain v) = v"
| "encode_fields other [] = []"
| "encode_fields other ((k, x) # fs) = (PStr k, api_encode other x) # encode_fields other fs"
| "encode_items other [] = []"
| "encode_items other (x # xs) = api_encode other x # encode_items other xs"
| "encode_entries other [] = []"
| "encode_entries other ((k, x) # d) = (PStr (py_str other k), api_encode other x) # encode_entries other d"

definition ao_opt :: "('a \<Rightarrow> api_object) \<Rightarrow> 'a option \<Rightarrow> api_object" where
  "ao_opt f v = (case v of None \<Rightarrow> AO_None | Some x \<Rightarrow> f x)"

definition ao_str :: "string \<Rightarrow> api_object" where
  "ao_str s = AO_Plain (PStr s)"

definition ao_nat :: "nat \<Rightarrow> api_object" where
  "ao_nat n = AO_Plain (PInt (int n))"

definition ao_bool :: "bool \<Rightarrow> api_object" where
  "ao_bool b = AO_Plain (PBool b)"

definition component_object :: "component_status \<Rightarrow> api_object" where
  "component_object c = AO_Data
     [(''component_id'', ao_str (cs_component_id c)), (''state'', AO_Enum (worker_state_value (cs_state c))),
      (''updated_at'', AO_Datetime (cs_updated_at c)), (''message'', ao_opt ao_str (cs_message c)),
      (''error_code'', ao_opt ao_str (cs_error_code c)), (''error_message'', ao_opt ao_str (cs_error_message c))]"

definition worker_metrics_object :: "worker_metrics \<Rightarrow> api_object" where
  "worker_metrics_object m = AO_Data
     [(''component_id'', ao_str (wm_component_id m)), (''connect_attempts'', ao_nat (wm_connect_attempts m)),
      (''connect_successes'', ao_nat (wm_connect_successes m)), (''connect_failures'', ao_nat (wm_connect_failures m)),
      (''connect_retry_attempts'', ao_nat (wm_connect_retry_attempts m)), (''poll_attempts'', ao_nat (wm_poll_attempts m)),
      (''poll_successes'', ao_nat (wm_poll_successes m)), (''poll_failures'', ao_nat (wm_poll_failures m)),
      (''poll_retry_attempts'', ao_nat (wm_poll_retry_attempts m)), (''tag_successes'', AO_Plain (PInt (wm_tag_successes m))),
      (''tag_failures'', AO_Plain (PInt (wm_tag_failures m))),
      (''last_poll_correlation_id'', ao_opt ao_str (wm_last_poll_correlation_id m)),
      (''last_reconnect_correlation_id'', ao_opt ao_str (wm_last_reconnect_correlation_id m)),
      (''last_error'', ao_opt ao_str (wm_last_error m))]"

definition queue_metrics_object :: "queue_metrics \<Rightarrow> api_object" where
  "queue_metrics_object m = AO_Data
     [(''max_size'', ao_nat (qm_max_size m)), (''size'', ao_nat (qm_size m)),
      (''occupancy_ratio'', AO_Plain (PFloat (Fin (qm_occupancy_ratio m)))), (''closed'', ao_bool (qm_closed m)),
      (''dropped_items'', ao_nat (qm_dropped_items m)), (''put_timeouts'', ao_nat (qm_put_timeouts m))]"

definition writer_metrics_object :: "writer_metrics \<Rightarrow> api_object" where
  "writer_metrics_object m = AO_Data
     [(''running'', ao_bool (wt_running m)), (''successful_batches'', ao_nat (wt_successful_batches m)),
      (''failed_batches'', ao_nat (wt_failed_batches m)), (''successful_poll_results'', ao_nat (wt_successful_poll_results m)),
      (''failed_poll_results'', ao_nat (wt_failed_poll_results m)), (''inserted_readings'', ao_nat (wt_inserted_readings m)),
      (''retry_attempts'', ao_nat (wt_retry_attempts m)), (''pending_batch_size'', ao_nat (wt_pending_batch_size m)),
      (''spooled_poll_results'', ao_nat (wt_spooled_poll_results m)),
      (''spool_replayed_poll_results'', ao_nat (wt_spool_replayed_poll_results m)),
      (''spool_failed_replays'', ao_nat (wt_spool_failed_replays m)),
      (''spool_full_failures'', ao_nat (wt_spool_full_failures m)), (''last_error'', ao_opt ao_str (wt_last_error m))]"

definition spool_metrics_object :: "spool_metrics \<Rightarrow> api_object" where
  "spool_metrics_object m = AO_Data
     [(''max_items'', AO_Plain (PInt (sm_max_items m))), (''stored_items'', ao_nat (sm_stored_items m)),
      (''full'', ao_bool (sm_full m)), (''rejected_items'', AO_Plain (PInt (sm_rejected_items m))),
      (''replayed_items'', ao_nat (sm_replayed_items m)), (''failed_replays'', ao_nat (sm_failed_replays m))]"

section \<open>Endpoints\<close>

text \<open>The application: the state it was created with, or \<open>None\<close> if it was replaced by another object.\<close>

definition create_api_app :: "api_state option \<Rightarrow> api_state option" where
  "create_api_app state = Some (case state of None \<Rightarrow> default_api_state | Some s \<Rightarrow> s)"

definition runtime_state :: "api_state option \<Rightarrow> api_state result" where
  "runtime_state app =
     (case app of None \<Rightarrow> Inl (exn PyRuntimeError ''runtime_api_state must be RuntimeApiState.'') | Some s \<Rightarrow> Inr s)"

definition health_live :: "nat \<times> pyval" where
  "health_live = (200, PDict [(PStr ''status'', PStr ''live''), (PStr ''application'', PStr ''plc-gateway''),
     (PStr ''version'', PStr get_version)])"

definition health_ready :: "api_state option \<Rightarrow> (nat \<times> pyval) result" where
  "health_ready app = rbind (runtime_state app) (\<lambda>s.
     Inr (if api_ready s then 200 else 503, PDict
       [(PStr ''status'', PStr (if api_ready s then ''ready'' else ''not_ready'')), (PStr ''ready'', PBool (api_ready s)),
        (PStr ''degraded'', PBool (api_degraded s)), (PStr ''configuration_loaded'', PBool (as_configuration_loaded s)),
        (PStr ''storage_available'', PBool (as_storage_available s)),
        (PStr ''critical_errors'', PList (map PStr (as_critical_errors s)))]))"

definition runtime_components :: "(pyval \<Rightarrow> string) \<Rightarrow> api_state option \<Rightarrow> (nat \<times> pyval) result" where
  "runtime_components other app = rbind (runtime_state app) (\<lambda>s. Inr (200, PDict
     [(PStr ''components'', api_encode other (AO_Seq (map component_object (as_components s)))),
      (PStr ''worker_metrics'', api_encode other (AO_Seq (map worker_metrics_object (as_worker_metrics s)))),
      (PStr ''queue'', api_encode other (ao_opt queue_metrics_object (as_queue_metrics s))),
      (PStr ''writer'', api_encode other (ao_opt writer_metrics_object (as_writer_metrics s))),
      (PStr ''spool'', api_encode other (ao_opt spool_metrics_object (as_spool_metrics s)))]))"

definition runtime_workers :: "(pyval \<Rightarrow> string) \<Rightarrow> api_state option \<Rightarrow> (nat \<times> pyval) result" where
  "runtime_workers other app = rbind (runtime_state app) (\<lambda>s. Inr (200, PDict
     [(PStr ''workers'', api_encode other (AO_Seq (map component_object (as_workers s)))),
      (PStr ''metrics'', api_encode other (AO_Seq (map worker_metrics_object (as_worker_metrics s))))]))"

definition about :: "license_report result \<Rightarrow> (nat \<times> pyval) result" where
  "about report = rbind report (\<lambda>r. Inr (200, PDict
     [(PStr ''application'', PStr ''plc-gateway''), (PStr ''version'', PStr (bi_version (lr_build r))),
      (PStr ''build'', build_info_dict (lr_build r)), (PStr ''license'', project_license_dict (lr_project r)),
      (PStr ''third_party_notices_file'', PStr (lr_third_party_notices_file r)),
      (PStr ''dependency_count'', PInt (int (length (lr_dependencies r))))]))"

text \<open>The routes; another path is not one of the application's.\<close>

definition api_get ::
  "(pyval \<Rightarrow> string) \<Rightarrow> api_state option \<Rightarrow> license_report result \<Rightarrow> string \<Rightarrow> (nat \<times> pyval) result option" where
  "api_get other app report path =
     (if path = ''/health/live'' then Some (Inr health_live)
      else if path = ''/health/ready'' then Some (health_ready app)
      else if path = ''/api/runtime/components'' then Some (runtime_components other app)
      else if path = ''/api/runtime/workers'' then Some (runtime_workers other app)
      else if path = ''/api/about'' then Some (about report)
      else None)"

section \<open>Health payload\<close>

definition build_health_status :: pyval where
  "build_health_status = PDict [(PStr ''application'', PStr ''plc-gateway''), (PStr ''status'', PStr ''ok''),
     (PStr ''version'', PStr get_version)]"

section \<open>Command line\<close>

record options =
  op_version :: bool
  op_log_level :: string
  op_serve_api :: bool
  op_run_service :: bool
  op_config :: "string option"
  op_data_dir :: "string option"
  op_log_dir :: "string option"
  op_run_dir :: "string option"
  op_pid_file :: "string option"
  op_log_file :: "string option"
  op_api_host :: string
  op_api_port :: int

definition getenv :: "(string \<times> string) list \<Rightarrow> string \<Rightarrow> string \<Rightarrow> string" where
  "getenv environ k dflt = (case map_of environ k of None \<Rightarrow> dflt | Some s \<Rightarrow> s)"

text \<open>The parser with its defaults, which come from the environment.\<close>

definition gateway_parser :: "(string \<times> string) list \<Rightarrow> int \<Rightarrow> arg_parser" where
  "gateway_parser environ port = fold (\<lambda>(name, act, dflt). add_argument name act dflt)
     [(''--version'', Act_Flag, PBool False),
      (''--log-level'', Act_Text, PStr (getenv environ ''PLC_GATEWAY_LOG_LEVEL'' ''INFO'')),
      (''--serve-api'', Act_Flag, PBool False),
      (''--run-service'', Act_Flag, PBool False),
      (''--config'', Act_Text, opt_str (map_of environ ''PLC_GATEWAY_CONFIG'')),
      (''--data-dir'', Act_Text, opt_str (map_of environ ''PLC_GATEWAY_DATA_DIR'')),
      (''--log-dir'', Act_Text, opt_str (map_of environ ''PLC_GATEWAY_LOG_DIR'')),
      (''--run-dir'', Act_Text, opt_str (map_of environ ''PLC_GATEWAY_RUN_DIR'')),
      (''--pid-file'', Act_Text, opt_str (map_of environ ''PLC_GATEWAY_PID_FILE'')),
      (''--log-file'', Act_Text, opt_str (map_of environ ''PLC_GATEWAY_LOG_FILE'')),
      (''--api-host'', Act_Text, PStr (getenv environ ''PLC_GATEWAY_API_HOST'' ''127.0.0.1'')),
      (''--api-port'', Act_Int, PInt port)] new_parser"

definition build_parser :: "(string \<times> string) list \<Rightarrow> arg_parser result" where
  "build_parser environ =
     (let port = getenv environ ''PLC_GATEWAY_API_PORT'' ''8080''
      in case py_int port of
           None \<Rightarrow> Inl (exn PyValueError (''invalid literal for int() with base 10: '' @ quoted port))
         | Some p \<Rightarrow> Inr (gateway_parser environ p))"

text \<open>The attributes of the parsed arguments that the command reads.\<close>

definition options_of :: "namespace \<Rightarrow> options" where
  "options_of ns =
     \<lparr>op_version = arg_bool ns ''version'', op_log_level = (case arg_text ns ''log_level'' of None \<Rightarrow> [] | Some s \<Rightarrow> s),
      op_serve_api = arg_bool ns ''serve_api'', op_run_service = arg_bool ns ''run_service'',
      op_config = arg_text ns ''config'', op_data_dir = arg_text ns ''data_dir'', op_log_dir = arg_text ns ''log_dir'',
      op_run_dir = arg_text ns ''run_dir'', op_pid_file = arg_text ns ''pid_file'', op_log_file = arg_text ns ''log_file'',
      op_api_host = (case arg_text ns ''api_host'' of None \<Rightarrow> [] | Some s \<Rightarrow> s), op_api_port = arg_int ns ''api_port''\<rparr>"

text \<open>What the command does, in order, and how it ends: \<^verbatim>\<open>main\<close> returns, the parser exits, or an error.\<close>

datatype action =
    Print_Json pyval | Print_Line string
  | Run_Service service_paths | Serve_Api string int

datatype ending = Returned int | Exited int | Failed pyexn | Interrupted

record main_env =
  mn_environ :: "(string \<times> string) list"
  mn_platform :: platform
  mn_host_env :: host_env
  mn_str :: "pyval \<Rightarrow> string"
  mn_credits :: "pyval result"
  mn_serve :: "string \<Rightarrow> int \<Rightarrow> unit outcome"

definition ending_of :: "int outcome \<Rightarrow> ending" where
  "ending_of out = (case out of Ret n \<Rightarrow> Returned n | Raise e \<Rightarrow> Failed e | Cancelled \<Rightarrow> Interrupted)"

definition text_arg :: "string option \<Rightarrow> path_arg option" where
  "text_arg v = map_option Path_Text v"

definition path_options :: "options \<Rightarrow> path_values" where
  "path_options args =
     \<lparr>pv_data_dir = text_arg (op_data_dir args), pv_log_dir = text_arg (op_log_dir args),
      pv_run_dir = text_arg (op_run_dir args), pv_config_file = text_arg (op_config args),
      pv_pid_file = text_arg (op_pid_file args), pv_log_file = text_arg (op_log_file args)\<rparr>"

definition main_options :: "main_env \<Rightarrow> options \<Rightarrow> host \<Rightarrow> host \<times> action list \<times> ending" where
  "main_options env args h =
     (if op_version args then (h, [Print_Line get_version], Returned 0)
      else case configure_logging (he_open_log (mn_host_env env)) (op_log_level args) None (ho_root h) of
          (root', Inl e) \<Rightarrow> (h\<lparr>ho_root := root'\<rparr>, [], Failed e)
        | (root', Inr _) \<Rightarrow>
            (let h1 = h\<lparr>ho_root := root'\<rparr>
             in if op_run_service args then
                  (case paths_from_values (mn_platform env) (mn_environ env) (path_options args) of
                     Inl e \<Rightarrow> (h1, [], Failed e)
                   | Inr paths \<Rightarrow>
                       (case run_service_until_stopped (mn_platform env) (mn_host_env env) paths (op_log_level args) h1 of
                          (h2, out) \<Rightarrow> (h2, [Run_Service paths], ending_of out)))
                else if op_serve_api args then
                  (h1, [Serve_Api (op_api_host args) (op_api_port args)],
                   case mn_serve env (op_api_host args) (op_api_port args) of
                     Ret _ \<Rightarrow> Returned 0 | Raise e \<Rightarrow> Failed e | Cancelled \<Rightarrow> Interrupted)
                else (h1, [Print_Json (with_sorted_keys build_health_status)], Returned 0)))"

definition gateway_main :: "main_env \<Rightarrow> string list \<Rightarrow> host \<Rightarrow> host \<times> action list \<times> ending" where
  "gateway_main env argv h =
     (if argv \<noteq> [] \<and> hd argv = ''licenses'' then
        (case load_license_report (mn_str env) (mn_environ env) (mn_credits env) of
           Inl e \<Rightarrow> (h, [], Failed e)
         | Inr r \<Rightarrow> (h, [Print_Json (with_sorted_keys (license_report_dict r))], Returned 0))
      else
        (case build_parser (mn_environ env) of
           Inl e \<Rightarrow> (h, [], Failed e)
         | Inr parser \<Rightarrow>
             (case parse_args parser argv of
                Inl code \<Rightarrow> (h, [], Exited code)
              | Inr ns \<Rightarrow> main_options env (options_of ns) h)))"

section \<open>Lemmas\<close>

text \<open>With an invalid port variable every command but \<^verbatim>\<open>licenses\<close> fails, even \<^verbatim>\<open>--version\<close>.\<close>

lemma invalid_port_fails:
  assumes "argv = [] \<or> hd argv \<noteq> ''licenses''"
    and "map_of (mn_environ env) ''PLC_GATEWAY_API_PORT'' = Some port" "py_int port = None"
  shows "\<exists>e. gateway_main env argv h = (h, [], Failed e) \<and> exn_class e = PyValueError"
  using assms by (auto simp: gateway_main_def build_parser_def getenv_def)

text \<open>Plain JSON: no value of another kind, and the keys of every object are strings.\<close>

fun plain_json :: "pyval \<Rightarrow> bool"
  and plain_items :: "pyval list \<Rightarrow> bool"
  and plain_entries :: "(pyval \<times> pyval) list \<Rightarrow> bool" where
  "plain_json PNone = True"
| "plain_json (PBool b) = True"
| "plain_json (PInt n) = True"
| "plain_json (PFloat f) = (case f of Fin _ \<Rightarrow> True | _ \<Rightarrow> False)"
| "plain_json (PStr s) = True"
| "plain_json (PList xs) = plain_items xs"
| "plain_json (PDict d) = plain_entries d"
| "plain_json _ = False"
| "plain_items [] = True"
| "plain_items (x # xs) = (plain_json x \<and> plain_items xs)"
| "plain_entries [] = True"
| "plain_entries ((k, v) # d) = ((case k of PStr _ \<Rightarrow> True | _ \<Rightarrow> False) \<and> plain_json v \<and> plain_entries d)"

lemma plain_items_iff: "plain_items xs \<longleftrightarrow> (\<forall>x \<in> set xs. plain_json x)"
  by (induction xs) auto

lemma encode_items_map: "encode_items other xs = map (api_encode other) xs"
  by (induction xs) auto

lemma encode_opt_plain:
  "(\<And>x. plain_json (api_encode other (f x))) \<Longrightarrow> plain_json (api_encode other (ao_opt f v))"
  by (simp add: ao_opt_def split: option.splits)

lemma objects_plain [simp]:
  "plain_json (api_encode other (ao_opt ao_str s))" "plain_json (api_encode other (component_object c))"
  "plain_json (api_encode other (worker_metrics_object m))" "plain_json (api_encode other (queue_metrics_object q))"
  "plain_json (api_encode other (writer_metrics_object w))" "plain_json (api_encode other (spool_metrics_object z))"
proof -
  have opt: "plain_json (api_encode other (ao_opt ao_str s))" for s by (rule encode_opt_plain) (simp add: ao_str_def)
  then show "plain_json (api_encode other (ao_opt ao_str s))" .
  show "plain_json (api_encode other (component_object c))" "plain_json (api_encode other (worker_metrics_object m))"
    "plain_json (api_encode other (queue_metrics_object q))" "plain_json (api_encode other (writer_metrics_object w))"
    "plain_json (api_encode other (spool_metrics_object z))"
    by (simp_all add: opt component_object_def worker_metrics_object_def queue_metrics_object_def
        writer_metrics_object_def spool_metrics_object_def ao_str_def ao_nat_def ao_bool_def)
qed

text \<open>Every answer of the API is plain JSON.\<close>

lemma api_payloads_plain:
  assumes "api_get other app report path = Some (Inr (status, payload))"
  shows "plain_json payload \<and> status \<in> {200, 503}"
  using assms
  by (auto simp: api_get_def health_live_def health_ready_def runtime_components_def runtime_workers_def about_def
      encode_items_map plain_items_iff encode_opt_plain build_info_dict_def opt_str_def project_license_dict_def
      split: if_splits option.splits)

section \<open>Command lines and their settings\<close>

definition gateway_options :: "(string \<times> arg_action) list" where
  "gateway_options =
     [(''-h'', Act_Help), (''--help'', Act_Help), (''--version'', Act_Flag), (''--log-level'', Act_Text),
      (''--serve-api'', Act_Flag), (''--run-service'', Act_Flag), (''--config'', Act_Text), (''--data-dir'', Act_Text),
      (''--log-dir'', Act_Text), (''--run-dir'', Act_Text), (''--pid-file'', Act_Text), (''--log-file'', Act_Text),
      (''--api-host'', Act_Text), (''--api-port'', Act_Int)]"

lemma gateway_parser_options: "ap_options (gateway_parser environ port) = gateway_options"
  by (simp add: gateway_parser_def add_argument_def new_parser_def gateway_options_def)

lemma gateway_parser_ok: "parser_ok (gateway_parser environ port)"
  unfolding parser_ok_def gateway_parser_options by code_simp

lemma gateway_dests: "map (dest_of \<circ> fst) (drop 2 gateway_options) =
  [''version'', ''log_level'', ''serve_api'', ''run_service'', ''config'', ''data_dir'', ''log_dir'', ''run_dir'',
   ''pid_file'', ''log_file'', ''api_host'', ''api_port'']"
  by code_simp

lemma opt_str_typed: "arg_typed Act_Text (opt_str v)"
  by (cases v) (simp_all add: opt_str_def)

lemma gateway_defaults_declared: "declared (drop 2 gateway_options) (ap_defaults (gateway_parser environ port))"
  by (simp add: declared_def gateway_options_def gateway_parser_def add_argument_def new_parser_def opt_str_typed)

text \<open>
  C28: the command lines that the command understands are exactly the sequences of valid
  settings: options by their name or a unique prefix of it, a value behind an equals sign or as
  the next argument, integers where the port is set. What is parsed is the defaults with
  the settings assigned in order.
\<close>

theorem gateway_arguments:
  "parse_args (gateway_parser environ port) argv = Inr ns \<longleftrightarrow>
     (\<exists>ss vs. argv = concat (map render ss) \<and> map (setting_of gateway_options) ss = map Some vs \<and>
        ns = assign vs (ap_defaults (gateway_parser environ port)))"
  using parse_args_settings [OF gateway_parser_ok, of environ port argv ns] by (simp add: gateway_parser_options)

text \<open>
  Where a setting comes from when the command line does not give it: its attribute, the environment variable if
  there is one, and the built-in default.
\<close>

definition setting_table :: "(string \<times> string option \<times> pyval) list" where
  "setting_table =
     [(''version'', None, PBool False), (''serve_api'', None, PBool False), (''run_service'', None, PBool False),
      (''log_level'', Some ''PLC_GATEWAY_LOG_LEVEL'', PStr ''INFO''), (''config'', Some ''PLC_GATEWAY_CONFIG'', PNone),
      (''data_dir'', Some ''PLC_GATEWAY_DATA_DIR'', PNone), (''log_dir'', Some ''PLC_GATEWAY_LOG_DIR'', PNone),
      (''run_dir'', Some ''PLC_GATEWAY_RUN_DIR'', PNone), (''pid_file'', Some ''PLC_GATEWAY_PID_FILE'', PNone),
      (''log_file'', Some ''PLC_GATEWAY_LOG_FILE'', PNone), (''api_host'', Some ''PLC_GATEWAY_API_HOST'', PStr ''127.0.0.1''),
      (''api_port'', Some ''PLC_GATEWAY_API_PORT'', PInt 8080)]"

definition read_variable :: "string \<Rightarrow> string \<Rightarrow> pyval" where
  "read_variable d s = (if d = ''api_port'' then (case py_int s of None \<Rightarrow> PNone | Some n \<Rightarrow> PInt n) else PStr s)"

definition unset_value :: "(string \<times> string) list \<Rightarrow> string \<Rightarrow> string option \<Rightarrow> pyval \<Rightarrow> pyval" where
  "unset_value environ d var builtin =
     (case var of None \<Rightarrow> builtin
      | Some n \<Rightarrow> (case map_of environ n of None \<Rightarrow> builtin | Some s \<Rightarrow> read_variable d s))"

lemma gateway_defaults:
  assumes "py_int (getenv environ ''PLC_GATEWAY_API_PORT'' ''8080'') = Some port"
  shows "\<forall>(d, var, builtin) \<in> set setting_table.
    map_of (ap_defaults (gateway_parser environ port)) d = Some (unset_value environ d var builtin)"
proof -
  have "py_int ''8080'' = Some 8080" by code_simp
  then have port: "unset_value environ ''api_port'' (Some ''PLC_GATEWAY_API_PORT'') (PInt 8080) = PInt port"
    using assms by (auto simp: unset_value_def read_variable_def getenv_def split: option.splits)
  show ?thesis
    unfolding setting_table_def
    by (simp add: port) (simp add: gateway_parser_def add_argument_def new_parser_def dest_of_def unset_value_def
        read_variable_def getenv_def opt_str_def split: option.splits)
qed

text \<open>
  C27: a command line that does not ask for the licenses. If the port variable is not an integer the command fails
  with a ValueError. Otherwise it either exits with 0 or 2 without touching anything, and then the line
  is not a sequence of valid settings; or it runs with a full set of options of the declared types, and
  each of them is the last setting given on the command line, or else the value of its environment variable, or
  else the built-in default.
\<close>

theorem command_runs_settings:
  assumes "argv = [] \<or> hd argv \<noteq> ''licenses''"
  shows "case py_int (getenv (mn_environ env) ''PLC_GATEWAY_API_PORT'' ''8080'') of
      None \<Rightarrow> \<exists>e. gateway_main env argv h = (h, [], Failed e) \<and> exn_class e = PyValueError
    | Some port \<Rightarrow>
        (\<exists>code \<in> {0, 2}. gateway_main env argv h = (h, [], Exited code) \<and>
          (\<nexists>ss vs. argv = concat (map render ss) \<and> map (setting_of gateway_options) ss = map Some vs)) \<or>
        (\<exists>ss vs ns. argv = concat (map render ss) \<and> map (setting_of gateway_options) ss = map Some vs \<and>
          parse_args (gateway_parser (mn_environ env) port) argv = Inr ns \<and> declared (drop 2 gateway_options) ns \<and>
          (\<forall>(d, var, builtin) \<in> set setting_table. map_of ns d = Some (case map_of (rev vs) d of
             Some v \<Rightarrow> v | None \<Rightarrow> unset_value (mn_environ env) d var builtin)) \<and>
          gateway_main env argv h = main_options env (options_of ns) h)"
proof (cases "py_int (getenv (mn_environ env) ''PLC_GATEWAY_API_PORT'' ''8080'')")
  case None
  then have "\<exists>e. gateway_main env argv h = (h, [], Failed e) \<and> exn_class e = PyValueError"
    using assms by (auto simp: gateway_main_def build_parser_def)
  then show ?thesis using None by simp
next
  case (Some port)
  let ?p = "gateway_parser (mn_environ env) port"
  note settings = parse_args_settings [OF gateway_parser_ok, of "mn_environ env" port argv, unfolded gateway_parser_options]
  have run: "gateway_main env argv h = (case parse_args ?p argv of
      Inl code \<Rightarrow> (h, [], Exited code) | Inr ns \<Rightarrow> main_options env (options_of ns) h)"
    using assms Some by (auto simp: gateway_main_def build_parser_def)
  show ?thesis
  proof (cases "parse_args ?p argv")
    case (Inl code)
    then show ?thesis using run settings parse_args_exits [OF Inl] Some by auto
  next
    case (Inr ns)
    have decl: "declared (drop 2 gateway_options) ns"
      using parse_args_declared [OF gateway_parser_ok, of "mn_environ env" port, unfolded gateway_parser_options] Inr
        gateway_defaults_declared by (simp add: gateway_dests)
    obtain ss vs where line: "argv = concat (map render ss)" "map (setting_of gateway_options) ss = map Some vs"
      "ns = assign vs (ap_defaults ?p)" using Inr settings [of ns] by blast
    have "\<forall>(d, var, builtin) \<in> set setting_table. map_of ns d = Some (case map_of (rev vs) d of
        Some v \<Rightarrow> v | None \<Rightarrow> unset_value (mn_environ env) d var builtin)"
      using gateway_defaults [OF Some] unfolding line(3)
      by (fastforce simp: assign_lookup split: option.splits)
    then show ?thesis using run Inr Some decl line(1,2)
      by (simp only: option.case sum.case) blast
  qed
qed

definition ex_main_env :: main_env where
  "ex_main_env = \<lparr>mn_environ = [(''PLC_GATEWAY_CONFIG'', ''old.json''), (''PLC_GATEWAY_DATA_DIR'', ''/srv''), (''PLC_GATEWAY_API_PORT'', '' 80_80 '')],
     mn_platform = ex_platform, mn_host_env = ex_host_env, mn_str = (\<lambda>v. []), mn_credits = Inr PNone,
     mn_serve = (\<lambda>a b. Ret ())\<rparr>"

definition ex_command_line :: "string list" where
  "ex_command_line = [''--api-p'', ''9000'', ''--conf=a b'', ''--config'', ''-7'', ''--serve'']"

theorem command_runs_settings_witness:
  "\<exists>ns. gateway_main ex_main_env ex_command_line ex_host = main_options ex_main_env (options_of ns) ex_host \<and>
     map_of ns ''config'' = Some (PStr ''-7'') \<and> map_of ns ''log_level'' = Some (PStr ''INFO'') \<and>
     map_of ns ''data_dir'' = Some (PStr ''/srv'')"
proof -
  let ?ss = "[Value_Next ''--api-p'' ''9000'', Value_Joined ''--conf'' ''a b'', Value_Next ''--config'' ''-7'', Flag_Given ''--serve'']"
    and ?vs = "[(''api_port'', PInt 9000), (''config'', PStr ''a b''), (''config'', PStr ''-7''), (''serve_api'', PBool True)]"
  have line: "ex_command_line = concat (map render ?ss)" and vs: "map (setting_of gateway_options) ?ss = map Some ?vs"
    by code_simp+
  have pre: "ex_command_line = [] \<or> hd ex_command_line \<noteq> ''licenses''"
    and port: "py_int (getenv (mn_environ ex_main_env) ''PLC_GATEWAY_API_PORT'' ''8080'') = Some 8080" by code_simp+
  have parsed: "case parse_args (gateway_parser (mn_environ ex_main_env) 8080) ex_command_line of Inl c \<Rightarrow> False
    | Inr ns \<Rightarrow> map_of ns ''config'' = Some (PStr ''-7'') \<and> map_of ns ''log_level'' = Some (PStr ''INFO'') \<and>
        map_of ns ''data_dir'' = Some (PStr ''/srv'')" by code_simp
  from command_runs_settings [OF pre, of ex_main_env ex_host, unfolded port option.case] line vs
  obtain ns where "gateway_main ex_main_env ex_command_line ex_host = main_options ex_main_env (options_of ns) ex_host"
    "parse_args (gateway_parser (mn_environ ex_main_env) 8080) ex_command_line = Inr ns" by blast
  then show ?thesis using parsed by auto
qed

end
