(* ===== verification/Opcua_Driver.thy ===== *)
theory Opcua_Driver
  imports Driver
begin

text \<open>
  src/plc_gateway/protocols/opcua.py: the OPC UA driver. The client library (asyncua) is a
  parameter: a client is a state of any type, acted on by the operations the driver calls.
  So are the clock, the local time zone and the order in which concurrent reads finish.
  A node's read is given by how long it takes and how it ends; \<open>wait_for\<close> cuts it off.

  Shown: the driver satisfies the driver contract (\<open>interpretation opcua\<close>), its connected
  flag is determined by the outcomes of the calls made, and one unreadable node never costs
  the readings of the others.
\<close>

section \<open>Options\<close>

definition opcua_error :: "string \<Rightarrow> string \<Rightarrow> 'a result" where
  "opcua_error key must = Inl (exn_coded ConfigurationError
     (''OPC UA protocol option '' @ quoted key @ must) ''invalid_opcua_options'' [(''field'', PStr key)])"

definition opcua_optional_str :: "pydict \<Rightarrow> string \<Rightarrow> string option result" where
  "opcua_optional_str options key =
     (case dict_get options key of
        None \<Rightarrow> Inr None
      | Some PNone \<Rightarrow> Inr None
      | Some (PStr s) \<Rightarrow> Inr (let stripped = py_strip s in if stripped = [] then None else Some stripped)
      | Some _ \<Rightarrow> opcua_error key '' must be a string.'')"

definition opcua_read_bool :: "pydict \<Rightarrow> string \<Rightarrow> bool \<Rightarrow> bool result" where
  "opcua_read_bool options key dflt =
     (case (case dict_get options key of None \<Rightarrow> PBool dflt | Some v \<Rightarrow> v) of
        PBool b \<Rightarrow> Inr b
      | _ \<Rightarrow> opcua_error key '' must be a boolean.'')"

definition read_positive_number :: "pydict \<Rightarrow> string \<Rightarrow> rat \<Rightarrow> pyfloat result" where
  "read_positive_number options key dflt =
     (case (case dict_get options key of None \<Rightarrow> PFloat (Fin dflt) | Some v \<Rightarrow> v) of
        PFloat f \<Rightarrow> if float_le f (Fin 0) then opcua_error key '' must be positive.'' else py_float (PFloat f)
      | PInt n \<Rightarrow> if n \<le> 0 then opcua_error key '' must be positive.'' else py_float (PInt n)
      | _ \<Rightarrow> opcua_error key '' must be a positive number.'')"

record opcua_driver_config =
  oc_security_string :: "string option"
  oc_username :: "string option"
  oc_password :: "string option"
  oc_auto_reconnect :: bool
  oc_reconnect_max_delay_s :: pyfloat
  oc_reconnect_request_timeout_s :: pyfloat

definition opcua_config_from_options :: "pydict \<Rightarrow> opcua_driver_config result" where
  "opcua_config_from_options options =
     rbind (opcua_optional_str options ''security_string'') (\<lambda>security.
     rbind (opcua_optional_str options ''username'') (\<lambda>username.
     rbind (opcua_optional_str options ''password'') (\<lambda>password.
     rbind (opcua_read_bool options ''auto_reconnect'' False) (\<lambda>auto_reconnect.
     rbind (read_positive_number options ''reconnect_max_delay_s'' 30) (\<lambda>max_delay.
     rbind (read_positive_number options ''reconnect_request_timeout_s'' 60) (\<lambda>request_timeout.
       Inr \<lparr>oc_security_string = security, oc_username = username, oc_password = password,
            oc_auto_reconnect = auto_reconnect, oc_reconnect_max_delay_s = max_delay,
            oc_reconnect_request_timeout_s = request_timeout\<rparr>))))))"

definition opcua_timeout_s :: "int option \<Rightarrow> int \<Rightarrow> rat result" where
  "opcua_timeout_s timeout_ms default_timeout_ms =
     (let effective = (case timeout_ms of None \<Rightarrow> default_timeout_ms | Some t \<Rightarrow> t)
      in if effective \<le> 0
         then Inl (exn_coded ConfigurationError ''OPC UA timeout must be positive.'' ''opcua_invalid_timeout'' [])
         else Inr (of_int effective / 1000))"

section \<open>What the driver is given\<close>

text \<open>
  An awaited call of the client ends after some time with an outcome, or never;
  \<^verbatim>\<open>asyncio.wait_for\<close> raises TimeoutError when the limit passes first.
\<close>

datatype 'a awaited = Takes rat "'a outcome" | Never

fun wait_for :: "rat \<Rightarrow> 'a awaited \<Rightarrow> 'a outcome" where
  "wait_for limit (Takes t out) = (if t \<le> limit then out else Raise (exn PyTimeoutError ''''))"
| "wait_for limit Never = Raise (exn PyTimeoutError '''')"

text \<open>
  What the driver observes of the library's status codes and data values. The payload of a
  data value is None without a variant, otherwise the value the variant carries.
\<close>

record ua_status =
  us_good :: bool
  us_uncertain :: bool
  us_bad :: bool
  us_name :: string

record ua_data_value =
  uw_status :: "ua_status option"
  uw_variant :: "pyval option"
  uw_source_timestamp :: "datetime option"

text \<open>
  The client library: creating a client (the \<open>n\<close>-th), its methods on its state \<open>'c\<close> with node
  handles \<open>'n\<close>, which exception classes are subclasses of \<^verbatim>\<open>UaError\<close>, and the status code
  \<^verbatim>\<open>ua.StatusCode()\<close>. Then the clock, the UTC offset of the local zone at a wall clock
  reading, and the order in which the reads of the \<open>n\<close>-th batch finish.
\<close>

record ('c, 'n) opcua_env =
  uv_create :: "nat \<Rightarrow> string \<Rightarrow> rat \<Rightarrow> 'c result"
  uv_set_security_string :: "string \<Rightarrow> 'c \<Rightarrow> 'c \<times> unit result"
  uv_set_user :: "string \<Rightarrow> 'c \<Rightarrow> 'c \<times> unit result"
  uv_set_password :: "string \<Rightarrow> 'c \<Rightarrow> 'c \<times> unit result"
  uv_connect :: "bool \<Rightarrow> pyfloat \<Rightarrow> pyfloat \<Rightarrow> 'c \<Rightarrow> 'c \<times> unit awaited"
  uv_disconnect :: "'c \<Rightarrow> 'c \<times> unit awaited"
  uv_check_connection :: "'c \<Rightarrow> 'c \<times> unit awaited"
  uv_get_node :: "string \<Rightarrow> 'c \<Rightarrow> 'c \<times> 'n result"
  uv_read_data_value :: "'n \<Rightarrow> 'c \<Rightarrow> 'c \<times> ua_data_value awaited"
  uv_is_ua_error :: "exn_class \<Rightarrow> bool"
  uv_default_status :: ua_status
  uv_clock :: "nat \<Rightarrow> datetime"
  uv_local_offset :: "int \<Rightarrow> int"
  uv_finish_order :: "nat \<Rightarrow> nat list"

text \<open>\<^verbatim>\<open>isinstance(error, OSError)\<close>\<close>

definition os_error_names :: "string list" where
  "os_error_names = [''BlockingIOError'', ''ChildProcessError'', ''ConnectionError'', ''BrokenPipeError'',
     ''ConnectionAbortedError'', ''ConnectionRefusedError'', ''ConnectionResetError'', ''FileExistsError'',
     ''FileNotFoundError'', ''InterruptedError'', ''IsADirectoryError'', ''NotADirectoryError'',
     ''PermissionError'', ''ProcessLookupError'', ''gaierror'', ''herror'', ''SSLError'']"

definition is_os_error :: "exn_class \<Rightarrow> bool" where
  "is_os_error c =
     (case c of PyOSError \<Rightarrow> True | PyTimeoutError \<Rightarrow> True | OtherError n \<Rightarrow> n \<in> set os_error_names | _ \<Rightarrow> False)"

text \<open>\<^verbatim>\<open>value.astimezone(UTC)\<close>, where a naive value is in local time.\<close>

definition to_utc :: "('c, 'n) opcua_env \<Rightarrow> datetime \<Rightarrow> datetime result" where
  "to_utc env d = astimezone_utc (dt_wall d)
     (case dt_offset d of None \<Rightarrow> uv_local_offset env (dt_wall d) | Some off \<Rightarrow> off)"

section \<open>From data values to tag results\<close>

definition quality_from_status :: "ua_status \<Rightarrow> quality" where
  "quality_from_status s = (if us_good s then Q_Good else if us_uncertain s then Q_Uncertain else Q_Bad)"

definition source_timestamp_of :: "('c, 'n) opcua_env \<Rightarrow> ua_data_value \<Rightarrow> datetime option result" where
  "source_timestamp_of env v =
     (case uw_source_timestamp v of
        None \<Rightarrow> Inr None
      | Some d \<Rightarrow> rbind (to_utc env d) (\<lambda>u. Inr (Some u)))"

definition type_mismatch :: "string \<Rightarrow> 'a result" where
  "type_mismatch m = Inl (exn_coded ConfigurationError m ''opcua_value_type_mismatch'' [])"

definition tag_value_from_variant :: "value_type \<Rightarrow> pyval \<Rightarrow> tag_value result" where
  "tag_value_from_variant vt raw =
     (case vt of
        VT_Numeric \<Rightarrow> (case raw of
            PInt n \<Rightarrow> tag_value_numeric raw
          | PFloat f \<Rightarrow> tag_value_numeric raw
          | _ \<Rightarrow> type_mismatch ''OPC UA numeric value must be int or float.'')
      | VT_Integer \<Rightarrow> (case raw of
            PInt n \<Rightarrow> tag_value_integer raw
          | _ \<Rightarrow> type_mismatch ''OPC UA integer value must be int.'')
      | VT_Boolean \<Rightarrow> (case raw of
            PBool b \<Rightarrow> tag_value_boolean raw
          | _ \<Rightarrow> type_mismatch ''OPC UA boolean value must be bool.'')
      | VT_Text \<Rightarrow> (case raw of
            PStr s \<Rightarrow> tag_value_text raw
          | _ \<Rightarrow> type_mismatch ''OPC UA text value must be str.'')
      | VT_Binary \<Rightarrow> (case raw of
            PBytes b \<Rightarrow> tag_value_binary raw
          | PByteArray b \<Rightarrow> tag_value_binary (PBytes b)
          | _ \<Rightarrow> type_mismatch ''OPC UA binary value must be bytes.''))"

definition opcua_failure_result ::
  "tag_request \<Rightarrow> string \<Rightarrow> string \<Rightarrow> datetime \<Rightarrow> pyexn \<Rightarrow> tag_result result" where
  "opcua_failure_result tag code message received_at e =
     tag_result_failure (rq_tag_id tag) code (message @ '' '' @ class_name (exn_class e)) received_at None Q_Bad"

definition tag_result_from_data_value ::
  "('c, 'n) opcua_env \<Rightarrow> tag_request \<Rightarrow> ua_data_value \<Rightarrow> datetime \<Rightarrow> tag_result result" where
  "tag_result_from_data_value env tag v received_at =
     (let status = (case uw_status v of None \<Rightarrow> uv_default_status env | Some s \<Rightarrow> s);
          failure = (\<lambda>code message. rbind (source_timestamp_of env v) (\<lambda>source.
            tag_result_failure (rq_tag_id tag) code message received_at source Q_Bad))
      in if us_bad status
         then failure ''opcua_bad_status'' (''OPC UA status '' @ us_name status @ ''.'')
         else case uw_variant v of
             None \<Rightarrow> failure ''opcua_empty_value'' ''OPC UA data value has no variant payload.''
           | Some raw \<Rightarrow>
               (case tag_value_from_variant (rq_value_type tag) raw of
                  Inl e \<Rightarrow>
                    (if exn_class e = ConfigurationError
                     then failure (case exn_code e of None \<Rightarrow> ''opcua_value_type_mismatch''
                              | Some c \<Rightarrow> str_or c ''opcua_value_type_mismatch'') (exn_message e)
                     else Inl e)
                | Inr value \<Rightarrow> rbind (source_timestamp_of env v) (\<lambda>source.
                    tag_result_success (rq_tag_id tag) value
                      (case source of None \<Rightarrow> received_at | Some s \<Rightarrow> s) received_at
                      (quality_from_status status))))"

section \<open>Concurrent reads\<close>

text \<open>
  \<^verbatim>\<open>asyncio.gather\<close>: the tasks act on a shared state, each with its effect at the moment it
  finishes. The results come in the order of the tasks; if a task fails, the first one to
  fail decides the outcome.
\<close>

definition gather_order :: "nat list \<Rightarrow> nat \<Rightarrow> nat list" where
  "gather_order finished n =
     (let first = remdups (filter (\<lambda>i. i < n) finished)
      in first @ filter (\<lambda>i. i \<notin> set first) [0..<n])"

fun run_tasks :: "(nat \<Rightarrow> 's \<Rightarrow> 's \<times> 'b outcome) \<Rightarrow> nat list \<Rightarrow> 's \<Rightarrow> 's \<times> (nat \<times> 'b outcome) list" where
  "run_tasks task [] s = (s, [])"
| "run_tasks task (i # is) s =
     (case task i s of (s1, out) \<Rightarrow> case run_tasks task is s1 of (s2, outs) \<Rightarrow> (s2, (i, out) # outs))"

fun task_failed :: "'b outcome \<Rightarrow> bool" where
  "task_failed (Ret x) = False"
| "task_failed _ = True"

definition result_of :: "(nat \<times> 'b outcome) list \<Rightarrow> nat \<Rightarrow> 'b option" where
  "result_of outs i = (case map_of outs i of Some (Ret x) \<Rightarrow> Some x | _ \<Rightarrow> None)"

definition gather ::
  "nat list \<Rightarrow> ('a \<Rightarrow> 's \<Rightarrow> 's \<times> 'b outcome) \<Rightarrow> 'a list \<Rightarrow> 's \<Rightarrow> 's \<times> 'b list outcome" where
  "gather finished f xs s =
     (case run_tasks (\<lambda>i. f (xs ! i)) (gather_order finished (length xs)) s of
        (s', outs) \<Rightarrow>
          (s', case find task_failed (map snd outs) of
                 Some (Raise e) \<Rightarrow> Raise e
               | Some _ \<Rightarrow> Cancelled
               | None \<Rightarrow> Ret (List.map_filter (result_of outs) [0..<length xs])))"

lemma set_gather_order [simp]: "set (gather_order finished n) = {..<n}"
  by (auto simp: gather_order_def Let_def)

lemma run_tasks_keys: "map fst (snd (run_tasks task is s)) = is"
  by (induction "is" arbitrary: s) (auto split: prod.splits, metis snd_conv)

lemma run_tasks_out:
  "run_tasks task is s = (s', outs) \<Longrightarrow> (i, out) \<in> set outs \<Longrightarrow> \<exists>t t'. task i t = (t', out)"
  by (induction "is" arbitrary: s outs) (auto split: prod.splits, blast)

lemma run_tasks_invariant:
  assumes "\<And>i t. P t \<Longrightarrow> P (fst (task i t))" "P s"
  shows "P (fst (run_tasks task is s))"
  using assms(2)
proof (induction "is" arbitrary: s)
  case (Cons i "is")
  have "P (fst (task i s))" by (rule assms(1) [OF Cons.prems])
  from Cons.IH [OF this] show ?case by (simp add: case_prod_beta)
qed simp

lemma map_filter_all: "(\<And>x. x \<in> set xs \<Longrightarrow> f x = Some (g x)) \<Longrightarrow> List.map_filter f xs = map g xs"
  by (induction xs) (simp_all add: map_filter_simps)

text \<open>A gather that returns has one result per task, in order, each from its own task.\<close>

lemma gather_results:
  assumes "run_tasks (\<lambda>i. f (xs ! i)) (gather_order finished (length xs)) s = (s', outs)"
    and "\<forall>p \<in> set outs. \<not> task_failed (snd p)"
  shows "list_all2 (\<lambda>x r. \<exists>t t'. f x t = (t', Ret r)) xs (List.map_filter (result_of outs) [0..<length xs])"
proof -
  have keys: "map fst outs = gather_order finished (length xs)"
    using run_tasks_keys [of "\<lambda>i. f (xs ! i)" "gather_order finished (length xs)" s] assms(1) by simp
  have one: "\<exists>r. result_of outs i = Some r \<and> (\<exists>t t'. f (xs ! i) t = (t', Ret r))" if "i < length xs" for i
  proof -
    have "i \<in> set (map fst outs)" unfolding keys using that by simp
    then obtain out where out: "map_of outs i = Some out" by (cases "map_of outs i") (auto simp: map_of_eq_None_iff)
    then have mem: "(i, out) \<in> set outs" by (rule map_of_SomeD)
    then obtain r where "out = Ret r" using assms(2) by (cases out) auto
    then show ?thesis using out run_tasks_out [OF assms(1) mem] by (auto simp: result_of_def)
  qed
  define g where "g i = the (result_of outs i)" for i
  have g: "result_of outs i = Some (g i) \<and> (\<exists>t t'. f (xs ! i) t = (t', Ret (g i)))" if "i < length xs" for i
    using one [OF that] unfolding g_def by (metis option.sel)
  have "List.map_filter (result_of outs) [0..<length xs] = map g [0..<length xs]"
    by (rule map_filter_all) (simp add: g)
  then show ?thesis using g by (simp add: list_all2_conv_all_nth)
qed

lemma gather_Ret:
  assumes "gather finished f xs s = (s', Ret rs)"
  shows "list_all2 (\<lambda>x r. \<exists>t t'. f x t = (t', Ret r)) xs rs"
proof -
  obtain outs where outs: "run_tasks (\<lambda>i. f (xs ! i)) (gather_order finished (length xs)) s = (s', outs)"
    using assms by (auto simp: gather_def split: prod.splits)
  have none: "find task_failed (map snd outs) = None"
    using assms outs by (auto simp: gather_def split: option.splits outcome.splits)
  then have "\<forall>p \<in> set outs. \<not> task_failed (snd p)" by (auto simp: find_None_iff)
  from gather_results [OF outs this] show ?thesis using assms outs none by (simp add: gather_def)
qed

lemma gather_returns:
  assumes "\<And>x t. x \<in> set xs \<Longrightarrow> \<exists>t' r. f x t = (t', Ret r)"
  shows "\<exists>s' rs. gather finished f xs s = (s', Ret rs)"
proof -
  obtain s' outs where outs: "run_tasks (\<lambda>i. f (xs ! i)) (gather_order finished (length xs)) s = (s', outs)"
    by fastforce
  have "\<not> task_failed out" if mem: "(i, out) \<in> set outs" for i out
  proof -
    have keys: "map fst outs = gather_order finished (length xs)"
      using run_tasks_keys [of "\<lambda>i. f (xs ! i)" "gather_order finished (length xs)" s] outs by simp
    have "i \<in> set (map fst outs)" using mem by force
    then have "xs ! i \<in> set xs" unfolding keys by simp
    moreover obtain t t' where "f (xs ! i) t = (t', out)" using run_tasks_out [OF outs mem] by blast
    ultimately show ?thesis using assms [of "xs ! i" t] by auto
  qed
  then have "find task_failed (map snd outs) = None" by (auto simp: find_None_iff)
  then show ?thesis using outs by (simp add: gather_def)
qed

section \<open>The driver\<close>

record 'c opcua_driver =
  od_connection :: connection_config
  od_config :: opcua_driver_config
  od_client :: "'c option"
  od_connected :: bool
  od_clients_created :: nat
  od_clock_reads :: nat
  od_batches :: nat

definition opcua_driver_new :: "connection_config \<Rightarrow> 'c opcua_driver result" where
  "opcua_driver_new connection =
     rbind (opcua_config_from_options (cc_protocol_options connection)) (\<lambda>cfg.
       Inr \<lparr>od_connection = connection, od_config = cfg, od_client = None, od_connected = False,
            od_clients_created = 0, od_clock_reads = 0, od_batches = 0\<rparr>)"

definition opcua_capabilities :: "driver_capabilities result" where
  "opcua_capabilities = driver_capabilities_new ''opcua'' True True None"

text \<open>An optional setting of a client: nothing is called when it is None.\<close>

definition set_option_on :: "(string \<Rightarrow> 'c \<Rightarrow> 'c \<times> unit result) \<Rightarrow> string option \<Rightarrow> 'c \<Rightarrow> 'c \<times> unit result" where
  "set_option_on f v c = (case v of None \<Rightarrow> (c, Inr ()) | Some s \<Rightarrow> f s c)"

definition configure_client :: "('c, 'n) opcua_env \<Rightarrow> opcua_driver_config \<Rightarrow> 'c \<Rightarrow> 'c \<times> unit result" where
  "configure_client env cfg c =
     (case set_option_on (uv_set_security_string env) (oc_security_string cfg) c of
        (c1, Inl e) \<Rightarrow> (c1, Inl e)
      | (c1, Inr _) \<Rightarrow>
          (case set_option_on (uv_set_user env) (oc_username cfg) c1 of
             (c2, Inl e) \<Rightarrow> (c2, Inl e)
           | (c2, Inr _) \<Rightarrow> set_option_on (uv_set_password env) (oc_password cfg) c2))"

definition driver_timeout_s :: "'c opcua_driver \<Rightarrow> rat result" where
  "driver_timeout_s d =
     opcua_timeout_s (Some (cc_timeout_ms (od_connection d))) (cc_timeout_ms (od_connection d))"

definition session_error :: "'c opcua_driver \<Rightarrow> string \<Rightarrow> string \<Rightarrow> pyexn" where
  "session_error d m code =
     exn_coded TransientCommunicationError m code [(''connection_id'', PStr (cc_id (od_connection d)))]"

definition opcua_connect :: "('c, 'n) opcua_env \<Rightarrow> 'c opcua_driver \<Rightarrow> 'c opcua_driver \<times> unit outcome" where
  "opcua_connect env d =
     (case driver_timeout_s d of
        Inl e \<Rightarrow> (d, Raise e)
      | Inr limit \<Rightarrow>
          (let d1 = d\<lparr>od_clients_created := Suc (od_clients_created d)\<rparr>
           in case uv_create env (od_clients_created d) (cc_endpoint (od_connection d)) limit of
                Inl e \<Rightarrow> (d1, Raise e)
              | Inr client \<Rightarrow>
                  (case configure_client env (od_config d) client of
                     (_, Inl e) \<Rightarrow> (d1, Raise e)
                   | (c1, Inr _) \<Rightarrow>
                       (case uv_connect env (oc_auto_reconnect (od_config d))
                               (oc_reconnect_max_delay_s (od_config d))
                               (oc_reconnect_request_timeout_s (od_config d)) c1 of
                          (c2, call) \<Rightarrow>
                            (case wait_for limit call of
                               Ret _ \<Rightarrow> (d1\<lparr>od_client := Some c2, od_connected := True\<rparr>, Ret ())
                             | Cancelled \<Rightarrow> (d1, Cancelled)
                             | Raise e \<Rightarrow>
                                 (d1, Raise
                                   (if exn_class e = PyTimeoutError
                                    then session_error d ''OPC UA connect timed out.'' ''opcua_connect_timeout''
                                    else if uv_is_ua_error env (exn_class e)
                                    then session_error d ''OPC UA connect failed.'' ''opcua_connect_failed''
                                    else if is_os_error (exn_class e)
                                    then session_error d ''OPC UA socket connect failed.''
                                           ''opcua_socket_connect_failed''
                                    else e)))))))"

definition opcua_disconnect :: "('c, 'n) opcua_env \<Rightarrow> 'c opcua_driver \<Rightarrow> 'c opcua_driver \<times> unit outcome" where
  "opcua_disconnect env d =
     (let d1 = d\<lparr>od_client := None, od_connected := False\<rparr>
      in case od_client d of
           None \<Rightarrow> (d1, Ret ())
         | Some client \<Rightarrow>
             (case driver_timeout_s d of
                Inl e \<Rightarrow> (d1, Raise e)
              | Inr limit \<Rightarrow>
                  (case wait_for limit (snd (uv_disconnect env client)) of
                     Ret _ \<Rightarrow> (d1, Ret ())
                   | Cancelled \<Rightarrow> (d1, Cancelled)
                   | Raise e \<Rightarrow>
                       (d1, Raise
                         (if exn_class e = PyTimeoutError
                          then session_error d ''OPC UA disconnect timed out.'' ''opcua_disconnect_timeout''
                          else if uv_is_ua_error env (exn_class e)
                          then session_error d ''OPC UA disconnect failed.'' ''opcua_disconnect_failed''
                          else e)))))"

definition opcua_now :: "('c, 'n) opcua_env \<Rightarrow> nat \<Rightarrow> datetime result" where
  "opcua_now env k = to_utc env (uv_clock env k)"

definition read_node ::
  "('c, 'n) opcua_env \<Rightarrow> rat \<Rightarrow> tag_request \<Rightarrow> 'c \<Rightarrow> 'c \<times> ua_data_value outcome" where
  "read_node env limit tag c =
     (case uv_get_node env (rq_address tag) c of
        (c1, Inl e) \<Rightarrow> (c1, Raise e)
      | (c1, Inr node) \<Rightarrow>
          (case uv_read_data_value env node c1 of (c2, call) \<Rightarrow> (c2, wait_for limit call)))"

text \<open>One tag; the state is the client and the number of clock readings.\<close>

definition opcua_read_tag ::
  "('c, 'n) opcua_env \<Rightarrow> int \<Rightarrow> tag_request \<Rightarrow> 'c \<times> nat \<Rightarrow> ('c \<times> nat) \<times> tag_result outcome" where
  "opcua_read_tag env default_timeout_ms tag = (\<lambda>(c, k).
     case opcua_timeout_s (rq_timeout_ms tag) default_timeout_ms of
       Inl e \<Rightarrow> ((c, k), Raise e)
     | Inr limit \<Rightarrow>
         (case read_node env limit tag c of
            (c1, Cancelled) \<Rightarrow> ((c1, k), Cancelled)
          | (c1, Ret v) \<Rightarrow>
              ((c1, Suc k), outcome_of (rbind (opcua_now env k) (tag_result_from_data_value env tag v)))
          | (c1, Raise e) \<Rightarrow>
              (let failure = (\<lambda>code message. ((c1, Suc k), outcome_of (rbind (opcua_now env k) (\<lambda>now.
                     opcua_failure_result tag code message now e))))
               in if exn_class e = PyTimeoutError
                  then failure ''opcua_read_timeout'' ''OPC UA read timed out.''
                  else if uv_is_ua_error env (exn_class e)
                  then failure ''opcua_read_failed'' ''OPC UA read failed.''
                  else if is_os_error (exn_class e)
                  then failure ''opcua_socket_read_failed'' ''OPC UA socket read failed.''
                  else ((c1, k), Raise e))))"

definition require_client :: "'c opcua_driver \<Rightarrow> 'c result" where
  "require_client d =
     (case (if od_connected d then od_client d else None) of
        None \<Rightarrow> Inl (session_error d ''OPC UA client is not connected.'' ''opcua_not_connected'')
      | Some client \<Rightarrow> Inr client)"

definition opcua_read ::
  "('c, 'n) opcua_env \<Rightarrow> tag_request list \<Rightarrow> 'c opcua_driver \<Rightarrow> 'c opcua_driver \<times> tag_result list outcome" where
  "opcua_read env tags d =
     (case require_client d of
        Inl e \<Rightarrow> (d, Raise e)
      | Inr client \<Rightarrow>
          (case gather (uv_finish_order env (od_batches d))
                  (opcua_read_tag env (cc_timeout_ms (od_connection d))) tags (client, od_clock_reads d) of
             ((client', k), out) \<Rightarrow>
               (d\<lparr>od_client := Some client', od_clock_reads := k, od_batches := Suc (od_batches d)\<rparr>, out)))"

definition opcua_health_check :: "('c, 'n) opcua_env \<Rightarrow> 'c opcua_driver \<Rightarrow> 'c opcua_driver \<times> bool outcome" where
  "opcua_health_check env d =
     (case (if od_connected d then od_client d else None) of
        None \<Rightarrow> (d, Ret False)
      | Some client \<Rightarrow>
          (case driver_timeout_s d of
             Inl e \<Rightarrow> (d, Raise e)
           | Inr limit \<Rightarrow>
               (case uv_check_connection env client of
                  (client', call) \<Rightarrow>
                    (let d1 = d\<lparr>od_client := Some client'\<rparr>
                     in case wait_for limit call of
                          Ret _ \<Rightarrow> (d1, Ret True)
                        | Cancelled \<Rightarrow> (d1, Cancelled)
                        | Raise e \<Rightarrow>
                            (if exn_class e = PyTimeoutError \<or> uv_is_ua_error env (exn_class e)
                             then (d1\<lparr>od_connected := False\<rparr>, Ret False) else (d1, Raise e))))))"

definition opcua_ops :: "('c, 'n) opcua_env \<Rightarrow> 'c opcua_driver driver_ops" where
  "opcua_ops env =
     \<lparr>drv_connect = opcua_connect env, drv_disconnect = opcua_disconnect env,
      drv_read = opcua_read env, drv_health_check = opcua_health_check env\<rparr>"

section \<open>The driver contract\<close>

definition opcua_inv :: "'c opcua_driver \<Rightarrow> bool" where
  "opcua_inv d \<longleftrightarrow> (od_connected d \<longrightarrow> od_client d \<noteq> None)"

definition matches :: "tag_request \<Rightarrow> tag_result \<Rightarrow> bool" where
  "matches q r \<longleftrightarrow> tr_tag_id r = rq_tag_id q \<and> tag_result_ok r \<and>
     (case tr_value r of None \<Rightarrow> True | Some v \<Rightarrow> tag_value_ok v \<and> tv_type v = rq_value_type q)"

lemma tag_value_from_variant_ok:
  "tag_value_from_variant vt raw = Inr v \<Longrightarrow> tag_value_ok v \<and> tv_type v = vt"
  unfolding tag_value_from_variant_def
  by (cases vt; cases raw)
    (auto simp: type_mismatch_def simp del: tag_value_ctor_simps dest: tag_value_ctor_ok)

lemma tag_result_failure_matches:
  assumes "tag_result_failure (rq_tag_id q) code m ra st Q_Bad = Inr r" "request_ok q"
  shows "matches q r"
proof -
  have "py_strip (rq_tag_id q) = rq_tag_id q" using assms(2) by (simp add: request_ok_def stripped_def)
  then show ?thesis using assms(1) unfolding matches_def tag_result_failure_def
    by (auto dest: tag_result_new_ok tag_result_new_tag_id)
qed

lemma tag_result_success_matches:
  assumes "tag_result_success (rq_tag_id q) v st ra k = Inr r" "request_ok q"
    and "tag_value_ok v \<and> tv_type v = rq_value_type q"
  shows "matches q r"
proof -
  have "py_strip (rq_tag_id q) = rq_tag_id q" using assms(2) by (simp add: request_ok_def stripped_def)
  then show ?thesis using assms(1,3) unfolding matches_def tag_result_success_def
    by (auto dest: tag_result_new_ok tag_result_new_tag_id)
qed

lemma tag_result_from_data_value_matches:
  assumes "tag_result_from_data_value env q v now = Inr r" "request_ok q"
  shows "matches q r"
proof -
  have f: "matches q r" if "tag_result_failure (rq_tag_id q) code m ra st Q_Bad = Inr r" for code m ra st
    using that assms(2) by (rule tag_result_failure_matches)
  have s: "matches q r"
    if "tag_value_from_variant (rq_value_type q) raw = Inr x" "tag_result_success (rq_tag_id q) x st ra k = Inr r"
    for raw x st ra k
    using that(2) assms(2) tag_value_from_variant_ok [OF that(1)] by (rule tag_result_success_matches)
  show ?thesis using assms(1)
    by (auto simp: tag_result_from_data_value_def Let_def intro: f s
        split: option.splits sum.splits if_splits)
qed

lemma opcua_failure_result_matches:
  "opcua_failure_result q code m now e = Inr r \<Longrightarrow> request_ok q \<Longrightarrow> matches q r"
  unfolding opcua_failure_result_def by (rule tag_result_failure_matches)

lemma opcua_read_tag_matches:
  assumes "opcua_read_tag env t q s = (s', Ret r)" "request_ok q"
  shows "matches q r"
proof -
  have d: "matches q r" if "rbind n (tag_result_from_data_value env q v) = Inr r" for v and n :: "datetime result"
    using that tag_result_from_data_value_matches [OF _ assms(2)] by auto
  have f: "matches q r" if "rbind n (\<lambda>now. opcua_failure_result q code m now e) = Inr r"
    for n :: "datetime result" and code m e
    using that opcua_failure_result_matches [OF _ assms(2)] by auto
  show ?thesis using assms(1)
    by (auto simp: opcua_read_tag_def Let_def simp del: rbind_Inr_iff dest: d f
        split: prod.splits sum.splits outcome.splits if_splits)
qed

lemma opcua_read_tags:
  assumes "opcua_read env tags d = (d', Ret res)"
  shows "list_all2 (\<lambda>q r. \<exists>s s'. opcua_read_tag env (cc_timeout_ms (od_connection d)) q s = (s', Ret r)) tags res"
  using assms by (auto simp: opcua_read_def require_client_def dest!: gather_Ret split: option.splits prod.splits if_splits)

lemma opcua_read_match:
  assumes "\<forall>q \<in> set tags. request_ok q" "opcua_read env tags d = (d', Ret res)"
  shows "results_match tags res"
proof -
  have "list_all2 matches tags res"
    by (rule list.rel_mono_strong [OF opcua_read_tags [OF assms(2)]])
      (use assms(1) opcua_read_tag_matches in blast)
  then show ?thesis unfolding results_match_def
    by (rule list_all2_mono) (auto simp: matches_def split: option.splits)
qed

lemma opcua_connect_cases:
  "opcua_connect env d = (d', out) \<Longrightarrow>
     (out = Ret () \<and> od_connected d' \<and> od_client d' \<noteq> None) \<or>
     (out \<noteq> Ret () \<and> od_connected d' = od_connected d \<and> od_client d' = od_client d)"
  by (auto simp: opcua_connect_def Let_def split: sum.splits prod.splits outcome.splits if_splits)

lemma opcua_disconnect_closes:
  "od_connected (fst (opcua_disconnect env d)) = False \<and> od_client (fst (opcua_disconnect env d)) = None"
  by (auto simp: opcua_disconnect_def Let_def split: option.splits sum.splits outcome.splits)

lemma opcua_read_session:
  "opcua_read env tags d = (d', out) \<Longrightarrow> od_connected d' = od_connected d \<and>
     (od_connected d \<longrightarrow> (od_client d' = None) = (od_client d = None))"
  by (auto simp: opcua_read_def require_client_def split: option.splits prod.splits if_splits)

lemma opcua_health_session:
  "opcua_health_check env d = (d', out) \<Longrightarrow> opcua_inv d \<Longrightarrow>
     od_connected d' = (od_connected d \<and> out \<noteq> Ret False) \<and> opcua_inv d'"
  by (auto simp: opcua_health_check_def opcua_inv_def Let_def
      split: option.splits prod.splits sum.splits outcome.splits if_splits)

lemma opcua_frame [frame]:
  "od_connection (fst (opcua_connect env d)) = od_connection d"
  "od_connection (fst (opcua_disconnect env d)) = od_connection d"
  "od_connection (fst (opcua_read env tags d)) = od_connection d"
  "od_connection (fst (opcua_health_check env d)) = od_connection d"
     apply (auto simp: opcua_connect_def Let_def split: sum.splits prod.splits outcome.splits)[1]
    apply (auto simp: opcua_disconnect_def Let_def split: option.splits sum.splits outcome.splits)[1]
   apply (auto simp: opcua_read_def require_client_def split: option.splits prod.splits)[1]
  apply (auto simp: opcua_health_check_def Let_def split: option.splits sum.splits prod.splits outcome.splits)[1]
  done

interpretation opcua: communication_driver "opcua_ops env" opcua_inv for env
proof unfold_locales
  fix d :: "'a opcua_driver"
  assume inv: "opcua_inv d"
  show "opcua_inv (fst (drv_connect (opcua_ops env) d))"
    using inv opcua_connect_cases [of env d] by (cases "opcua_connect env d") (auto simp: opcua_ops_def opcua_inv_def)
  show "opcua_inv (fst (drv_disconnect (opcua_ops env) d))"
    by (simp add: opcua_ops_def opcua_inv_def opcua_disconnect_closes)
  show "opcua_inv (fst (drv_read (opcua_ops env) reqs d))" for reqs
    using inv opcua_read_session [of env reqs d] by (cases "opcua_read env reqs d") (auto simp: opcua_ops_def opcua_inv_def)
  show "opcua_inv (fst (drv_health_check (opcua_ops env) d))"
    using opcua_health_session [OF _ inv] by (cases "opcua_health_check env d") (auto simp: opcua_ops_def)
next
  fix d :: "'a opcua_driver" and reqs d' res
  assume "\<forall>q \<in> set reqs. request_ok q" "drv_read (opcua_ops env) reqs d = (d', Ret res)"
  then show "results_match reqs res" using opcua_read_match by (simp add: opcua_ops_def)
qed

section \<open>Isolation of the nodes\<close>

text \<open>
  What the driver relies on: the clock and the source timestamps convert to UTC, a status
  that is not bad is good or uncertain, an integer payload fits a float (the integers of
  OPC UA have at most 64 bits), and the reads of a node fail only with the library's errors, I/O
  errors or by time.
\<close>

definition ua_value_ok :: "('c, 'n) opcua_env \<Rightarrow> ua_data_value \<Rightarrow> bool" where
  "ua_value_ok env v \<longleftrightarrow>
     (let s = (case uw_status v of None \<Rightarrow> uv_default_status env | Some s \<Rightarrow> s)
      in us_bad s \<or> us_good s \<or> us_uncertain s) \<and>
     (case uw_source_timestamp v of None \<Rightarrow> True | Some d \<Rightarrow> \<exists>u. to_utc env d = Inr u) \<and>
     (case uw_variant v of Some (PInt n) \<Rightarrow> float_of_int n \<noteq> None | _ \<Rightarrow> True)"

definition handled :: "('c, 'n) opcua_env \<Rightarrow> pyexn \<Rightarrow> bool" where
  "handled env e \<longleftrightarrow> uv_is_ua_error env (exn_class e) \<or> is_os_error (exn_class e)"

definition polite :: "('c, 'n) opcua_env \<Rightarrow> bool" where
  "polite env \<longleftrightarrow> (\<forall>k. \<exists>u. to_utc env (uv_clock env k) = Inr u) \<and>
     (\<forall>a c c' e. uv_get_node env a c = (c', Inl e) \<longrightarrow> handled env e) \<and>
     (\<forall>n c c' t out. uv_read_data_value env n c = (c', Takes t out) \<longrightarrow>
        (case out of Ret v \<Rightarrow> ua_value_ok env v | Raise e \<Rightarrow> handled env e | Cancelled \<Rightarrow> False))"

lemma timeout_handled [simp]: "handled env (exn PyTimeoutError m)"
  by (simp add: handled_def is_os_error_def)

lemma wait_for_cases:
  "wait_for limit call = Raise (exn PyTimeoutError '''') \<or>
     (\<exists>t out. call = Takes t out \<and> wait_for limit call = out)"
  by (cases call) auto

lemma read_node_polite:
  assumes "polite env"
  shows "case snd (read_node env limit q c) of
    Ret v \<Rightarrow> ua_value_ok env v | Raise e \<Rightarrow> handled env e | Cancelled \<Rightarrow> False"
proof -
  obtain c1 r where g: "uv_get_node env (rq_address q) c = (c1, r)" by fastforce
  show ?thesis
  proof (cases r)
    case (Inl e)
    then show ?thesis using g assms by (auto simp: read_node_def polite_def)
  next
    case (Inr node)
    obtain c2 call where call: "uv_read_data_value env node c1 = (c2, call)" by fastforce
    show ?thesis
      using wait_for_cases [of limit call] g Inr call assms
      by (fastforce simp: read_node_def polite_def split: outcome.splits)
  qed
qed

lemma to_utc_ok: "to_utc env d = Inr u \<Longrightarrow> utc_ok u"
  by (auto simp: to_utc_def dest: astimezone_utc_ok)

lemma opcua_failure_result_total:
  assumes "stripped (rq_tag_id q)" "utc_ok now" "\<not> blank code" "\<not> blank message"
  shows "\<exists>r. opcua_failure_result q code message now e = Inr r"
proof -
  have "\<not> blank (message @ '' '' @ class_name (exn_class e))"
    using assms(4) by (auto simp: blank_def py_strip_eq_Nil)
  then show ?thesis using assms by (simp add: opcua_failure_result_def tag_result_failure_total)
qed

lemma tag_result_failure_returns:
  assumes "stripped i" "utc_ok now" "utc_option st" "\<not> blank code" "\<not> blank message"
  shows "\<exists>r. tag_result_failure i code message now st Q_Bad = Inr r \<and> tr_value r = None \<and>
    tr_error_code r = Some (py_strip code)"
  using assms
  by (auto simp: tag_result_failure_def tag_result_new_def set_optional_stripped_def blank_def)

lemma tag_value_from_variant_errors:
  assumes "tag_value_from_variant vt raw = Inl e" "case raw of PInt n \<Rightarrow> float_of_int n \<noteq> None | _ \<Rightarrow> True"
  shows "exn_class e = ConfigurationError \<and> exn_code e = Some ''opcua_value_type_mismatch'' \<and>
    \<not> blank (exn_message e)"
  using assms
  by (cases vt; cases raw)
    (auto simp: tag_value_from_variant_def type_mismatch_def blank_def py_strip_eq_Nil is_space_def
      code_point_def tag_value_numeric_def is_bool_def tag_value_new_def split: option.splits)

text \<open>What a data value becomes: a reading exactly if it is not bad and carries a value of the tag's type.\<close>

lemma data_value_reading:
  assumes "ua_value_ok env v" "request_ok q" "utc_ok now"
  shows "\<exists>r. tag_result_from_data_value env q v now = Inr r \<and>
    (let status = (case uw_status v of None \<Rightarrow> uv_default_status env | Some s \<Rightarrow> s)
     in (is_success r \<longleftrightarrow> \<not> us_bad status \<and>
          (\<exists>raw x. uw_variant v = Some raw \<and> tag_value_from_variant (rq_value_type q) raw = Inr x \<and>
             tr_value r = Some x)) \<and>
        (is_success r \<longrightarrow> tr_quality r = (if us_good status then Q_Good else Q_Uncertain) \<and>
           (case uw_source_timestamp v of
              None \<Rightarrow> tr_source_timestamp r = Some now
            | Some d \<Rightarrow> to_utc env d = Inr (the (tr_source_timestamp r)))))"
proof -
  define status where "status = (case uw_status v of None \<Rightarrow> uv_default_status env | Some s \<Rightarrow> s)"
  have id: "stripped (rq_tag_id q)" using assms(2) by (simp add: request_ok_def)
  obtain source where source: "source_timestamp_of env v = Inr source" "utc_option source"
    "source = None \<longleftrightarrow> uw_source_timestamp v = None"
    "\<And>d. uw_source_timestamp v = Some d \<Longrightarrow> to_utc env d = Inr (the source)"
  proof (cases "uw_source_timestamp v")
    case None
    then show ?thesis using that [of None] by (simp add: source_timestamp_of_def)
  next
    case (Some d)
    then obtain u where "to_utc env d = Inr u" using assms(1) by (auto simp: ua_value_ok_def)
    then show ?thesis using Some that [of "Some u"] by (simp add: source_timestamp_of_def to_utc_ok)
  qed
  have fail: "\<exists>r. tag_result_failure (rq_tag_id q) code message now source Q_Bad = Inr r \<and> tr_value r = None"
    if "\<not> blank code" "\<not> blank message" for code message
    using tag_result_failure_returns [OF id assms(3) source(2) that] by blast
  consider (bad) "us_bad status" | (empty) "\<not> us_bad status" "uw_variant v = None"
    | (mismatch) raw e where "\<not> us_bad status" "uw_variant v = Some raw"
        "tag_value_from_variant (rq_value_type q) raw = Inl e"
    | (reading) raw x where "\<not> us_bad status" "uw_variant v = Some raw"
        "tag_value_from_variant (rq_value_type q) raw = Inr x"
    by (metis old.sum.exhaust option.exhaust)
  then show ?thesis
  proof cases
    case bad
    have "\<not> blank (''OPC UA status '' @ us_name status @ ''.'')"
      by (simp add: blank_def py_strip_eq_Nil is_space_def code_point_def)
    from fail [OF _ this, of "''opcua_bad_status''"] show ?thesis using bad source(1)
      by (auto simp: tag_result_from_data_value_def Let_def status_def [symmetric] is_success_def blank_def
          py_strip_eq_Nil is_space_def code_point_def)
  next
    case empty
    have "\<exists>r. tag_result_failure (rq_tag_id q) ''opcua_empty_value''
        ''OPC UA data value has no variant payload.'' now source Q_Bad = Inr r \<and> tr_value r = None"
      by (rule fail) (simp_all add: blank_def py_strip_eq_Nil is_space_def code_point_def)
    then show ?thesis using empty source(1)
      by (auto simp: tag_result_from_data_value_def Let_def status_def [symmetric] is_success_def)
  next
    case mismatch
    have "case raw of PInt n \<Rightarrow> float_of_int n \<noteq> None | _ \<Rightarrow> True"
      using assms(1) mismatch(2) by (auto simp: ua_value_ok_def split: pyval.splits)
    note e = tag_value_from_variant_errors [OF mismatch(3) this]
    have "\<exists>r. tag_result_failure (rq_tag_id q) ''opcua_value_type_mismatch'' (exn_message e) now source Q_Bad
        = Inr r \<and> tr_value r = None"
      by (rule fail) (use e in \<open>simp_all add: blank_def py_strip_eq_Nil is_space_def code_point_def\<close>)
    then show ?thesis using mismatch source(1) e
      by (auto simp: tag_result_from_data_value_def Let_def status_def [symmetric] is_success_def str_or_def)
  next
    case reading
    have st: "utc_ok (case source of None \<Rightarrow> now | Some s \<Rightarrow> s)"
      using source(2) assms(3) by (cases source) auto
    have "us_good status \<or> us_uncertain status"
      using assms(1) reading(1) by (auto simp: ua_value_ok_def Let_def status_def)
    then have qual: "quality_from_status status = (if us_good status then Q_Good else Q_Uncertain)"
      by (auto simp: quality_from_status_def)
    then have "quality_from_status status \<noteq> Q_Bad" by simp
    from tag_result_success_total [OF id st assms(3) this, of x] show ?thesis using reading source(1,3,4) qual
      by (auto simp: tag_result_from_data_value_def Let_def status_def [symmetric] is_success_def
          split: option.splits)
  qed
qed

lemma opcua_read_tag_returns:
  assumes "polite env" "request_ok q" "0 < t"
  shows "\<exists>s' r. opcua_read_tag env t q s = (s', Ret r)"
proof -
  obtain c k where s: "s = (c, k)" by fastforce
  define limit :: rat where "limit = of_int (case rq_timeout_ms q of None \<Rightarrow> t | Some x \<Rightarrow> x) / 1000"
  have limit: "opcua_timeout_s (rq_timeout_ms q) t = Inr limit"
    using assms(2,3) by (auto simp: opcua_timeout_s_def request_ok_def limit_def split: option.splits)
  obtain now where now: "opcua_now env k = Inr now" "utc_ok now"
    using assms(1) to_utc_ok unfolding polite_def opcua_now_def by metis
  have id: "stripped (rq_tag_id q)" using assms(2) by (simp add: request_ok_def)
  obtain c1 out where out: "read_node env limit q c = (c1, out)" by fastforce
  have fails: "\<exists>r. opcua_failure_result q code message now e = Inr r"
    if "(code, message) \<in> {(''opcua_read_timeout'', ''OPC UA read timed out.''),
        (''opcua_read_failed'', ''OPC UA read failed.''),
        (''opcua_socket_read_failed'', ''OPC UA socket read failed.'')}" for code message e
    by (rule opcua_failure_result_total [OF id now(2)])
      (use that in \<open>auto simp: blank_def py_strip_eq_Nil is_space_def code_point_def\<close>)
  have polite: "case out of Ret v \<Rightarrow> ua_value_ok env v | Raise e \<Rightarrow> handled env e | Cancelled \<Rightarrow> False"
    using read_node_polite [OF assms(1), of limit q c] out by simp
  show ?thesis
  proof (cases out)
    case (Ret v)
    then obtain r where "tag_result_from_data_value env q v now = Inr r"
      using data_value_reading [OF _ assms(2) now(2)] polite by fastforce
    then show ?thesis using s limit out Ret now by (simp add: opcua_read_tag_def)
  next
    case (Raise e)
    then show ?thesis using s limit out now polite fails
      by (fastforce simp: opcua_read_tag_def handled_def Let_def)
  next
    case Cancelled
    then show ?thesis using polite by simp
  qed
qed

section \<open>The session\<close>

text \<open>
  The calls made on a driver, and the abstract session they go through: open after a
  connect that returns, closed by any disconnect and by a health check that answers False,
  untouched by everything else.
\<close>

datatype opcua_call = OC_Connect | OC_Disconnect | OC_Read "tag_request list" | OC_Health

datatype session_event = Opened | Closed | Unchanged

fun opcua_step :: "('c, 'n) opcua_env \<Rightarrow> opcua_call \<Rightarrow> 'c opcua_driver \<Rightarrow> 'c opcua_driver \<times> session_event" where
  "opcua_step env OC_Connect d =
     (case opcua_connect env d of (d', out) \<Rightarrow> (d', if out = Ret () then Opened else Unchanged))"
| "opcua_step env OC_Disconnect d = (case opcua_disconnect env d of (d', out) \<Rightarrow> (d', Closed))"
| "opcua_step env (OC_Read tags) d = (case opcua_read env tags d of (d', out) \<Rightarrow> (d', Unchanged))"
| "opcua_step env OC_Health d =
     (case opcua_health_check env d of (d', out) \<Rightarrow> (d', if out = Ret False then Closed else Unchanged))"

fun opcua_run :: "('c, 'n) opcua_env \<Rightarrow> opcua_call list \<Rightarrow> 'c opcua_driver \<Rightarrow> 'c opcua_driver \<times> session_event list" where
  "opcua_run env [] d = (d, [])"
| "opcua_run env (call # calls) d =
     (case opcua_step env call d of (d1, ev) \<Rightarrow> case opcua_run env calls d1 of (d2, evs) \<Rightarrow> (d2, ev # evs))"

fun session_open :: "bool \<Rightarrow> session_event list \<Rightarrow> bool" where
  "session_open b [] = b"
| "session_open b (Opened # evs) = session_open True evs"
| "session_open b (Closed # evs) = session_open False evs"
| "session_open b (Unchanged # evs) = session_open b evs"

lemma opcua_step_session:
  assumes "opcua_step env call d = (d', ev)" "opcua_inv d"
  shows "opcua_inv d' \<and> od_connected d' = session_open (od_connected d) [ev] \<and>
    od_connection d' = od_connection d"
proof (cases call)
  case OC_Connect
  then show ?thesis using assms opcua_connect_cases [of env d] opcua_frame(1) [of env d]
    by (auto simp: opcua_inv_def split: prod.splits)
next
  case OC_Disconnect
  then show ?thesis using assms opcua_disconnect_closes [of env d] opcua_frame(2) [of env d]
    by (auto simp: opcua_inv_def split: prod.splits)
next
  case (OC_Read tags)
  then show ?thesis using assms opcua_read_session [of env tags d] opcua_frame(3) [of env tags d]
    by (auto simp: opcua_inv_def split: prod.splits)
next
  case OC_Health
  then show ?thesis using assms opcua_health_session [of env d] opcua_frame(4) [of env d]
    by (auto split: prod.splits if_splits)
qed

lemma opcua_run_session:
  assumes "opcua_run env calls d = (d', evs)" "opcua_inv d"
  shows "opcua_inv d' \<and> od_connected d' = session_open (od_connected d) evs \<and>
    od_connection d' = od_connection d"
  using assms
proof (induction calls arbitrary: d evs)
  case (Cons call calls)
  obtain d1 ev where step: "opcua_step env call d = (d1, ev)" by fastforce
  obtain rest where run: "opcua_run env calls d1 = (d', rest)" "evs = ev # rest"
    using Cons.prems(1) step by (auto split: prod.splits)
  note s = opcua_step_session [OF step Cons.prems(2)]
  have "session_open (od_connected d) (ev # rest) = session_open (od_connected d1) rest"
    using s by (cases ev) auto
  then show ?case using Cons.IH [OF run(1)] s run(2) by simp
qed simp

text \<open>The factory for the registry.\<close>

definition create_opcua_driver :: "'c opcua_driver driver_factory" where
  "create_opcua_driver connection = opcua_driver_new connection"

lemma opcua_driver_new_facts:
  "opcua_driver_new c = Inr d \<Longrightarrow> opcua_inv d \<and> \<not> od_connected d \<and> od_connection d = c"
  by (auto simp: opcua_driver_new_def opcua_inv_def)

section \<open>Properties\<close>

text \<open>
  C11: one unreadable node does not cost the others. With an open session, a positive time limit and valid requests,
  let the library be polite: the only errors that making and reading a node raises are UaError and
  OSError (a time-out is one), no call is cancelled, and the values it gives have the status, the time stamps and the
  payload that it documents. Then whichever nodes fail so or time out, in any order and at
  any time, a read returns with one valid result per request, in order, and each result is what reading that
  tag alone gives. Any other error of one node makes the whole read raise.
\<close>

theorem opcua_read_isolates:
  assumes "polite env" "opcua_inv d" "od_connected d" "0 < cc_timeout_ms (od_connection d)"
    and "\<forall>q \<in> set tags. request_ok q"
  shows "\<exists>d' res. opcua_read env tags d = (d', Ret res) \<and> list_all2 matches tags res \<and>
    list_all2 (\<lambda>q r. \<exists>s s'. opcua_read_tag env (cc_timeout_ms (od_connection d)) q s = (s', Ret r)) tags res"
proof -
  obtain c where c: "od_client d = Some c" using assms(2,3) by (auto simp: opcua_inv_def)
  have "\<exists>s' r. opcua_read_tag env (cc_timeout_ms (od_connection d)) q s = (s', Ret r)" if "q \<in> set tags" for q s
    using opcua_read_tag_returns [OF assms(1) _ assms(4)] assms(5) that by blast
  from gather_returns [of tags "opcua_read_tag env (cc_timeout_ms (od_connection d))", OF this]
  obtain s' res where
    "gather (uv_finish_order env (od_batches d)) (opcua_read_tag env (cc_timeout_ms (od_connection d)))
       tags (c, od_clock_reads d) = (s', Ret res)" by blast
  then obtain d' where read: "opcua_read env tags d = (d', Ret res)"
    using c assms(3) by (cases s') (simp add: opcua_read_def require_client_def)
  have "list_all2 matches tags res"
    by (rule list.rel_mono_strong [OF opcua_read_tags [OF read]])
      (use assms(5) opcua_read_tag_matches in blast)
  then show ?thesis using read opcua_read_tags [OF read] by blast
qed

text \<open>
  C17: the driver refines its session. After any sequence of calls on a new driver, with any
  outcomes, it is connected exactly if the session is open; then it holds a client, and
  otherwise a read raises the transient error \<open>opcua_not_connected\<close> without touching it.
\<close>

theorem opcua_session_refines:
  assumes "opcua_driver_new c = Inr d0" "opcua_run env calls d0 = (d, evs)"
  shows "od_connected d = session_open False evs \<and> (od_connected d \<longrightarrow> od_client d \<noteq> None) \<and>
    (\<not> session_open False evs \<longrightarrow> opcua_read env tags d = (d, Raise (exn_coded TransientCommunicationError
       ''OPC UA client is not connected.'' ''opcua_not_connected'' [(''connection_id'', PStr (cc_id c))])))"
  using opcua_run_session [OF assms(2)] opcua_driver_new_facts [OF assms(1)]
  by (simp add: opcua_inv_def opcua_read_def require_client_def session_error_def)

text \<open>
  What a data value becomes. It is a reading exactly if its status is not bad and it
  carries a value of the tag's type; the reading has the value, the quality of the status
  and the source timestamp in UTC, or the time of receipt without one. Otherwise the result
  is a failure, never an error.
\<close>

lemma opcua_data_value_reading:
  assumes "ua_value_ok env v" "request_ok q" "utc_ok now"
  shows "\<exists>r. tag_result_from_data_value env q v now = Inr r \<and>
    (let status = (case uw_status v of None \<Rightarrow> uv_default_status env | Some s \<Rightarrow> s)
     in (is_success r \<longleftrightarrow> \<not> us_bad status \<and>
          (\<exists>raw x. uw_variant v = Some raw \<and> tag_value_from_variant (rq_value_type q) raw = Inr x \<and>
             tr_value r = Some x)) \<and>
        (is_success r \<longrightarrow> tr_quality r = (if us_good status then Q_Good else Q_Uncertain) \<and>
           (case uw_source_timestamp v of
              None \<Rightarrow> tr_source_timestamp r = Some now
            | Some d \<Rightarrow> to_utc env d = Inr (the (tr_source_timestamp r)))))"
  by (rule data_value_reading [OF assms])

section \<open>Witnesses\<close>

text \<open>
  A library with two nodes, one of which answers with an uncertain integer, dated with an
  offset, and one whose read fails; they finish in reverse order.
\<close>

definition ex_good :: ua_status where
  "ex_good = \<lparr>us_good = True, us_uncertain = False, us_bad = False, us_name = ''Good''\<rparr>"

definition ex_uncertain :: ua_status where
  "ex_uncertain = \<lparr>us_good = False, us_uncertain = True, us_bad = False, us_name = ''Uncertain''\<rparr>"

definition ex_data_value :: ua_data_value where
  "ex_data_value = \<lparr>uw_status = Some ex_uncertain, uw_variant = Some (PInt 7),
     uw_source_timestamp = Some \<lparr>dt_wall = 900, dt_offset = Some 400\<rparr>\<rparr>"

definition ex_opcua_env :: "(unit, bool) opcua_env" where
  "ex_opcua_env = \<lparr>uv_create = \<lambda>n url t. Inr (), uv_set_security_string = \<lambda>s c. (c, Inr ()),
     uv_set_user = \<lambda>s c. (c, Inr ()), uv_set_password = \<lambda>s c. (c, Inr ()),
     uv_connect = \<lambda>a b t c. (c, Takes 0 (Ret ())), uv_disconnect = \<lambda>c. (c, Never),
     uv_check_connection = \<lambda>c. (c, Never), uv_get_node = \<lambda>a c. (c, Inr (a = ''n1'')),
     uv_read_data_value = \<lambda>n c. (c, Takes (1 / 10)
        (if n then Ret ex_data_value else Raise (exn (OtherError ''BadNodeIdUnknown'') ''''))),
     uv_is_ua_error = \<lambda>c. c = OtherError ''BadNodeIdUnknown'', uv_default_status = ex_good,
     uv_clock = \<lambda>k. utc_dt 1000, uv_local_offset = \<lambda>w. 0, uv_finish_order = \<lambda>k. [1, 0]\<rparr>"

definition ex_opcua_connection :: connection_config where
  "ex_opcua_connection = \<lparr>cc_id = ''c'', cc_protocol = ''opcua'', cc_endpoint = ''opc.tcp://h'',
     cc_enabled = True, cc_timeout_ms = 500, cc_protocol_options = [(PStr ''username'', PStr '' u '')]\<rparr>"

definition ex_opcua_driver :: "unit opcua_driver" where
  "ex_opcua_driver = (case opcua_driver_new ex_opcua_connection of Inr d \<Rightarrow> d)"

definition ex_opcua_open :: "unit opcua_driver" where
  "ex_opcua_open = fst (opcua_connect ex_opcua_env ex_opcua_driver)"

definition ex_opcua_tags :: "tag_request list" where
  "ex_opcua_tags = map (\<lambda>i. \<lparr>rq_tag_id = i, rq_address = i, rq_value_type = VT_Integer, rq_timeout_ms = None\<rparr>)
     [''n1'', ''n2'']"

lemma ex_opcua_new: "opcua_driver_new ex_opcua_connection = Inr ex_opcua_driver"
  by code_simp

lemma ex_data_value_ok: "ua_value_ok ex_opcua_env ex_data_value"
proof -
  have "to_utc ex_opcua_env \<lparr>dt_wall = 900, dt_offset = Some 400\<rparr> = Inr (utc_dt 500)"
    by (simp add: to_utc_def astimezone_utc_def valid_wall_def max_wall_def)
  moreover have "float_of_int 7 \<noteq> None"
    by (simp add: float_of_int_def round53_def bit_len.simps)
  ultimately show ?thesis by (simp add: ua_value_ok_def ex_data_value_def ex_uncertain_def)
qed

lemma ex_opcua_polite: "polite ex_opcua_env"
proof -
  have "to_utc ex_opcua_env (uv_clock ex_opcua_env k) = Inr (utc_dt 1000)" for k
    by (simp add: ex_opcua_env_def to_utc_def astimezone_utc_def valid_wall_def max_wall_def)
  moreover have "uv_get_node ex_opcua_env a c = (c, Inr (a = ''n1''))" for a c
    by (simp add: ex_opcua_env_def)
  moreover have "uv_read_data_value ex_opcua_env n c = (c, Takes (1 / 10)
      (if n then Ret ex_data_value else Raise (exn (OtherError ''BadNodeIdUnknown'') '''')))" for n c
    by (simp add: ex_opcua_env_def)
  moreover have "handled ex_opcua_env (exn (OtherError ''BadNodeIdUnknown'') '''')"
    by (simp add: handled_def ex_opcua_env_def)
  ultimately show ?thesis unfolding polite_def by (auto simp: ex_data_value_ok)
qed

lemma ex_opcua_opened: "od_connected ex_opcua_open \<and> opcua_inv ex_opcua_open \<and>
    od_connection ex_opcua_open = ex_opcua_connection"
proof -
  have "od_connected ex_opcua_open" by code_simp
  moreover have "opcua_inv ex_opcua_open"
    using opcua.connect_inv [of ex_opcua_driver ex_opcua_env] opcua_driver_new_facts [OF ex_opcua_new]
    by (simp add: opcua_ops_def ex_opcua_open_def)
  moreover have "od_connection ex_opcua_open = ex_opcua_connection"
    using opcua_driver_new_facts [OF ex_opcua_new] by (simp add: ex_opcua_open_def frame)
  ultimately show ?thesis by blast
qed

lemma ex_opcua_tags_ok: "\<forall>q \<in> set ex_opcua_tags. request_ok q"
  by code_simp

theorem opcua_read_isolates_witness:
  "\<exists>d' res. opcua_read ex_opcua_env ex_opcua_tags ex_opcua_open = (d', Ret res) \<and>
     list_all2 matches ex_opcua_tags res"
proof -
  have "0 < cc_timeout_ms (od_connection ex_opcua_open)"
    using ex_opcua_opened by (simp add: ex_opcua_connection_def)
  then show ?thesis
    using opcua_read_isolates [OF ex_opcua_polite _ _ _ ex_opcua_tags_ok, of ex_opcua_open] ex_opcua_opened
    by blast
qed

theorem opcua_session_refines_witness:
  "\<not> od_connected (fst (opcua_run ex_opcua_env [OC_Connect, OC_Read ex_opcua_tags, OC_Health] ex_opcua_driver))"
proof -
  let ?run = "opcua_run ex_opcua_env [OC_Connect, OC_Read ex_opcua_tags, OC_Health] ex_opcua_driver"
  have "snd ?run = [Opened, Unchanged, Closed]" by code_simp
  moreover have "?run = (fst ?run, snd ?run)" by simp
  ultimately show ?thesis using opcua_session_refines [OF ex_opcua_new, of ex_opcua_env _ "fst ?run"]
    by (metis session_open.simps)
qed

end
