(* ===== verification/Generator.thy ===== *)
theory Generator
  imports Application
begin

text \<open>
  The command of src/tools/generate_credits.py: its arguments, the files it reads and writes
  and its ending, around the generator of the theory Credits. Files written are kept as the
  document in them: the value whose JSON text was written, or the text that a failed write left.
  A path is its text; reading a file (with the TOML reader for the first) is a parameter.

  Shown: the generator and the \<^verbatim>\<open>licenses\<close> command of the gateway fit together, and a run that
  fails leaves every file alone unless the write itself failed.
\<close>

datatype document = Json_Document pyval | Text_Left string

record generator_env =
  gn_platform :: platform
  gn_root :: string
  gn_read_toml :: "string \<Rightarrow> pyval result"
  gn_read_text :: "string \<Rightarrow> string result"
  gn_packages :: package_env
  gn_shown :: "pyval \<Rightarrow> string"
  gn_mkdir :: "string \<Rightarrow> unit result"
  gn_write :: "string \<Rightarrow> (pyexn \<times> string option) option"

definition project_path :: "generator_env \<Rightarrow> string list \<Rightarrow> string" where
  "project_path env parts = foldl (path_join (gn_platform env)) (gn_root env) parts"

definition credits_parser :: "generator_env \<Rightarrow> arg_parser" where
  "credits_parser env = fold (\<lambda>(name, act, dflt). add_argument name act dflt)
     [(''--pyproject'', Act_Text, PStr (project_path env [''pyproject.toml''])),
      (''--notices'', Act_Text, PStr (project_path env [''THIRD_PARTY_NOTICES.md''])),
      (''--output'', Act_Text, PStr (project_path env [''src'', ''plc_gateway'', ''license_data'', ''credits.json'']))]
     new_parser"

definition write_credits ::
  "generator_env \<Rightarrow> string \<Rightarrow> pyval \<Rightarrow> (string \<times> document) list \<Rightarrow> (string \<times> document) list \<times> unit result" where
  "write_credits env output credits files =
     (case gn_mkdir env (parent_dir (gn_platform env) output) of
        Inl e \<Rightarrow> (files, Inl e)
      | Inr _ \<Rightarrow>
          (case gn_write env output of
             Some (e, kept) \<Rightarrow>
               (case kept of None \<Rightarrow> files | Some t \<Rightarrow> AList.update output (Text_Left t) files, Inl e)
           | None \<Rightarrow> (AList.update output (Json_Document credits) files, Inr ())))"

definition path_argument :: "namespace \<Rightarrow> string \<Rightarrow> string" where
  "path_argument ns d = (case arg_text ns d of None \<Rightarrow> [] | Some p \<Rightarrow> p)"

text \<open>\<open>None\<close>: the closure loop does not end.\<close>

definition credits_main ::
  "generator_env \<Rightarrow> string list \<Rightarrow> (string \<times> document) list \<Rightarrow> ((string \<times> document) list \<times> ending) option" where
  "credits_main env argv files =
     (case parse_args (credits_parser env) argv of
        Inl code \<Rightarrow> Some (files, Exited code)
      | Inr ns \<Rightarrow>
          (case generate_credits (gn_packages env) (gn_shown env) (gn_read_toml env (path_argument ns ''pyproject''))
               (gn_read_text env (path_argument ns ''notices'')) of
             None \<Rightarrow> None
           | Some (Inl e) \<Rightarrow> Some (files, Failed e)
           | Some (Inr credits) \<Rightarrow>
               (case write_credits env (path_argument ns ''output'') credits files of
                  (files', Inl e) \<Rightarrow> Some (files', Failed e)
                | (files', Inr _) \<Rightarrow> Some (files', Returned 0))))"

section \<open>A run of the generator\<close>

lemma credits_main_done:
  assumes "credits_main env argv files = Some (files', Returned 0)"
  obtains ns v where "parse_args (credits_parser env) argv = Inr ns"
    "generate_credits (gn_packages env) (gn_shown env) (gn_read_toml env (path_argument ns ''pyproject''))
       (gn_read_text env (path_argument ns ''notices'')) = Some (Inr v)"
    "files' = AList.update (path_argument ns ''output'') (Json_Document v) files"
  using assms
  by (auto simp: credits_main_def write_credits_def split: sum.splits option.splits prod.splits)

lemma licenses_command:
  assumes "load_license_report (mn_str menv) (mn_environ menv) (mn_credits menv) = Inr rep"
  shows "gateway_main menv [''licenses''] h = (h, [Print_Json (with_sorted_keys (license_report_dict rep))], Returned 0)"
  using assms by (simp add: gateway_main_def)

text \<open>One credit for each needed distribution, in order, as its notice says, installed and licensed.\<close>

definition reports_needed ::
  "package_env \<Rightarrow> string set \<Rightarrow> (string \<times> notice_entry) list \<Rightarrow> license_report \<Rightarrow> bool" where
  "reports_needed env direct notices rep \<longleftrightarrow>
     list_all2 (\<lambda>n c. (\<exists>e. map_of notices n = Some e \<and> c = credit_of_notice e) \<and>
         (\<exists>d. pk_distribution env n = Inr d \<and> dc_version c = ds_version d) \<and> py_strip (dc_license c) \<noteq> [])
       (sorted_list_of_set {n. needed env direct n}) (lr_dependencies rep)"

text \<open>
  C19: when the generator ends well, it has written one file, the one that the arguments name,
  and \<^verbatim>\<open>plc-gateway licenses\<close> prints from it a report that lists exactly the distributions
  that the dependencies of the project file lead to, in order, each as its notice says,
  in the installed version and with a license.
\<close>

theorem generator_feeds_licenses:
  assumes "credits_main env argv files = Some (files', Returned 0)"
  shows "\<exists>ns v direct notices. parse_args (credits_parser env) argv = Inr ns \<and>
    files' = AList.update (path_argument ns ''output'') (Json_Document v) files \<and>
    read_direct_runtime_dependencies (gn_shown env) (gn_read_toml env (path_argument ns ''pyproject'')) = Inr direct \<and>
    rbind (gn_read_text env (path_argument ns ''notices'')) parse_runtime_notices = Inr notices \<and>
    finite {n. needed (gn_packages env) (set direct) n} \<and>
    (\<forall>menv h. mn_credits menv = Inr v \<longrightarrow>
      (\<exists>rep. gateway_main menv [''licenses''] h =
          (h, [Print_Json (with_sorted_keys (license_report_dict rep))], Returned 0) \<and>
        reports_needed (gn_packages env) (set direct) notices rep))"
proof -
  obtain ns v where run: "parse_args (credits_parser env) argv = Inr ns"
    "generate_credits (gn_packages env) (gn_shown env) (gn_read_toml env (path_argument ns ''pyproject''))
       (gn_read_text env (path_argument ns ''notices'')) = Some (Inr v)"
    "files' = AList.update (path_argument ns ''output'') (Json_Document v) files"
    using credits_main_done [OF assms] .
  note report = generated_report_complete [OF run(2), folded reports_needed_def]
  obtain direct notices where sources:
    "read_direct_runtime_dependencies (gn_shown env) (gn_read_toml env (path_argument ns ''pyproject'')) = Inr direct"
    "rbind (gn_read_text env (path_argument ns ''notices'')) parse_runtime_notices = Inr notices"
    "finite {n. needed (gn_packages env) (set direct) n}"
    using report by blast
  have "\<exists>rep. gateway_main menv [''licenses''] h =
        (h, [Print_Json (with_sorted_keys (license_report_dict rep))], Returned 0) \<and>
      reports_needed (gn_packages env) (set direct) notices rep" if "mn_credits menv = Inr v" for menv h
    using report [of "mn_str menv" "mn_environ menv"] sources(1,2) that
    by (auto simp: licenses_command simp del: rbind_Inr_iff)
  then show ?thesis using run(1,3) sources by blast
qed

text \<open>Any other ending leaves the files alone, unless the write of the output failed half way.\<close>

lemma generator_failure_changes_nothing:
  assumes "credits_main env argv files = Some (files', out)" "out \<noteq> Returned 0"
  shows "files' = files \<or> (\<exists>p e t. gn_write env p = Some (e, Some t) \<and> out = Failed e \<and>
    files' = AList.update p (Text_Left t) files)"
  using assms
  by (auto simp: credits_main_def write_credits_def split: sum.splits option.splits prod.splits if_splits)

section \<open>A witness\<close>

definition ex_generator :: generator_env where
  "ex_generator =
     \<lparr>gn_platform = ex_platform, gn_root = ''/repo'',
      gn_read_toml = (\<lambda>p. if p = ''/repo/pyproject.toml'' then Inr ex_pyproject else Inl (not_found_error p)),
      gn_read_text = (\<lambda>p. if p = ''n.md'' then Inr ex_notices_text else Inl (not_found_error p)),
      gn_packages = ex_packages, gn_shown = (\<lambda>v. []), gn_mkdir = (\<lambda>p. Inr ()), gn_write = (\<lambda>p. None)\<rparr>"

definition ex_credits_path :: string where
  "ex_credits_path = ''/repo/src/plc_gateway/license_data/credits.json''"

theorem generator_feeds_licenses_witness:
  "\<exists>v rep. credits_main ex_generator [''--not=n.md''] [] = Some ([(ex_credits_path, Json_Document v)], Returned 0) \<and>
     gateway_main (ex_main_env\<lparr>mn_credits := Inr v\<rparr>) [''licenses''] ex_host =
       (ex_host, [Print_Json (with_sorted_keys (license_report_dict rep))], Returned 0) \<and>
     length (lr_dependencies rep) = 2"
proof -
  have ns: "case parse_args (credits_parser ex_generator) [''--not=n.md''] of Inl c \<Rightarrow> False | Inr ns \<Rightarrow>
      path_argument ns ''notices'' = ''n.md'' \<and> path_argument ns ''pyproject'' = ''/repo/pyproject.toml'' \<and>
      path_argument ns ''output'' = ex_credits_path" by code_simp
  obtain v0 where "generate_credits ex_packages (\<lambda>v. []) (Inr ex_pyproject) (Inr ex_notices_text) = Some (Inr v0)"
    using ex_generated by blast
  then have run: "credits_main ex_generator [''--not=n.md''] [] = Some ([(ex_credits_path, Json_Document v0)], Returned 0)"
    using ns by (auto simp: credits_main_def ex_generator_def write_credits_def split: sum.splits)
  have direct: "read_direct_runtime_dependencies (\<lambda>v. []) (Inr ex_pyproject) = Inr [''web-kit'']" by code_simp
  have all: "{n. needed ex_packages (set [''web-kit'']) n} = {''web-kit'', ''h-11''}"
  proof -
    have web: "needed ex_packages (set [''web-kit'']) ''web-kit''" by (rule needed_direct) simp
    have "normalize_name ''H.11'' = ''h-11''" by code_simp
    then have "depends_on ex_packages ''web-kit'' ''h-11''"
      by (auto simp: depends_on_def ex_packages_def requires_of_def skip_requirement_def)
    from needed_by [OF web this] web show ?thesis using ex_needed by blast
  qed
  from generator_feeds_licenses [OF run] obtain ns' v d notices where facts:
    "parse_args (credits_parser ex_generator) [''--not=n.md''] = Inr ns'"
    "[(ex_credits_path, Json_Document v0)] = AList.update (path_argument ns' ''output'') (Json_Document v) []"
    "read_direct_runtime_dependencies (gn_shown ex_generator) (gn_read_toml ex_generator (path_argument ns' ''pyproject'')) = Inr d"
    "\<forall>menv h. mn_credits menv = Inr v \<longrightarrow>
      (\<exists>rep. gateway_main menv [''licenses''] h =
          (h, [Print_Json (with_sorted_keys (license_report_dict rep))], Returned 0) \<and>
        reports_needed (gn_packages ex_generator) (set d) notices rep)"
    by (elim exE conjE)
  then have "d = [''web-kit'']" "v = v0" using ns direct by (auto simp: ex_generator_def)
  then obtain rep where "gateway_main (ex_main_env\<lparr>mn_credits := Inr v0\<rparr>) [''licenses''] ex_host =
      (ex_host, [Print_Json (with_sorted_keys (license_report_dict rep))], Returned 0)"
    "length (lr_dependencies rep) = length (sorted_list_of_set {n. needed ex_packages (set [''web-kit'']) n})"
    using facts(4) [rule_format, of "ex_main_env\<lparr>mn_credits := Inr v0\<rparr>" ex_host]
    by (auto simp: ex_generator_def reports_needed_def dest!: list_all2_lengthD)
  then show ?thesis using run unfolding all by auto
qed

end
