(* ===== verification/Schema_Setup.thy ===== *)
theory Schema_Setup
  imports Repositories
begin

text \<open>
  src/plc_gateway/persistence/database.py, the metadata of persistence/schema.py and the
  migrations (src/migrations/env.py and versions/0001_create_initial_schema.py): the engine whose
  connections enforce foreign keys, the creation of the tables at start, and the upgrade and
  downgrade of a database file. A database file has a catalog of tables, their rows and the
  revision that Alembic stores (its own table of versions is not in the catalog). Of SQLAlchemy the model has that create_all makes the missing
  tables of the metadata in dependency order and drop_all removes the existing ones in reverse; of
  SQLite that dropping a table deletes its rows and, while foreign keys are enforced, fails if
  rows refer to them; of Alembic which revisions a command runs and that a script without
  a database is written statement by statement.

  A repository call runs on a connection of the engine: SQLite checks the foreign keys that the metadata declares
  if that connection enforces them.

  Shown: connections of the engine enforce foreign keys; in any history of set-ups, migrations and
  repository calls the tables are all there or none is and what they hold is consistent; setting up
  and upgrading keep every row; the downgrade of an upgraded file never fails and leaves a new one.
\<close>

section \<open>Metadata\<close>

datatype column_type =
    CT_String nat | CT_Boolean | CT_Integer | CT_Float | CT_Json | CT_Binary | CT_Utc_Datetime | CT_Referenced

record table_column =
  co_name :: string
  co_type :: column_type
  co_primary_key :: bool
  co_nullable :: bool
  co_references :: "(string \<times> string) option"

text \<open>Check constraints are lower bounds of integer columns: the name, the column, the least value.\<close>

record table_schema =
  tb_name :: string
  tb_columns :: "table_column list"
  tb_checks :: "(string \<times> string \<times> int) list"
  tb_unique :: "(string \<times> string) list"

definition key_column :: "string \<Rightarrow> nat \<Rightarrow> table_column" where
  "key_column n width =
     \<lparr>co_name = n, co_type = CT_String width, co_primary_key = True, co_nullable = False, co_references = None\<rparr>"

definition plain_column :: "string \<Rightarrow> column_type \<Rightarrow> bool \<Rightarrow> table_column" where
  "plain_column n t nullable =
     \<lparr>co_name = n, co_type = t, co_primary_key = False, co_nullable = nullable, co_references = None\<rparr>"

definition foreign_key :: "string \<Rightarrow> string \<Rightarrow> table_column" where
  "foreign_key n target =
     \<lparr>co_name = n, co_type = CT_Referenced, co_primary_key = False, co_nullable = False,
      co_references = Some (target, ''id'')\<rparr>"

definition connections_table :: table_schema where
  "connections_table = \<lparr>tb_name = ''connections'',
     tb_columns = [key_column ''id'' 128, plain_column ''protocol'' (CT_String 64) False,
       plain_column ''endpoint'' (CT_String 1024) False, plain_column ''enabled'' CT_Boolean False,
       plain_column ''timeout_ms'' CT_Integer False, plain_column ''protocol_options'' CT_Json False],
     tb_checks = [(''ck_connections_timeout_positive'', ''timeout_ms'', 1)], tb_unique = []\<rparr>"

definition tag_groups_table :: table_schema where
  "tag_groups_table = \<lparr>tb_name = ''tag_groups'',
     tb_columns = [key_column ''id'' 128, foreign_key ''connection_id'' ''connections'',
       plain_column ''interval_ms'' CT_Integer False, plain_column ''timeout_ms'' CT_Integer False,
       plain_column ''overlap_policy'' (CT_String 32) False, plain_column ''enabled'' CT_Boolean False],
     tb_checks = [(''ck_tag_groups_interval_positive'', ''interval_ms'', 1),
       (''ck_tag_groups_timeout_positive'', ''timeout_ms'', 1)], tb_unique = []\<rparr>"

definition tags_table :: table_schema where
  "tags_table = \<lparr>tb_name = ''tags'',
     tb_columns = [key_column ''id'' 128, foreign_key ''tag_group_id'' ''tag_groups'',
       plain_column ''name'' (CT_String 256) False, plain_column ''address'' (CT_String 1024) False,
       plain_column ''value_type'' (CT_String 32) True, plain_column ''enabled'' CT_Boolean False,
       plain_column ''metadata_json'' CT_Json False],
     tb_checks = [], tb_unique = []\<rparr>"

definition poll_executions_table :: table_schema where
  "poll_executions_table = \<lparr>tb_name = ''poll_executions'',
     tb_columns = [key_column ''execution_id'' 64, foreign_key ''connection_id'' ''connections'',
       foreign_key ''tag_group_id'' ''tag_groups'', plain_column ''status'' (CT_String 32) False,
       plain_column ''started_at'' CT_Utc_Datetime False, plain_column ''finished_at'' CT_Utc_Datetime True,
       plain_column ''requested_tags'' CT_Integer False, plain_column ''successful_tags'' CT_Integer False,
       plain_column ''failed_tags'' CT_Integer False, plain_column ''error_message'' (CT_String 2048) True],
     tb_checks = [(''ck_poll_requested_non_negative'', ''requested_tags'', 0),
       (''ck_poll_success_non_negative'', ''successful_tags'', 0),
       (''ck_poll_failed_non_negative'', ''failed_tags'', 0)], tb_unique = []\<rparr>"

definition tag_readings_table :: table_schema where
  "tag_readings_table = \<lparr>tb_name = ''tag_readings'',
     tb_columns = [key_column ''event_id'' 64, foreign_key ''connection_id'' ''connections'',
       foreign_key ''tag_group_id'' ''tag_groups'', foreign_key ''tag_id'' ''tags'',
       plain_column ''source_timestamp'' CT_Utc_Datetime True, plain_column ''received_at'' CT_Utc_Datetime False,
       plain_column ''quality'' (CT_String 32) False, plain_column ''value_type'' (CT_String 32) False,
       plain_column ''numeric_value'' CT_Float True, plain_column ''integer_value'' CT_Integer True,
       plain_column ''boolean_value'' CT_Boolean True, plain_column ''text_value'' (CT_String 4096) True,
       plain_column ''binary_value'' CT_Binary True, plain_column ''error_code'' (CT_String 128) True,
       plain_column ''error_message'' (CT_String 2048) True],
     tb_checks = [], tb_unique = [(''uq_tag_readings_event_id'', ''event_id'')]\<rparr>"

definition runtime_components_table :: table_schema where
  "runtime_components_table = \<lparr>tb_name = ''runtime_components'',
     tb_columns = [key_column ''component_id'' 256, plain_column ''state'' (CT_String 32) False,
       plain_column ''updated_at'' CT_Utc_Datetime False, plain_column ''message'' (CT_String 1024) True,
       plain_column ''error_code'' (CT_String 128) True, plain_column ''error_message'' (CT_String 2048) True],
     tb_checks = [], tb_unique = []\<rparr>"

definition metadata :: "table_schema list" where
  "metadata = [connections_table, tag_groups_table, tags_table, poll_executions_table, tag_readings_table,
     runtime_components_table]"

text \<open>The tables that a table refers to.\<close>

definition referenced_tables :: "table_schema \<Rightarrow> string list" where
  "referenced_tables t = concat (map (\<lambda>c. case co_references c of None \<Rightarrow> [] | Some (target, k) \<Rightarrow> [target]) (tb_columns t))"

text \<open>Every table comes after those it refers to.\<close>

fun dependency_ordered :: "string list \<Rightarrow> table_schema list \<Rightarrow> bool" where
  "dependency_ordered seen [] = True"
| "dependency_ordered seen (t # ts) =
     (list_all (\<lambda>n. n \<in> set seen) (referenced_tables t) \<and> tb_name t \<notin> set seen \<and> dependency_ordered (tb_name t # seen) ts)"

lemma metadata_ordered: "dependency_ordered [] metadata"
  by code_simp

section \<open>Engine\<close>

text \<open>An engine has the listeners that run for each new connection.\<close>

datatype listener = Enable_Foreign_Keys

record engine =
  en_url :: string
  en_listeners :: "listener list"

record dbapi_connection =
  dc_foreign_keys :: bool
  dc_open_cursors :: nat

definition default_url :: string where
  "default_url = ''sqlite:///plc_gateway.db''"

definition create_sqlite_engine :: "string option \<Rightarrow> engine" where
  "create_sqlite_engine url =
     \<lparr>en_url = (case url of None \<Rightarrow> default_url | Some u \<Rightarrow> u), en_listeners = [Enable_Foreign_Keys]\<rparr>"

text \<open>
  The listener: a cursor, one statement, and the cursor is closed in any case. Executing a
  statement is an operation of the DB-API connection.
\<close>

type_synonym execute_statement = "string \<Rightarrow> dbapi_connection \<Rightarrow> dbapi_connection result"

definition enable_sqlite_foreign_keys ::
  "execute_statement \<Rightarrow> dbapi_connection \<Rightarrow> dbapi_connection \<times> unit result" where
  "enable_sqlite_foreign_keys execute c =
     (let opened = c\<lparr>dc_open_cursors := Suc (dc_open_cursors c)\<rparr>;
          closed = (\<lambda>d. d\<lparr>dc_open_cursors := dc_open_cursors d - 1\<rparr>)
      in case execute ''PRAGMA foreign_keys=ON'' opened of
           Inl e \<Rightarrow> (closed opened, Inl e)
         | Inr done \<Rightarrow> (closed done, Inr ()))"

text \<open>SQLite opens a connection without enforcement; then the listeners run.\<close>

definition open_connection :: "execute_statement \<Rightarrow> engine \<Rightarrow> dbapi_connection result" where
  "open_connection execute en =
     (let fresh = \<lparr>dc_foreign_keys = False, dc_open_cursors = 0\<rparr>
      in fold (\<lambda>_ r. rbind r (\<lambda>c. case enable_sqlite_foreign_keys execute c of (d, Inl e) \<Rightarrow> Inl e | (d, Inr _) \<Rightarrow> Inr d))
           (en_listeners en) (Inr fresh))"

text \<open>SQLite's own behaviour on the statement.\<close>

definition sqlite_pragma :: execute_statement where
  "sqlite_pragma s c = (if s = ''PRAGMA foreign_keys=ON'' then Inr (c\<lparr>dc_foreign_keys := True\<rparr>) else Inr c)"

section \<open>Database files\<close>

record db_file =
  df_tables :: "string list"
  df_rows :: database
  df_revision :: "string option"

text \<open>The rows of a file are stored: which foreign keys are enforced is up to each connection.\<close>

definition stored :: "database \<Rightarrow> database" where
  "stored db = db\<lparr>db_foreign_keys := []\<rparr>"

definition new_file :: db_file where
  "new_file = \<lparr>df_tables = [], df_rows = stored empty_database, df_revision = None\<rparr>"

definition operational_error :: "string \<Rightarrow> 'a result" where
  "operational_error m = Inl (exn (OtherError ''OperationalError'') m)"

text \<open>The references of the rows of a table, and the table without rows, by name.\<close>

definition references_of :: "string \<Rightarrow> database \<Rightarrow> (string \<times> string) list" where
  "references_of n db =
     (if n = ''tag_groups'' then map (\<lambda>(k, g). (''connections'', gr_connection_id g)) (db_tag_groups db)
      else if n = ''tags'' then map (\<lambda>(k, t). (''tag_groups'', gt_tag_group_id t)) (db_tags db)
      else if n = ''poll_executions'' then
        concat (map (\<lambda>(k, x). [(''connections'', er_connection_id x), (''tag_groups'', er_tag_group_id x)]) (db_executions db))
      else if n = ''tag_readings'' then
        concat (map (\<lambda>(k, r). [(''connections'', dr_connection_id r), (''tag_groups'', dr_tag_group_id r),
          (''tags'', dr_tag_id r)]) (db_readings db))
      else [])"

definition without_rows :: "string \<Rightarrow> database \<Rightarrow> database" where
  "without_rows n db =
     (if n = ''connections'' then db\<lparr>db_connections := []\<rparr>
      else if n = ''tag_groups'' then db\<lparr>db_tag_groups := []\<rparr>
      else if n = ''tags'' then db\<lparr>db_tags := []\<rparr>
      else if n = ''poll_executions'' then db\<lparr>db_executions := []\<rparr>
      else if n = ''tag_readings'' then db\<lparr>db_readings := []\<rparr>
      else if n = ''runtime_components'' then db\<lparr>db_components := []\<rparr>
      else db)"

definition create_table :: "table_schema \<Rightarrow> db_file \<Rightarrow> db_file result" where
  "create_table t f =
     (if tb_name t \<in> set (df_tables f) then operational_error (''table '' @ tb_name t @ '' already exists'')
      else Inr (f\<lparr>df_tables := df_tables f @ [tb_name t]\<rparr>))"

text \<open>Rows of other tables that refer to rows of this one.\<close>

definition still_referenced :: "string \<Rightarrow> db_file \<Rightarrow> bool" where
  "still_referenced n f =
     list_ex (\<lambda>m. m \<noteq> n \<and> list_ex (\<lambda>(target, k). target = n \<and> k \<in> set (keys_of n (df_rows f))) (references_of m (df_rows f)))
       (df_tables f)"

definition drop_table :: "bool \<Rightarrow> string \<Rightarrow> db_file \<Rightarrow> db_file result" where
  "drop_table enforced n f =
     (if n \<notin> set (df_tables f) then operational_error (''no such table: '' @ n)
      else if enforced \<and> still_referenced n f then foreign_key_failed
      else Inr (f\<lparr>df_tables := removeAll n (df_tables f), df_rows := without_rows n (df_rows f)\<rparr>))"

section \<open>Statements and binds\<close>

text \<open>
  What is emitted on a bind. A connection of a migration or a set-up is asked which tables
  exist; a script has no database, so \<^verbatim>\<open>create_all\<close> and \<^verbatim>\<open>drop_all\<close> write every statement.
\<close>

datatype ddl = Create_Table table_schema | Drop_Table string | Set_Revision "string option"

datatype bind = Connected dbapi_connection | Script

definition create_all :: "bind \<Rightarrow> string list \<Rightarrow> ddl list" where
  "create_all b existing = map Create_Table
     (case b of Connected c \<Rightarrow> filter (\<lambda>t. tb_name t \<notin> set existing) metadata | Script \<Rightarrow> metadata)"

definition drop_all :: "bind \<Rightarrow> string list \<Rightarrow> ddl list" where
  "drop_all b existing = map Drop_Table
     (case b of Connected c \<Rightarrow> filter (\<lambda>n. n \<in> set existing) (rev (map tb_name metadata))
      | Script \<Rightarrow> rev (map tb_name metadata))"

fun execute_ddl :: "dbapi_connection \<Rightarrow> ddl \<Rightarrow> db_file \<Rightarrow> db_file result" where
  "execute_ddl c (Create_Table t) f = create_table t f"
| "execute_ddl c (Drop_Table n) f = drop_table (dc_foreign_keys c) n f"
| "execute_ddl c (Set_Revision r) f = Inr (f\<lparr>df_revision := r\<rparr>)"

text \<open>Statements one after the other; those before an error keep their effect.\<close>

fun run_ddl :: "dbapi_connection \<Rightarrow> ddl list \<Rightarrow> db_file \<Rightarrow> db_file \<times> unit result" where
  "run_ddl c [] f = (f, Inr ())"
| "run_ddl c (x # xs) f = (case execute_ddl c x f of Inl e \<Rightarrow> (f, Inl e) | Inr g \<Rightarrow> run_ddl c xs g)"

definition initialize_schema :: "execute_statement \<Rightarrow> engine \<Rightarrow> db_file \<Rightarrow> db_file \<times> unit result" where
  "initialize_schema execute en f =
     (case open_connection execute en of
        Inl e \<Rightarrow> (f, Inl e)
      | Inr c \<Rightarrow> run_ddl c (create_all (Connected c) (df_tables f)) f)"

section \<open>Migrations\<close>

definition revision :: string where "revision = ''0001''"

definition down_revision :: "string option" where "down_revision = None"

text \<open>The two steps of the revision, on the bind of the migration (\<^verbatim>\<open>op.get_bind()\<close>).\<close>

definition upgrade :: "bind \<Rightarrow> string list \<Rightarrow> ddl list" where
  "upgrade b existing = create_all b existing"

definition downgrade :: "bind \<Rightarrow> string list \<Rightarrow> ddl list" where
  "downgrade b existing = drop_all b existing"

text \<open>
  What \<^verbatim>\<open>context.run_migrations()\<close> emits for the commands \<^verbatim>\<open>upgrade head\<close> and \<^verbatim>\<open>downgrade base\<close>
  with this one revision: the step that is missing, and then the new revision is stored.
\<close>

datatype migration = Upgrade_Head | Downgrade_Base

definition run_migrations :: "migration \<Rightarrow> bind \<Rightarrow> string option \<Rightarrow> string list \<Rightarrow> ddl list" where
  "run_migrations m b current existing =
     (case m of
        Upgrade_Head \<Rightarrow> if current = Some revision then [] else upgrade b existing @ [Set_Revision (Some revision)]
      | Downgrade_Base \<Rightarrow>
          if current \<noteq> Some revision then [] else downgrade b existing @ [Set_Revision down_revision])"

text \<open>env.py makes its own engine from the options of alembic.ini, without the listener.\<close>

definition run_migrations_online ::
  "execute_statement \<Rightarrow> string \<Rightarrow> migration \<Rightarrow> db_file \<Rightarrow> db_file \<times> unit result" where
  "run_migrations_online execute url m f =
     (case open_connection execute \<lparr>en_url = url, en_listeners = []\<rparr> of
        Inl e \<Rightarrow> (f, Inl e)
      | Inr c \<Rightarrow> run_ddl c (run_migrations m (Connected c) (df_revision f) (df_tables f)) f)"

text \<open>The script for an upgrade starts from no revision, the one for a downgrade from the only one.\<close>

definition run_migrations_offline :: "migration \<Rightarrow> ddl list" where
  "run_migrations_offline m =
     run_migrations m Script (case m of Upgrade_Head \<Rightarrow> None | Downgrade_Base \<Rightarrow> Some revision) []"

section \<open>Calls\<close>

text \<open>
  A repository call opens a connection of its engine. SQLite checks a foreign key that the schema
  of the file declares, and only on a connection that enforces foreign keys. Without the
  tables, and without a primary key for each ON CONFLICT clause, the statements fail.
\<close>

definition declared_keys :: "table_schema list \<Rightarrow> (string \<times> string \<times> string) list" where
  "declared_keys ts = concat (map (\<lambda>t. concat (map (\<lambda>c. case co_references c of
     None \<Rightarrow> [] | Some (target, k) \<Rightarrow> [(tb_name t, co_name c, target)]) (tb_columns t))) ts)"

definition conflict_targets :: "(string \<times> string) list" where
  "conflict_targets = [(''connections'', ''id''), (''tag_groups'', ''id''), (''tags'', ''id''),
     (''poll_executions'', ''execution_id''), (''tag_readings'', ''event_id''), (''runtime_components'', ''component_id'')]"

definition primary_keys :: "table_schema list \<Rightarrow> (string \<times> string) list" where
  "primary_keys ts = concat (map (\<lambda>t. map (\<lambda>c. (tb_name t, co_name c)) (filter co_primary_key (tb_columns t))) ts)"

definition call_repository :: "execute_statement \<Rightarrow> engine \<Rightarrow> gateway_call \<Rightarrow> db_file \<Rightarrow> db_file" where
  "call_repository execute en c f =
     (case open_connection execute en of
        Inl e \<Rightarrow> f
      | Inr conn \<Rightarrow>
          (let tables = filter (\<lambda>t. tb_name t \<in> set (df_tables f)) metadata;
               enforced = (if dc_foreign_keys conn then declared_keys tables else [])
           in if set conflict_targets \<subseteq> set (primary_keys tables)
              then f\<lparr>df_rows := stored (repository_step c ((df_rows f)\<lparr>db_foreign_keys := enforced\<rparr>))\<rparr>
              else f))"

section \<open>Histories\<close>

text \<open>The gateway sets up and calls with engines of \<open>create_sqlite_engine\<close>.\<close>

datatype file_event = FE_Initialize | FE_Migrate migration | FE_Call gateway_call

fun file_step :: "file_event \<Rightarrow> db_file \<Rightarrow> db_file" where
  "file_step FE_Initialize f = fst (initialize_schema sqlite_pragma (create_sqlite_engine None) f)"
| "file_step (FE_Migrate m) f = fst (run_migrations_online sqlite_pragma default_url m f)"
| "file_step (FE_Call c) f = call_repository sqlite_pragma (create_sqlite_engine None) c f"

section \<open>Connections\<close>

text \<open>The documented behaviour of the statement: enforcement is on afterwards, and the cursor stays open.\<close>

definition pragma_works :: "execute_statement \<Rightarrow> bool" where
  "pragma_works execute \<longleftrightarrow> (\<forall>c d. execute ''PRAGMA foreign_keys=ON'' c = Inr d \<longrightarrow>
     dc_foreign_keys d \<and> dc_open_cursors d = dc_open_cursors c)"

lemma sqlite_pragma_works: "pragma_works sqlite_pragma"
  by (simp add: pragma_works_def sqlite_pragma_def)

text \<open>
  Every connection that the engine of the gateway opens enforces foreign keys and has no
  cursor left open; if the statement fails, the connection is refused with its error and
  the cursor is closed all the same. An engine without the listener, as in env.py, does not enforce them.
\<close>

lemma engine_enforces_foreign_keys:
  assumes "pragma_works execute"
  shows "(case open_connection execute (create_sqlite_engine url) of
      Inr c \<Rightarrow> dc_foreign_keys c \<and> dc_open_cursors c = 0
    | Inl e \<Rightarrow> \<exists>c. execute ''PRAGMA foreign_keys=ON'' c = Inl e \<and>
        enable_sqlite_foreign_keys execute (c\<lparr>dc_open_cursors := 0\<rparr>) = (c\<lparr>dc_open_cursors := 0\<rparr>, Inl e)) \<and>
    open_connection execute \<lparr>en_url = u, en_listeners = []\<rparr> = Inr \<lparr>dc_foreign_keys = False, dc_open_cursors = 0\<rparr>"
proof -
  let ?c = "\<lparr>dc_foreign_keys = False, dc_open_cursors = Suc 0\<rparr>"
  show ?thesis
  proof (cases "execute ''PRAGMA foreign_keys=ON'' ?c")
    case (Inl e)
    then show ?thesis
      by (auto simp: open_connection_def create_sqlite_engine_def enable_sqlite_foreign_keys_def intro!: exI [of _ ?c])
  next
    case (Inr c)
    then have "dc_foreign_keys c" "dc_open_cursors c = Suc 0" using assms by (auto simp: pragma_works_def)
    then show ?thesis using Inr
      by (simp add: open_connection_def create_sqlite_engine_def enable_sqlite_foreign_keys_def)
  qed
qed

section \<open>Histories of a file\<close>

lemma open_sqlite [simp]:
  "open_connection sqlite_pragma (create_sqlite_engine url) = Inr \<lparr>dc_foreign_keys = True, dc_open_cursors = 0\<rparr>"
  "open_connection sqlite_pragma \<lparr>en_url = u, en_listeners = []\<rparr> = Inr \<lparr>dc_foreign_keys = False, dc_open_cursors = 0\<rparr>"
  by (simp_all add: open_connection_def create_sqlite_engine_def enable_sqlite_foreign_keys_def sqlite_pragma_def)

abbreviation table_names :: "string list" where
  "table_names \<equiv> map tb_name metadata"

lemma table_names_eq: "table_names =
  [''connections'', ''tag_groups'', ''tags'', ''poll_executions'', ''tag_readings'', ''runtime_components'']"
  by code_simp

lemma metadata_new: "filter (\<lambda>t. tb_name t \<notin> set table_names) metadata = []"
  by (auto simp: filter_empty_conv)

text \<open>Creating every table of an empty catalog, and none when all are there.\<close>

lemma run_creates:
  assumes "distinct (map tb_name ts)" "set (map tb_name ts) \<inter> set (df_tables f) = {}"
  shows "run_ddl c (map Create_Table ts @ xs) f = run_ddl c xs (f\<lparr>df_tables := df_tables f @ map tb_name ts\<rparr>)"
  using assms by (induction ts arbitrary: f) (auto simp: create_table_def)

lemma distinct_names: "distinct table_names"
  unfolding table_names_eq by simp

lemma create_all_fresh:
  assumes "df_tables f = []"
  shows "run_ddl c (create_all (Connected d) (df_tables f) @ xs) f = run_ddl c xs (f\<lparr>df_tables := table_names\<rparr>)"
  using run_creates [OF distinct_names, of f c xs] assms by (simp add: create_all_def)

lemma create_all_again:
  assumes "df_tables f = table_names"
  shows "create_all (Connected d) (df_tables f) = []"
  using metadata_new by (simp add: create_all_def assms)

lemma create_all_script:
  assumes "df_tables f = []"
  shows "run_ddl c (create_all Script existing @ xs) f = run_ddl c xs (f\<lparr>df_tables := table_names\<rparr>)"
  using run_creates [OF distinct_names, of f c xs] assms by (simp add: create_all_def)

text \<open>Rows refer only to tables that the metadata names for theirs.\<close>

definition reference_pairs :: "(string \<times> string) list" where
  "reference_pairs = concat (map (\<lambda>t. map (Pair (tb_name t)) (referenced_tables t)) metadata)"

lemma reference_pairs_eq: "reference_pairs =
  [(''tag_groups'', ''connections''), (''tags'', ''tag_groups''), (''poll_executions'', ''connections''),
   (''poll_executions'', ''tag_groups''), (''tag_readings'', ''connections''), (''tag_readings'', ''tag_groups''),
   (''tag_readings'', ''tags'')]"
  by code_simp

lemma references_targets: "(target, k) \<in> set (references_of n db) \<Longrightarrow> (n, target) \<in> set reference_pairs"
  by (auto simp: references_of_def reference_pairs_eq split: if_splits)

lemma drop_unreferenced:
  assumes "n \<in> set (df_tables f)" "list_all (\<lambda>m. (m, n) \<notin> set reference_pairs) (removeAll n (df_tables f))"
  shows "run_ddl c (Drop_Table n # xs) f =
    run_ddl c xs (f\<lparr>df_tables := removeAll n (df_tables f), df_rows := without_rows n (df_rows f)\<rparr>)"
proof -
  have "\<not> still_referenced n f" using assms(2) references_targets
    by (fastforce simp: still_referenced_def list_ex_iff list_all_iff)
  then show ?thesis using assms(1) by (simp add: drop_table_def)
qed

text \<open>So dropping in reverse order never meets a row that refers to the table.\<close>

lemma drop_all_full:
  assumes "df_tables f = table_names"
    and "db_foreign_keys (df_rows f) = []"
  shows "run_ddl c (map Drop_Table (rev table_names) @ xs) f =
    run_ddl c xs (f\<lparr>df_tables := [], df_rows := stored empty_database\<rparr>)"
  using assms unfolding table_names_eq
  by (cases "df_rows f") (simp add: drop_unreferenced reference_pairs_eq without_rows_def stored_def empty_database_def
      del: run_ddl.simps)

definition file_ok :: "db_file \<Rightarrow> bool" where
  "file_ok f \<longleftrightarrow> (df_tables f = [] \<and> df_rows f = stored empty_database \<and> df_revision f = None \<or>
       df_tables f = table_names) \<and>
     df_revision f \<in> {None, Some revision} \<and> db_ok (df_rows f) \<and> db_foreign_keys (df_rows f) = []"

lemma db_ok_keys [simp]: "db_ok (db\<lparr>db_foreign_keys := ks\<rparr>) = db_ok db"
  by (simp add: db_ok_def keys_unique_def references_resolve_def)

lemma stored_simps [simp]: "db_ok (stored db) = db_ok db" "db_foreign_keys (stored db) = []"
  by (simp_all add: stored_def)

lemma empty_database_ok: "db_ok empty_database"
  by (simp add: db_ok_def keys_unique_def references_resolve_def empty_database_def)

text \<open>What each command does to a consistent file, on any connection.\<close>

lemma run_create_all:
  assumes "file_ok f"
  shows "run_ddl c (create_all (Connected d) (df_tables f) @ xs) f = run_ddl c xs (f\<lparr>df_tables := table_names\<rparr>)"
proof (cases "df_tables f = table_names")
  case True
  then have "f\<lparr>df_tables := table_names\<rparr> = f" by (cases f) simp
  then show ?thesis using create_all_again [OF True] by simp
next
  case False
  then show ?thesis using assms create_all_fresh by (auto simp: file_ok_def)
qed

lemma run_drop_all:
  assumes "df_tables f = table_names" "db_foreign_keys (df_rows f) = []"
  shows "run_ddl c (drop_all (Connected d) (df_tables f) @ xs) f =
    run_ddl c xs (f\<lparr>df_tables := [], df_rows := stored empty_database\<rparr>)"
proof -
  have "drop_all (Connected d) (df_tables f) = map Drop_Table (rev table_names)"
    by (simp add: drop_all_def assms(1))
  then show ?thesis using drop_all_full [OF assms] by simp
qed

lemma initialize_file:
  "file_ok f \<Longrightarrow> initialize_schema sqlite_pragma (create_sqlite_engine url) f = (f\<lparr>df_tables := table_names\<rparr>, Inr ())"
  using run_create_all [where xs = "[]"] by (simp add: initialize_schema_def)

lemma upgrade_file:
  assumes "file_ok f"
  shows "run_migrations_online sqlite_pragma url Upgrade_Head f =
    (f\<lparr>df_tables := table_names, df_revision := Some revision\<rparr>, Inr ())"
proof (cases "df_revision f = Some revision")
  case True
  then have "df_tables f = table_names" using assms by (auto simp: file_ok_def)
  then show ?thesis using True by (cases f) (simp add: run_migrations_online_def run_migrations_def)
next
  case False
  then show ?thesis by (simp add: run_migrations_online_def run_migrations_def upgrade_def run_create_all [OF assms])
qed

lemma downgrade_file:
  assumes "file_ok f" "df_revision f = Some revision"
  shows "run_ddl c (run_migrations Downgrade_Base (Connected d) (df_revision f) (df_tables f)) f = (new_file, Inr ())"
proof -
  have "df_tables f = table_names" "db_foreign_keys (df_rows f) = []" using assms by (auto simp: file_ok_def)
  note drop = run_drop_all [OF this, of c d "[Set_Revision down_revision]"]
  show ?thesis unfolding run_migrations_def downgrade_def migration.case
    using drop assms(2) by (simp add: down_revision_def new_file_def)
qed

text \<open>
  The metadata declares the foreign keys that the invariant of the tables needs, and a primary key for
  every ON CONFLICT clause; so a call on an enforcing connection keeps the tables consistent.
\<close>

lemma declared_schema_keys: "declared_keys metadata = schema_foreign_keys"
  by code_simp

lemma conflict_targets_keyed: "set conflict_targets \<subseteq> set (primary_keys metadata)"
  by code_simp

lemma call_repository_ok:
  assumes "file_ok f"
  shows "file_ok (call_repository sqlite_pragma (create_sqlite_engine url) c f)"
proof (cases "df_tables f = table_names")
  case True
  then have tables: "filter (\<lambda>t. tb_name t \<in> set (df_tables f)) metadata = metadata" by (simp add: filter_id_conv)
  have "db_sound ((df_rows f)\<lparr>db_foreign_keys := declared_keys metadata\<rparr>)"
    using assms by (simp add: db_sound_def file_ok_def declared_schema_keys)
  then have "db_ok (repository_step c ((df_rows f)\<lparr>db_foreign_keys := declared_keys metadata\<rparr>))"
    using repository_step_ok db_sound_def by blast
  then show ?thesis using assms True conflict_targets_keyed
    by (simp add: call_repository_def tables Let_def file_ok_def)
next
  case False
  then have "filter (\<lambda>t. tb_name t \<in> set (df_tables f)) metadata = []" using assms by (auto simp: file_ok_def)
  then show ?thesis using assms by (simp add: call_repository_def Let_def primary_keys_def conflict_targets_def)
qed

lemma file_step_ok: "file_ok f \<Longrightarrow> file_ok (file_step e f)"
proof (induction e f rule: file_step.induct)
  case (1 f)
  then show ?case by (auto simp: initialize_file file_ok_def)
next
  case (2 m f)
  then show ?case
  proof (cases m)
    case Upgrade_Head
    then show ?thesis using 2 by (auto simp: upgrade_file file_ok_def)
  next
    case Downgrade_Base
    then show ?thesis using 2 downgrade_file [OF 2, of _ "\<lparr>dc_foreign_keys = False, dc_open_cursors = 0\<rparr>"]
      by (cases "df_revision f = Some revision")
        (auto simp: run_migrations_online_def run_migrations_def file_ok_def new_file_def empty_database_ok)
  qed
next
  case (3 c f)
  then show ?case by (simp add: call_repository_ok)
qed

lemma file_history_ok: "file_ok (fold file_step events new_file)"
proof -
  have "file_ok (fold file_step events f)" if "file_ok f" for f
    using that by (induction events arbitrary: f) (auto simp: file_step_ok)
  moreover have "file_ok new_file" by (simp add: file_ok_def new_file_def empty_database_ok)
  ultimately show ?thesis by blast
qed

text \<open>
  C14: whatever set-ups, migrations and repository calls a database file has seen, in any
  order, it has all tables of the metadata or is empty, its keys are unique, and every group,
  tag, execution and reading refers to rows that exist. Each call checks the references that the metadata
  declares, and only because the connections of the engine of \<open>create_sqlite_engine\<close> enforce them.
\<close>

theorem file_histories_consistent:
  "let f = fold file_step events new_file
   in (df_tables f = map tb_name metadata \<or> df_tables f = [] \<and> df_rows f = stored empty_database) \<and> db_ok (df_rows f)"
  using file_history_ok [of events] by (auto simp: file_ok_def Let_def)

text \<open>
  C15: on a file with any history, setting up the schema and upgrading succeed, provide every table
  and keep every row; doing it again changes nothing. Downgrading an upgraded file succeeds
  on a connection with and without enforcement, because tables are dropped before those they refer to,
  and leaves the new file. The upgrade script does to a new file what the upgrade does, and
  fails on a file that has been set up, with every table, row and revision as before.
\<close>

theorem set_up_and_migrate:
  "let f = fold file_step events new_file;
       ready = f\<lparr>df_tables := map tb_name metadata\<rparr>
   in initialize_schema sqlite_pragma (create_sqlite_engine url) f = (ready, Inr ()) \<and>
      run_migrations_online sqlite_pragma u Upgrade_Head f = (ready\<lparr>df_revision := Some revision\<rparr>, Inr ()) \<and>
      (df_revision f = Some revision \<longrightarrow>
        run_ddl c (run_migrations Downgrade_Base (Connected c) (df_revision f) (df_tables f)) f = (new_file, Inr ())) \<and>
      run_ddl c (run_migrations_offline Upgrade_Head) new_file = run_migrations_online sqlite_pragma u Upgrade_Head new_file \<and>
      (\<exists>e. run_ddl c (run_migrations_offline Upgrade_Head) ready = (ready, Inl e))"
proof -
  let ?f = "fold file_step events new_file"
  note ok = file_history_ok [of events]
  have script: "run_migrations_offline Upgrade_Head = create_all Script [] @ [Set_Revision (Some revision)]"
    by (simp add: run_migrations_offline_def run_migrations_def upgrade_def)
  have "run_ddl c (run_migrations_offline Upgrade_Head) new_file =
      run_migrations_online sqlite_pragma u Upgrade_Head new_file"
    unfolding script using upgrade_file [of new_file u] file_history_ok [of "[]"]
    by (simp add: create_all_script new_file_def)
  moreover have "\<exists>e. run_ddl c (run_migrations_offline Upgrade_Head) (?f\<lparr>df_tables := table_names\<rparr>) =
      (?f\<lparr>df_tables := table_names\<rparr>, Inl e)"
    unfolding script by (simp add: create_all_def create_table_def metadata_def operational_error_def)
  ultimately show ?thesis
    using initialize_file [OF ok] upgrade_file [OF ok] downgrade_file [OF ok] by (simp add: Let_def)
qed

section \<open>Witnesses\<close>

definition ex_history :: "file_event list" where
  "ex_history = [FE_Initialize, FE_Migrate Upgrade_Head, FE_Call (RC_Connections [ex_db_connection])]"

definition ex_file :: db_file where
  "ex_file = fold file_step ex_history new_file"

definition ex_enforcing :: dbapi_connection where
  "ex_enforcing = \<lparr>dc_foreign_keys = True, dc_open_cursors = 0\<rparr>"

theorem set_up_and_migrate_witness:
  "map fst (db_connections (df_rows ex_file)) = [cc_id ex_db_connection] \<and>
   run_ddl ex_enforcing (run_migrations Downgrade_Base (Connected ex_enforcing) (df_revision ex_file) (df_tables ex_file)) ex_file =
     (new_file, Inr ())"
proof -
  have "df_revision ex_file = Some revision" "map fst (db_connections (df_rows ex_file)) = [cc_id ex_db_connection]"
    by code_simp+
  then show ?thesis using set_up_and_migrate [of ex_history "None" "[]" ex_enforcing, folded ex_file_def] by (simp add: Let_def)
qed

end
