(* ===== verification/Delivery.thy ===== *)
theory Delivery
  imports Writer Config
begin

text \<open>
  The writer of persistence/writer.py over the repository of persistence/repositories.py with a
  stored configuration (app/config.py): what goes through the queue reaches the database.

  Shown: while outages of the storage are shorter than the retry budget, no batch of poll results that
  the repository accepts ever fails; hence every poll result of a configured group that
  enters the queue is stored once a shutdown reports, and none is counted as failed.
\<close>

section \<open>Repositories that accept\<close>

text \<open>A repository that says which poll results it accepts, and never changes its mind.\<close>

locale accepting_repository = poll_repository +
  fixes accepts :: "'r \<Rightarrow> worker_poll_result \<Rightarrow> bool"
  assumes accept_saves: "\<forall>x \<in> set xs. accepts r x \<Longrightarrow> \<exists>r' n. ro_save ops xs r = (r', Inr n)"
    and accept_keeps: "accepts r x \<Longrightarrow> accepts (fst (ro_save ops xs r)) x"

text \<open>The database accepts validated results whose configuration is stored and whose integers fit.\<close>

definition db_accepts :: "database \<Rightarrow> worker_poll_result \<Rightarrow> bool" where
  "db_accepts db r \<longleftrightarrow> poll_result_ok r \<and> configured db r \<and> fits_sqlite r"

lemma save_results_configured:
  assumes "configured db r"
  shows "configured (fst (save_poll_results xs db)) r"
proof (cases "save_poll_results xs db")
  case (Pair db' res)
  then show ?thesis using save_batch_transaction [OF Pair] assms
    by (cases res) (auto simp: configured_def)
qed

interpretation adb: accepting_repository reading_repository persisted db_accepts
  by unfold_locales
    (simp_all add: reading_repository_def db_accepts_def save_poll_results_total save_results_configured)

section \<open>Outages\<close>

text \<open>A call that fails for a while: an error that is retried, or a time-out.\<close>

fun passing :: "io_fate \<Rightarrow> bool" where
  "passing (IO_Fails e) = is_retryable e"
| "passing (IO_Times_Out b) = True"
| "passing _ = False"

text \<open>From any call on, one completes within the attempts of the policy, and those before it only pass.\<close>

definition bridged :: "retry_policy \<Rightarrow> (nat \<Rightarrow> io_fate) \<Rightarrow> bool" where
  "bridged p io \<longleftrightarrow> (\<forall>n. \<exists>k. int k < rp_max_attempts p \<and> io (n + k) = IO_Completes \<and> (\<forall>j < k. passing (io (n + j))))"

definition steady :: "retry_policy \<Rightarrow> ('r, 's) writer_env \<Rightarrow> bool" where
  "steady p env \<longleftrightarrow> policy_ok p \<and> bridged p (dv_io env) \<and> (\<forall>n d. dv_sleep env n d = Ret ()) \<and>
     (\<forall>n. \<not> dv_wait_cancelled env n)"

lemma bridged_not_cancelled:
  assumes "bridged p io"
  shows "io n \<noteq> IO_Cancelled b"
proof -
  obtain k where k: "io (n + k) = IO_Completes" "\<forall>j < k. passing (io (n + j))" using assms by (auto simp: bridged_def)
  show ?thesis
  proof (cases "k = 0")
    case True
    then show ?thesis using k(1) by simp
  next
    case False
    then have "passing (io (n + 0))" using k(2) by blast
    then show ?thesis by (cases "io n") auto
  qed
qed

lemma steady_calm: "steady p env \<Longrightarrow> calm_writer_env env"
  using bridged_not_cancelled by (auto simp: steady_def calm_writer_env_def)

section \<open>Progress\<close>

text \<open>
  What a step of a steady writer keeps: nothing is counted as failed, what was accepted still
  is, and there is no new work.
\<close>

definition progress ::
  "('r \<Rightarrow> worker_poll_result \<Rightarrow> bool) \<Rightarrow> ('r, 's) writer \<Rightarrow> ('r, 's) writer \<Rightarrow> bool" where
  "progress accepts w v \<longleftrightarrow> dw_policy v = dw_policy w \<and> dw_batch_size v = dw_batch_size w \<and> dw_spool v = dw_spool w \<and>
     dw_failed_poll_results v = dw_failed_poll_results w \<and> dw_orphan_gets v = dw_orphan_gets w \<and>
     (\<forall>x. accepts (dw_repository w) x \<longrightarrow> accepts (dw_repository v) x) \<and> work_of v \<subseteq> work_of w"

lemma progress_refl: "progress accepts w w"
  by (simp add: progress_def)

lemma progress_trans: "progress accepts u v \<Longrightarrow> progress accepts v w \<Longrightarrow> progress accepts u w"
  by (auto simp: progress_def)

lemma progress_flags [simp]:
  "progress accepts w (v\<lparr>dw_running := b, dw_stopped := c\<rparr>) \<longleftrightarrow> progress accepts w v"
  "progress accepts w (v\<lparr>dw_waits := n\<rparr>) \<longleftrightarrow> progress accepts w v"
  by (simp_all add: progress_def work_of_def)

lemma ack_batch_progress: "ack_batch n w = (v, out) \<Longrightarrow> progress accepts w v"
  using tasks_done_items [of n "dw_queue w"] set_drop_subset [of n "dw_pending_batch w"]
  by (auto simp: ack_batch_def progress_def work_of_def split: prod.splits dest: in_set_dropD)

text \<open>All work is accepted, and there is no spool to fall back on.\<close>

definition accepted_work :: "('r \<Rightarrow> worker_poll_result \<Rightarrow> bool) \<Rightarrow> ('r, 's) writer \<Rightarrow> bool" where
  "accepted_work accepts w \<longleftrightarrow> (\<forall>x \<in> work_of w. accepts (dw_repository w) x)"

lemma progress_accepted: "progress accepts w v \<Longrightarrow> accepted_work accepts w \<Longrightarrow> accepted_work accepts v"
  by (auto simp: progress_def accepted_work_def)

text \<open>
  The state of a steady run from a new writer without a spool, in which accepted results enter the
  queue: nothing has failed, nobody else takes items, and the work is accepted.
\<close>

definition on_course ::
  "('r \<Rightarrow> worker_poll_result \<Rightarrow> bool) \<Rightarrow> retry_policy \<Rightarrow> 'r \<Rightarrow> ('r, 's) writer \<Rightarrow> bool" where
  "on_course accepts p r w \<longleftrightarrow> dw_policy w = p \<and> dw_spool w = None \<and> dw_failed_poll_results w = 0 \<and> dw_orphan_gets w = 0 \<and>
     0 < dw_batch_size w \<and> accepted_work accepts w \<and> (\<forall>x. accepts r x \<longrightarrow> accepts (dw_repository w) x)"

lemma progress_on_course: "progress accepts w v \<Longrightarrow> on_course accepts p r w \<Longrightarrow> on_course accepts p r v"
  using progress_accepted [of accepts w v] by (auto simp: on_course_def progress_def)

section \<open>A steady writer\<close>

locale delivering_writer = durable_writer env stored sound held
  + acc: accepting_repository "dv_repository env" stored accepts
  for env :: "('r, 's) writer_env" and stored :: "'r \<Rightarrow> worker_poll_result \<Rightarrow> bool"
    and sound :: "'s \<Rightarrow> bool" and held :: "'s \<Rightarrow> worker_poll_result \<Rightarrow> bool"
    and accepts :: "'r \<Rightarrow> worker_poll_result \<Rightarrow> bool"
begin

lemma save_batch_accepts:
  assumes "save_batch env xs w = (v, out)" "accepts (dw_repository w) x"
  shows "accepts (dw_repository v) x"
proof -
  obtain r where r: "in_thread (dv_io env (dw_ios w)) (ro_save (dv_repository env) xs) (dw_repository w) = (r, out)"
    "v = w\<lparr>dw_repository := r, dw_ios := Suc (dw_ios w)\<rparr>"
    using assms(1) by (auto simp: save_batch_def repository_call_def split: prod.splits)
  from r(1) have "r = dw_repository w \<or> r = fst (ro_save (dv_repository env) xs (dw_repository w))"
    by (cases rule: in_thread_cases) auto
  then show ?thesis using r(2) assms(2) acc.accept_keeps by auto
qed

lemma persist_loop_accepts:
  assumes "accepts (dw_repository w) x"
  shows "accepts (dw_repository (fst (retry_loop (persist_env env xs) p n r w))) x"
proof (rule retry_loop_invariant [where I = "\<lambda>w. accepts (dw_repository w) x"])
  fix s :: "('r, 's) writer"
  assume "accepts (dw_repository s) x"
  then show "accepts (dw_repository (fst (re_operation (persist_env env xs) s))) x"
    using save_batch_accepts [of xs s] by (simp add: persist_env_def prod_eq_iff)
qed (use assms in \<open>simp_all add: persist_env_def record_retry_def writer_sleep_def\<close>)

lemma save_completes:
  assumes "dv_io env (dw_ios w) = IO_Completes" "\<forall>x \<in> set xs. accepts (dw_repository w) x"
  shows "\<exists>v n. save_batch env xs w = (v, Ret n)"
  using acc.accept_saves [OF assms(2)] assms(1)
  by (auto simp: save_batch_def repository_call_def in_thread_def)

lemma save_passes:
  assumes "passing (dv_io env (dw_ios w))"
  shows "\<exists>v e. save_batch env xs w = (v, Raise e) \<and> is_retryable e \<and> dw_ios v = Suc (dw_ios w)"
  using assms
  by (cases "dv_io env (dw_ios w)") (auto simp: save_batch_def repository_call_def in_thread_def is_retryable_iff)

text \<open>The loop gets through an outage.\<close>

lemma persist_loop_succeeds:
  assumes "\<forall>n d. dv_sleep env n d = Ret ()" "int (n + k) < rp_max_attempts p"
    and "dv_io env (dw_ios w + k) = IO_Completes" "\<forall>j < k. passing (dv_io env (dw_ios w + j))"
    and "\<forall>x \<in> set xs. accepts (dw_repository w) x"
  shows "\<exists>v m. retry_loop (persist_env env xs) p n r w = (v, Ret m)"
  using assms(2-5)
proof (induction k arbitrary: n r w)
  case 0
  obtain v m where "save_batch env xs w = (v, Ret m)" using save_completes 0(2,4) by fastforce
  then show ?case using retry_loop_Ret_first [of n p "persist_env env xs" w v m r] 0(1)
    by (simp add: persist_env_def)
next
  case (Suc k)
  obtain w1 e where e: "save_batch env xs w = (w1, Raise e)" "is_retryable e" "dw_ios w1 = Suc (dw_ios w)"
    using save_passes [of w xs] Suc.prems(3) by fastforce
  obtain d where d: "delay_for_retry p (int (Suc r)) (default_random (Suc r)) = Inr d"
    using delay_for_retry_total [of "int (Suc r)" "default_random (Suc r)" p] by (auto simp: default_random_def)
  let ?w2 = "fst (writer_sleep env d (record_retry e d (Suc r) w1))"
  have w2: "dw_ios ?w2 = Suc (dw_ios w)" "dw_repository ?w2 = dw_repository w1"
    using e(3) by (simp_all add: writer_sleep_def record_retry_def)
  have "retry_loop (persist_env env xs) p n r w = retry_loop (persist_env env xs) p (Suc n) (Suc r) ?w2"
    by (rule retry_loop_step) (use e d assms(1) Suc.prems(1) in \<open>simp_all add: persist_env_def writer_sleep_def\<close>)
  moreover have "\<forall>j < k. passing (dv_io env (dw_ios ?w2 + j))"
    using Suc.prems(3) by (auto simp: w2(1))
  ultimately show ?case
    using Suc.IH [of "Suc n" ?w2 "Suc r"] Suc.prems save_batch_accepts [OF e(1)] w2 by simp
qed

lemma persist_batch_succeeds:
  assumes "steady (dw_policy w) env" "\<forall>x \<in> set xs. accepts (dw_repository w) x"
  obtains v where "persist_batch env xs w = (v, Ret True)" "only_saved stored w v"
    "\<And>x. accepts (dw_repository w) x \<Longrightarrow> accepts (dw_repository v) x"
proof -
  obtain k where k: "int (0 + k) < rp_max_attempts (dw_policy w)" "dv_io env (dw_ios w + k) = IO_Completes"
    "\<forall>j < k. passing (dv_io env (dw_ios w + j))"
    using assms(1) unfolding steady_def bridged_def by (metis add_0)
  have sl: "\<forall>n d. dv_sleep env n d = Ret ()" using assms(1) by (simp add: steady_def)
  obtain u m o' where u: "retry_loop (persist_env env xs) (dw_policy w) 0 0 w = (u, Ret (m, o'))"
    using persist_loop_succeeds [OF sl k assms(2)] by (metis prod.exhaust)
  define v where "v = u\<lparr>dw_inserted_readings := dw_inserted_readings u + m\<rparr>"
  have p: "persist_batch env xs w = (v, Ret True)" using u by (simp add: persist_batch_def run_with_retry_def v_def)
  have "accepts (dw_repository v) x" if "accepts (dw_repository w) x" for x
    using persist_loop_accepts [OF that, of xs "dw_policy w" 0 0] u by (simp add: v_def)
  then show thesis using that p persist_batch_saved(1) [OF p] by blast
qed

lemma saved_progress:
  assumes "only_saved stored w v" "\<And>x. accepts (dw_repository w) x \<Longrightarrow> accepts (dw_repository v) x"
  shows "progress accepts w v"
  using assms by (simp add: progress_def only_saved_def same_work_def work_of_def)

lemma flush_progress:
  assumes "flush_pending env w = (v, out)" "steady (dw_policy w) env" "accepted_work accepts w"
  shows "progress accepts w v"
proof (cases "dw_pending_batch w = []")
  case True
  then show ?thesis using assms(1) by (simp add: flush_pending_def progress_refl)
next
  case False
  let ?xs = "dw_pending_batch w"
  have "\<forall>x \<in> set ?xs. accepts (dw_repository w) x" using assms(3) by (simp add: accepted_work_def work_of_def)
  then obtain w1 where w1: "persist_batch env ?xs w = (w1, Ret True)" "only_saved stored w w1"
    "\<And>x. accepts (dw_repository w) x \<Longrightarrow> accepts (dw_repository w1) x"
    using persist_batch_succeeds [OF assms(2)] by blast
  let ?u = "w1\<lparr>dw_successful_batches := Suc (dw_successful_batches w1),
      dw_successful_poll_results := dw_successful_poll_results w1 + length ?xs, dw_last_error := None\<rparr>"
  have "progress accepts w ?u" by (rule saved_progress) (use w1(2,3) in simp_all)
  moreover have "ack_batch (length ?xs) ?u = (v, out)"
    using assms(1) w1(1) False by (simp add: flush_pending_def Let_def)
  ultimately show ?thesis using progress_trans ack_batch_progress by blast
qed

lemma consume_progress:
  assumes "consume env w = (v, out)" "steady (dw_policy w) env" "accepted_work accepts w"
  shows "progress accepts w v"
proof (cases "dw_batch_size w \<le> int (length (dw_pending_batch w)) \<or> dw_stop_requested w \<and> rq_size (dw_queue w) = 0")
  case True
  then have "flush_pending env w = (v, out)" using assms(1) by (auto simp: consume_def split: if_splits)
  then show ?thesis using flush_progress assms(2,3) by blast
next
  case False
  let ?w1 = "w\<lparr>dw_waits := Suc (dw_waits w)\<rparr>"
  have wait: "\<not> dv_wait_cancelled env (dw_waits w)" using assms(2) by (simp add: steady_def)
  show ?thesis
  proof (cases "rq_get (dw_queue w)")
    case None
    then have "flush_pending env ?w1 = (v, out)"
      using assms(1) False wait by (auto simp: consume_def wait_for_item_def Let_def split: if_splits)
    moreover have "progress accepts w ?w1" by (simp add: progress_refl)
    moreover from this have "accepted_work accepts ?w1" using progress_accepted assms(3) by blast
    ultimately show ?thesis using flush_progress [of ?w1 v out] assms(2) progress_trans by fastforce
  next
    case (Some p)
    obtain q x where p: "p = (q, x)" by fastforce
    define u where "u = w\<lparr>dw_waits := Suc (dw_waits w), dw_queue := q,
        dw_pending_batch := dw_pending_batch w @ [x]\<rparr>"
    have pu: "progress accepts w u"
      using Some p by (auto simp: progress_def u_def work_of_def rq_get_def split: list.splits)
    then have "accepted_work accepts u" "steady (dw_policy u) env"
      using progress_accepted assms(2,3) by (auto simp: u_def)
    moreover have "(v = u \<and> out = Ret ()) \<or> flush_pending env u = (v, out)"
      using assms(1) False wait Some p
      by (auto simp: consume_def wait_for_item_def Let_def u_def split: if_splits)
    ultimately show ?thesis using flush_progress pu progress_trans by blast
  qed
qed

lemma final_flush_progress:
  assumes "final_flush env out w = (v, res)" "steady (dw_policy w) env" "accepted_work accepts w"
  shows "progress accepts w v"
proof -
  obtain w1 r where f: "flush_pending env w = (w1, r)" by fastforce
  have "v = w1 \<or> v = w1\<lparr>dw_running := False, dw_stopped := True\<rparr>"
    using assms(1) f by (auto simp: final_flush_def split: outcome.splits)
  then show ?thesis using flush_progress [OF f assms(2,3)] by auto
qed

lemma leave_run_progress:
  assumes "leave_run env out w = (v, res)" "steady (dw_policy w) env" "accepted_work accepts w"
  shows "progress accepts w v"
proof (cases "out = Cancelled")
  case True
  obtain w1 r where f: "flush_pending env w = (w1, r)" by fastforce
  have p: "progress accepts w w1" by (rule flush_progress [OF f assms(2,3)])
  moreover have "\<exists>o' r'. final_flush env o' w1 = (v, r')"
    using assms(1) f True by (auto simp: leave_run_def split: outcome.splits)
  moreover have "steady (dw_policy w1) env" using p assms(2) by (simp add: progress_def)
  ultimately show ?thesis using final_flush_progress progress_accepted [OF p assms(3)] progress_trans by blast
next
  case False
  then have "final_flush env out w = (v, res)" using assms(1) by (auto simp: leave_run_def split: outcome.splits)
  then show ?thesis using final_flush_progress assms(2,3) by blast
qed

lemma run_turn_progress:
  assumes "run_turn env w = (v, res)" "steady (dw_policy w) env" "accepted_work accepts w" "dw_spool w = None"
  shows "progress accepts w v"
proof (cases "should_stop w")
  case True
  then have "\<exists>o'. leave_run env (Ret ()) w = (v, o')"
    using assms(1) by (auto simp: run_turn_def split: prod.splits)
  then show ?thesis using leave_run_progress assms(2,3) by blast
next
  case False
  have "consume_or_flush env w = consume env w"
    using assms(4) by (simp add: consume_or_flush_def replay_spool_once_def)
  then obtain w1 r where c: "consume_or_flush env w = (w1, r)" "consume env w = (w1, r)" by fastforce
  have p: "progress accepts w w1" by (rule consume_progress [OF c(2) assms(2,3)])
  have "steady (dw_policy w1) env" using p assms(2) by (simp add: progress_def)
  moreover have "v = w1 \<or> (\<exists>o' o''. leave_run env o' w1 = (v, o''))"
    using assms(1) c(1) False by (auto simp: run_turn_def split: outcome.splits prod.splits)
  ultimately show ?thesis using p leave_run_progress progress_accepted [OF p assms(3)] progress_trans by blast
qed

lemma run_loop_progress:
  assumes "steady (dw_policy w) env" "accepted_work accepts w" "dw_spool w = None" "distinct_executions U"
  shows "progress accepts w (fst (run_loop n env w)) \<and> careful stored sound held U w (fst (run_loop n env w))"
  using assms(1-3)
proof (induction n arbitrary: w)
  case 0
  then show ?case by (simp add: progress_refl careful_refl)
next
  case (Suc n)
  obtain v res where t: "run_turn env w = (v, res)" by fastforce
  have p: "progress accepts w v" by (rule run_turn_progress [OF t Suc.prems])
  have c: "careful stored sound held U w v" by (rule run_turn_careful [OF t assms(4)])
  have "steady (dw_policy v) env" "accepted_work accepts v" "dw_spool v = None"
    using p Suc.prems progress_accepted [OF p] by (auto simp: progress_def)
  from Suc.IH [OF this] show ?case using t p c progress_trans careful_trans by (cases res) auto
qed

lemma trace_on_course:
  assumes "writer_trace env w0 ins os w alive" "on_course accepts p r w0" "steady p env" "\<forall>x \<in> set ins. accepts r x"
  shows "on_course accepts p r w \<and> os = []"
  using assms(1,4)
proof (induction rule: writer_trace.induct)
  case new
  then show ?case using assms(2) by simp
next
  case (run ins os w alive v)
  then show ?case by (auto simp: start_run_def on_course_def accepted_work_def work_of_def split: if_splits)
next
  case (turn ins os w v res)
  then have w: "on_course accepts p r w \<and> os = []" by simp
  have "progress accepts w v"
    by (rule run_turn_progress [OF turn.hyps(2)]) (use w assms(3) in \<open>auto simp: on_course_def\<close>)
  then show ?case using progress_on_course [of accepts w v p r] w by simp
next
  case (stop ins os w alive)
  then show ?case by (auto simp: writer_stop_def on_course_def accepted_work_def work_of_def)
next
  case (producer ins os w alive ev q)
  then have w: "on_course accepts p r w \<and> os = []" by simp
  have q: "rq_items q = rq_items (dw_queue w) @ entered (dw_queue w) ev"
    using producer_step_items [OF producer.hyps(2,3)] by simp
  then show ?case using w producer.prems by (auto simp: on_course_def accepted_work_def work_of_def)
next
  case (orphan ins os w alive q x)
  then show ?case by (simp add: on_course_def)
qed

text \<open>Then a shutdown with time enough leaves everything stored that ever entered the queue.\<close>

lemma steady_shutdown:
  assumes trace: "writer_trace env w0 ins os w alive" and start: "on_course accepts p r w0" "work_of w0 = {}" "balanced 0 w0"
    and steady: "steady p env" and input: "\<forall>x \<in> set ins. accepts r x" "distinct_executions (set ins)"
    and stop: "\<not> dw_stopped w" "0 < timeout_s" "2 * rq_size (dw_queue w) + 2 \<le> turns"
  shows "\<exists>v. shutdown_writer turns env timeout_s w =
      (v, Ret \<lparr>wh_drained = True, wh_pending_queue_items = 0, wh_pending_batch_items = 0\<rparr>) \<and>
    dw_failed_poll_results v = 0 \<and> (\<forall>x \<in> set ins. stored (dw_repository v) x)"
proof -
  let ?U = "set ins" and ?w = "writer_stop w"
  have course: "on_course accepts p r w" "os = []" using trace_on_course [OF trace start(1) steady input(1)] by auto
  have conf0: "confined sound held ?U w0" using start(1,2) by (simp add: on_course_def confined_def)
  have acct: "run_accounted stored sound held ?U w0 ins os w"
    by (rule trace_accounted [OF trace input(2) _ conf0 start(2,3)]) simp
  have l0: "losses w0 = 0" "losses w = 0" using start(1) course(1) by (simp_all add: on_course_def losses_def)
  have had: "\<forall>x \<in> ?U. x \<in> work_of w \<or> stored (dw_repository w) x"
    using acct l0 course by (auto simp: run_accounted_def on_course_def secured_def)
  have w: "balanced 0 ?w" "dw_spool ?w = None" "dw_stop_requested ?w" "0 < dw_batch_size ?w"
    "on_course accepts p r ?w" "confined sound held ?U ?w" "losses ?w = 0"
    using acct course l0(2)
    by (simp_all add: run_accounted_def balanced_def writer_stop_def on_course_def accepted_work_def work_of_def
        confined_def losses_def)
  have "2 * rq_size (dw_queue ?w) + (if dw_pending_batch ?w = [] then 0 else 1) < turns"
    using stop(3) by (auto simp: writer_stop_def)
  then obtain v where v: "run_loop turns env ?w = (v, Some (Ret ()))" "dw_pending_batch v = []"
    "rq_size (dw_queue v) = 0" "dw_stopped v"
    using loop_drains [OF steady_calm [OF steady] w(1-4)] by blast
  have "progress accepts ?w v" "careful stored sound held ?U ?w v"
    using run_loop_progress [of ?w ?U turns] v(1) w(5) steady input(2) by (auto simp: on_course_def)
  moreover from this(1) have end_course: "on_course accepts p r v" by (rule progress_on_course) (rule w(5))
  moreover have "work_of v = {}" "losses v = 0"
    using v(2,3) end_course by (simp_all add: work_of_def rq_size_def on_course_def losses_def)
  ultimately have "\<forall>x \<in> ?U. stored (dw_repository v) x"
    using had w(6,7) by (auto simp: careful_def secured_def work_of_def writer_stop_def on_course_def)
  moreover have "shutdown_writer turns env timeout_s w = (v, Ret (shutdown_report False v))"
    using stop(1,2) v(1,4) by (simp add: shutdown_writer_def begin_shutdown_def writer_stop_def)
  ultimately show ?thesis using v(2,3) end_course by (simp add: shutdown_report_def on_course_def)
qed

end

text \<open>The gateway's writer is one.\<close>

interpretation gd: delivering_writer "gateway_env io sl wc" persisted service_ok service_holds db_accepts for io sl wc
  by (rule delivering_writer.intro)
    (rule gw.durable_writer_axioms, simp add: gateway_env_def adb.accepting_repository_axioms)

end
