(* ===== verification/Spec2Isabelle.thy ===== *)
theory Spec2Isabelle
  imports Scheduler Writer Worker Driver Mock_Driver Application Opcua_Driver Generator Schema_Setup Delivery
begin

text \<open>
  A model of the PLC data collector (src/src/plc_gateway and src/tools), with the theorems
  that make it correct. The program polls programmable logic controllers and stores what it
  reads: a configuration names connections, groups of tags and tags; a scheduler starts a
  poll cycle per group; the worker of a connection reads the tags of the group through a
  protocol driver, with retries, and makes a poll result; poll results go through a bounded
  queue to the database writer, which saves batches through the repository; a batch that
  cannot be saved is kept in a durable spool and replayed later.

  Theories and sources, in the order of the imports.

  \<^item> Prelude: Python values, exceptions as values, results of calls (\<open>result\<close>, \<open>outcome\<close>
    with cancellation), strings over Latin-1, tables as association lists, lemma collections.
  \<^item> Rounding: Python floats as rounded rationals where rounding matters. The locale \<open>rounding\<close>
    bounds the relative error of an operation; no rounding and the rounding of doubles are its interpretations.
  \<^item> Py_Time, Base64: what the code uses of datetime and base64. ISO texts order as instants
    and are read back; Base64 is read back.
  \<^item> Domain (domain/models.py, exceptions.py): the dataclasses as records with one constructor
    each that performs \<^verbatim>\<open>__post_init__\<close>; \<open>..._ok\<close> is what a constructed object satisfies.
  \<^item> Retry (runtime/retry.py): delays, error classes and the retry loop over any operation;
    the loop is equal to its specification by scripts and ends by the number of attempts.
    The locales \<open>retry_counter\<close> and \<open>attempt_counter\<close> give the counters of its users.
  \<^item> Scheduler (runtime/scheduler.py): slots, passes and cycle tasks as the step relation
    \<open>sched_step\<close> over any rounding of its float operations; no overlap, exact accounts of slots with the drift of
    their due times bounded, and the slot that stays taken.
  \<^item> Driver (protocols/driver.py, registry.py): the driver protocol as \<open>driver_ops\<close> with its
    contract as the locale \<open>communication_driver\<close>, and the registry.
  \<^item> Mock_Driver (protocols/mock.py) and Opcua_Driver (protocols/opcua.py): the two drivers,
    each an interpretation of that locale. The OPC UA driver refines its session, and one
    node whose read fails with an error the driver knows does not cost the others.
  \<^item> Worker (runtime/connection_worker.py): connect, poll, health check, disconnect and
    heartbeat over any driver; accounting, invariants, cancellation, and the polls that are lost.
  \<^item> Reading_Queue (runtime/reading_queue.py): puts, waits, gets and shutdown as \<open>queue_step\<close>.
  \<^item> Spool_Codec, Spool (persistence/spool.py): the JSON payload, read back unchanged, and the
    table, with each method as one transaction; a postponed row is fetched from its instant on.
  \<^item> Repositories (persistence/schema.py, types.py, records.py, repositories.py): the tables,
    their constraints, the foreign keys a connection enforces, and each repository call as one transaction.
  \<^item> Schema_Setup (persistence/database.py, the metadata of schema.py, src/migrations): the engine
    whose connections enforce the foreign keys of the metadata, and set-up, upgrade and downgrade of a database file,
    online and as a script. The file is consistent after any history of these and of repository calls on such
    connections.
  \<^item> Writer (persistence/writer.py): the turns of the writer and its shutdown over any repository
    and spool with the locales \<open>poll_repository\<close>, \<open>poll_spool\<close> and \<open>durable_writer\<close>, interpreted by
    the repository and the spool above: nothing is lost without a trace, and a writer that is shut
    down drains.
  \<^item> Config (app/config.py): loading, overrides, references and the masked form for the logs.
  \<^item> Delivery: the writer over a repository that accepts what it is given (the locales
    \<open>accepting_repository\<close> and \<open>delivering_writer\<close>, interpreted by the repository with a stored
    configuration): with outages shorter than the retry budget no batch fails.
  \<^item> Licenses (license_info.py, build_info.py, _version.py) and Credits
    (src/tools/generate_credits.py): the license report and the generator of its data.
  \<^item> Arguments: what the two programs use of argparse, with command lines as settings.
  \<^item> Logging (app/logging.py), Service (app/service.py), Application (api/state.py, api/app.py,
    app/health.py, __main__.py): log lines and set-up, paths, PID file, signal handlers and the
    service host, endpoints and the command line: what the command runs with.
  \<^item> Generator (\<^verbatim>\<open>main\<close> and \<^verbatim>\<open>write_credits\<close> of src/tools/generate_credits.py): a run of the
    generator, and that \<^verbatim>\<open>plc-gateway licenses\<close> prints what it has written.
  \<^item> This theory: the compositions. A poll of a configured worker can be stored, and what
    configured workers put into the queue is in the database when a shutdown reports.

  Conventions. A state is a record and an operation a function from state to state and
  result; every raise, early return and cancellation is a branch. Clocks, UUIDs, sleepers,
  random sources, the finishing order of concurrent calls and the fate of a call in another
  thread are parameters, given by position (the \<open>n\<close>-th reading), so that a theorem holds
  for all of them. Names \<open>ex_...\<close> are the concrete inputs at which theorems are applied.

  Bounds and fuel. The loop of the writer has fuel; twice the size of the queue and two turns
  are enough for a stopped writer, and this is proved. A shutdown has the number of turns that its
  time limit allows for. The retry loop ends because the number of attempts is bounded, and an outage
  is shorter than its budget if one of the next attempts completes and those before it fail in ways
  that are retried. The closure loop of the credits generator is a partial function: it
  is proved to end if finitely many distributions are needed. Python floats are rationals with
  the three special values. Integers are rounded as \<^verbatim>\<open>float\<close> does where it matters, and the scheduler rounds
  every float operation; the delays of the retry policy are exact and do not overflow.

  Not modelled. pydantic, asyncua, FastAPI, packaging and the TOML reader are parameters;
  SQLAlchemy, SQLite and Alembic are represented by the semantics the code relies on, SQLite's own
  input and output errors only as failed calls of the writer. Text outside Latin-1. The messages of
  the argument parser. The logging set-up that env.py reads from alembic.ini. Calls of the logger
  are left out, what a line looks like is not. Time limits of the writer's threaded calls appear
  as the fate of the call.
\<close>

section \<open>From the configuration file to the database\<close>

text \<open>
  C9: what a configured gateway polls, it can store, up to the 64 bits of SQLite's integers. Take a
  configuration that loads, with fields as its declarations promise, and a
  worker for one of its connections, over any driver within the contract, whose clock is within the years 1 to 9999.
  The configuration can be stored in a database exactly if its integers fit into 64 bits and its
  options and metadata are JSON. Once it is stored, a poll of a configured
  group that returns has a result for each tag, in order, and if its integers fit into 64 bits the
  repository accepts it and persists it, its execution and a reading per tag; otherwise saving it
  fails and leaves the database as it is.
\<close>

theorem configured_poll_is_stored:
  assumes load: "load_gateway_config cenv path environ = Inr c" "\<forall>raw m. cf_validate cenv raw = Inr m \<longrightarrow> fields_ok m"
    and worker: "communication_driver (we_ops env) D" "worker_inv D w" "cw_connection w \<in> set (gc_connections c)"
    and poll: "g \<in> set (gc_tag_groups c)" "set ts \<subseteq> set (gc_tags c)" "valid_wall (we_clock env (cw_clock_reads w))"
      "poll_group env g ts w = (w', Ret r)"
  shows "(config_fits c \<longleftrightarrow> (\<exists>db1 db2 db3. upsert_connections (gc_connections c) db = (db1, Inr ()) \<and>
      upsert_tag_groups (gc_tag_groups c) db1 = (db2, Inr ()) \<and> upsert_tags (gc_tags c) db2 = (db3, Inr ()))) \<and>
    (\<forall>db1 db2 db3. upsert_connections (gc_connections c) db = (db1, Inr ()) \<and>
        upsert_tag_groups (gc_tag_groups c) db1 = (db2, Inr ()) \<and> upsert_tags (gc_tags c) db2 = (db3, Inr ()) \<longrightarrow>
      map tr_tag_id (wp_results r) = map tc_id ts \<and>
      (if fits_sqlite r then \<exists>db4 n. save_poll_results [r] db3 = (db4, Inr n) \<and> persisted db4 r
       else \<exists>e. save_poll_results [r] db3 = (db3, Inl e)))"
proof (intro conjI allI impI)
  have "tag_group_ok g" "\<forall>t \<in> set ts. tag_ok t"
    using load_config_ok [OF load] poll(1,2) by (auto simp: gateway_config_ok_def)
  note r = poll_group_accounts [OF worker(1,2) this poll(3,4)]
  then have ids: "tr_tag_id ` set (wp_results r) = tc_id ` set ts" by (metis list.set_map)
  show "config_fits c \<longleftrightarrow> (\<exists>db1 db2 db3. upsert_connections (gc_connections c) db = (db1, Inr ()) \<and>
      upsert_tag_groups (gc_tag_groups c) db1 = (db2, Inr ()) \<and> upsert_tags (gc_tags c) db2 = (db3, Inr ()))"
    using upserts_succeed [OF load_config_ok [OF load]] upserts_fit by blast
  fix db1 db2 db3
  assume "upsert_connections (gc_connections c) db = (db1, Inr ()) \<and>
    upsert_tag_groups (gc_tag_groups c) db1 = (db2, Inr ()) \<and> upsert_tags (gc_tags c) db2 = (db3, Inr ())"
  then have conf: "configured db3 r"
    using configuration_prepares [of "gc_connections c" db db1 "gc_tag_groups c" db2 "gc_tags c" db3 r] r ids worker(3) poll(1,2)
    by auto
  show "if fits_sqlite r then \<exists>db4 n. save_poll_results [r] db3 = (db4, Inr n) \<and> persisted db4 r
      else \<exists>e. save_poll_results [r] db3 = (db3, Inl e)"
  proof (cases "fits_sqlite r")
    case True
    have "poll_result_ok r" using r by blast
    then obtain db4 n where "save_poll_results [r] db3 = (db4, Inr n)"
      using save_poll_results_total [of "[r]" db3] conf True by auto
    then show ?thesis using save_batch_transaction [of "[r]" db3 db4 "Inr n"] True by auto
  next
    case False
    then show ?thesis using unfitting_batch_fails [of r "[r]" db3] by simp
  qed
  show "map tr_tag_id (wp_results r) = map tc_id ts" using r by blast
qed

text \<open>A poll result of a configured worker is one that the configured database accepts.\<close>

lemma configured_poll_accepted:
  assumes load: "load_gateway_config cenv path environ = Inr c" "\<forall>raw m. cf_validate cenv raw = Inr m \<longrightarrow> fields_ok m"
    and poll: "fits_sqlite r \<and> (\<exists>(env :: 'd worker_env) D g ts w w'. communication_driver (we_ops env) D \<and> worker_inv D w \<and>
        cw_connection w \<in> set (gc_connections c) \<and> g \<in> set (gc_tag_groups c) \<and> set ts \<subseteq> set (gc_tags c) \<and>
        valid_wall (we_clock env (cw_clock_reads w)) \<and> poll_group env g ts w = (w', Ret r))"
    and stored: "upsert_connections (gc_connections c) db = (db1, Inr ())" "upsert_tag_groups (gc_tag_groups c) db1 = (db2, Inr ())"
      "upsert_tags (gc_tags c) db2 = (db3, Inr ())"
  shows "db_accepts db3 r"
proof -
  obtain env :: "'d worker_env" and D g ts w w' where w: "communication_driver (we_ops env) D" "worker_inv D w"
    "cw_connection w \<in> set (gc_connections c)" "g \<in> set (gc_tag_groups c)" "set ts \<subseteq> set (gc_tags c)"
    "valid_wall (we_clock env (cw_clock_reads w))" "poll_group env g ts w = (w', Ret r)" "fits_sqlite r"
    using poll by blast
  have "tag_group_ok g" "\<forall>t \<in> set ts. tag_ok t"
    using load_config_ok [OF load] w(4,5) by (auto simp: gateway_config_ok_def)
  note r = poll_group_accounts [OF w(1,2) this w(6,7)]
  then have "tr_tag_id ` set (wp_results r) = tc_id ` set ts" by (metis list.set_map)
  then have "polled_from c r" using r w(3-5,8) by (auto simp: polled_from_def)
  then show ?thesis using configuration_prepares [OF stored] by (simp add: polled_from_def db_accepts_def)
qed


section \<open>Witnesses\<close>

text \<open>A configured OPC UA connection, whose group of two tags is polled; one of the nodes cannot be read.\<close>

definition ex_plant_model :: gateway_model where
  "ex_plant_model = \<lparr>wm_connections = [\<lparr>cm_id = ''c'', cm_protocol = ''opcua'', cm_endpoint = ''opc.tcp://h'',
       cm_enabled = True, cm_timeout_ms = 500, cm_protocol_options = [(PStr ''username'', PStr '' u '')]\<rparr>],
     wm_tag_groups = [\<lparr>gm_id = ''g'', gm_connection_id = ''c'', gm_interval_ms = 500, gm_timeout_ms = 100,
       gm_overlap_policy = OP_Skip, gm_enabled = True\<rparr>],
     wm_tags = [(ex_tag_model ''n1'' VT_Integer), (ex_tag_model ''n2'' VT_Integer)\<lparr>tm_tag_group_id := ''g''\<rparr>]\<rparr>"

definition ex_plant_env :: config_env where
  "ex_plant_env = \<lparr>cf_read = \<lambda>p. JR_Loaded (PDict []), cf_str = \<lambda>v. '''', cf_validate = \<lambda>raw. Inr ex_plant_model\<rparr>"

definition ex_plant :: gateway_config where
  "ex_plant = config_of ex_plant_model"

definition ex_opcua_worker :: "unit opcua_driver worker" where
  "ex_opcua_worker =
     (case worker_new ex_opcua_connection [(''opcua'', \<lambda>c. Inr ex_opcua_open)] ex_policy ex_policy of Inr w \<Rightarrow> w)"

definition ex_opcua_poll :: "unit opcua_driver worker \<times> worker_poll_result outcome" where
  "ex_opcua_poll = poll_group (ex_env (opcua_ops ex_opcua_env) ex_wall) (hd (gc_tag_groups ex_plant)) (gc_tags ex_plant)
     ex_opcua_worker"

lemma ex_plant_load: "load_gateway_config ex_plant_env ''plant.json'' [] = Inr ex_plant"
  by code_simp

lemma ex_opcua_worker_inv: "worker_inv opcua_inv ex_opcua_worker"
  by code_simp

lemma ex_opcua_poll_ret: "case snd ex_opcua_poll of Ret r \<Rightarrow> list_all (\<lambda>t. column tv_integer t \<in> {None, Some 7}) (wp_results r) \<and>
    pe_requested_tags (wp_execution r) = 2 | _ \<Rightarrow> False"
  by code_simp

lemma ex_plant_fits: "config_fits ex_plant"
proof -
  have "bind_json [(PStr ''username'', PStr '' u '')] = Inr (PDict [(PStr ''username'', PStr '' u '')])"
    "bind_json [] = Inr (PDict [])" by code_simp+
  then show ?thesis
    by (auto simp: config_fits_def ex_plant_def config_of_def ex_plant_model_def connection_of_def tag_group_of_def
        tag_of_def ex_tag_model_def sqlite_int_def)
qed

text \<open>The facts about the example that its theorems ask for.\<close>

lemma ex_plant_fields: "\<forall>raw m. cf_validate ex_plant_env raw = Inr m \<longrightarrow> fields_ok m"
proof -
  have "fields_ok ex_plant_model" by code_simp
  then show ?thesis by (simp add: ex_plant_env_def)
qed

lemma ex_plant_driver: "communication_driver (we_ops (ex_env (opcua_ops ex_opcua_env) ex_wall)) opcua_inv"
  using opcua.communication_driver_axioms by (simp add: ex_env_def)

lemma ex_plant_parts:
  "cw_connection ex_opcua_worker \<in> set (gc_connections ex_plant)" "hd (gc_tag_groups ex_plant) \<in> set (gc_tag_groups ex_plant)"
  "valid_wall (we_clock (ex_env (opcua_ops ex_opcua_env) ex_wall) (cw_clock_reads ex_opcua_worker))"
  "map tc_id (gc_tags ex_plant) = [''n1'', ''n2'']"
  by code_simp+

lemma ex_plant_poll:
  obtains r where "snd ex_opcua_poll = Ret r" "fits_sqlite r"
    "poll_group (ex_env (opcua_ops ex_opcua_env) ex_wall) (hd (gc_tag_groups ex_plant)) (gc_tags ex_plant) ex_opcua_worker =
       (fst ex_opcua_poll, Ret r)"
proof -
  obtain r where r: "snd ex_opcua_poll = Ret r" "pe_requested_tags (wp_execution r) = 2"
    "list_all (\<lambda>t. column tv_integer t \<in> {None, Some 7}) (wp_results r)"
    using ex_opcua_poll_ret by (auto split: outcome.splits)
  show thesis
  proof (rule that [of r])
    show "poll_group (ex_env (opcua_ops ex_opcua_env) ex_wall) (hd (gc_tag_groups ex_plant)) (gc_tags ex_plant) ex_opcua_worker =
        (fst ex_opcua_poll, Ret r)" using r(1) by (simp add: ex_opcua_poll_def prod_eq_iff)
    show "fits_sqlite r" using r(2,3) by (fastforce simp: fits_sqlite_def sqlite_int_def list_all_iff)
  qed (fact r(1))
qed

theorem configured_poll_is_stored_witness:
  "\<exists>r db3 db4 n. snd ex_opcua_poll = Ret r \<and> save_poll_results [r] db3 = (db4, Inr n) \<and> persisted db4 r \<and>
     map tr_tag_id (wp_results r) = [''n1'', ''n2'']"
proof -
  obtain r where r: "snd ex_opcua_poll = Ret r" "fits_sqlite r"
    "poll_group (ex_env (opcua_ops ex_opcua_env) ex_wall) (hd (gc_tag_groups ex_plant)) (gc_tags ex_plant) ex_opcua_worker =
       (fst ex_opcua_poll, Ret r)" by (rule ex_plant_poll)
  note stored = configured_poll_is_stored [OF ex_plant_load ex_plant_fields ex_plant_driver ex_opcua_worker_inv
      ex_plant_parts(1,2) subset_refl ex_plant_parts(3) r(3), of empty_database, unfolded ex_plant_parts(4)]
  obtain db1 db2 db3 where ups: "upsert_connections (gc_connections ex_plant) empty_database = (db1, Inr ()) \<and>
      upsert_tag_groups (gc_tag_groups ex_plant) db1 = (db2, Inr ()) \<and> upsert_tags (gc_tags ex_plant) db2 = (db3, Inr ())"
    using stored [THEN conjunct1] ex_plant_fits by blast
  have "map tr_tag_id (wp_results r) = [''n1'', ''n2''] \<and> (\<exists>db4 n. save_poll_results [r] db3 = (db4, Inr n) \<and> persisted db4 r)"
    using stored [THEN conjunct2, rule_format, OF ups] r(2) by simp
  then obtain db4 n where "save_poll_results [r] db3 = (db4, Inr n)" "persisted db4 r"
    "map tr_tag_id (wp_results r) = [''n1'', ''n2'']" by (elim exE conjE)
  then show ?thesis using r(1) by (intro exI conjI)
qed

text \<open>
  A writer with two attempts on the configured database, whose first save times out: the polled
  result is put into its queue, and then it is shut down.
\<close>

definition ex_retrying :: writer_settings where
  "ex_retrying = ex_settings\<lparr>ws_max_retries := 1\<rparr>"

definition ex_gateway_writer :: "database \<Rightarrow> (database, spool_service) writer" where
  "ex_gateway_writer db = (ex_writer None)\<lparr>dw_repository := db, dw_policy := \<lparr>rp_max_attempts = 2, rp_initial_delay_s = 0,
     rp_max_delay_s = 0, rp_multiplier = 2, rp_jitter_ratio = 0\<rparr>\<rparr>"

definition ex_outage :: "nat \<Rightarrow> io_fate" where
  "ex_outage n = (if n = 0 then IO_Times_Out False else IO_Completes)"

lemma ex_gateway_new:
  "reading_queue_new 5 1 = Inr (dw_queue (ex_writer None))"
  "writer_new (dw_queue (ex_writer None)) db None ex_retrying = Inr (ex_gateway_writer db)"
  by (simp_all add: ex_gateway_writer_def ex_writer_eq reading_queue_new_def writer_new_def ex_settings_def ex_retrying_def
      retry_policy_from_legacy_settings_def retry_policy_new_def)

lemma ex_outage_steady:
  "steady (dw_policy (ex_gateway_writer db)) (gateway_env ex_outage (\<lambda>n d. Ret ()) (\<lambda>n. False))"
proof -
  have "\<exists>k. k < 2 \<and> ex_outage (n + k) = IO_Completes \<and> (\<forall>j < k. passing (ex_outage (n + j)))" for n
  proof (cases n)
    case 0
    then show ?thesis by (intro exI [of _ 1]) (simp add: ex_outage_def)
  qed (intro exI [of _ 0], simp add: ex_outage_def)
  then show ?thesis
    by (simp add: steady_def bridged_def policy_ok_def ex_gateway_writer_def gateway_env_def)
qed

definition ex_gateway_fed :: "database \<Rightarrow> worker_poll_result \<Rightarrow> (database, spool_service) writer" where
  "ex_gateway_fed db r = (ex_gateway_writer db)\<lparr>dw_running := True, dw_stopped := False,
     dw_queue := enqueue r (dw_queue (ex_writer None))\<rparr>"

lemma ex_gateway_trace: "writer_trace env (ex_gateway_writer db) [r] [] (ex_gateway_fed db r) True"
proof -
  let ?w = "ex_gateway_writer db" and ?q = "dw_queue (ex_writer None)"
  have "start_run ?w = (?w\<lparr>dw_running := True, dw_stopped := False\<rparr>, Ret ())"
    by (simp add: start_run_def ex_gateway_writer_def ex_writer_eq)
  from writer_trace.run [OF writer_trace.new this]
  have run: "writer_trace env ?w [] [] (?w\<lparr>dw_running := True, dw_stopped := False\<rparr>) True" .
  have room: "\<not> rq_closed ?q" "\<not> rq_full ?q" by (simp_all add: rq_full_def rq_size_def ex_writer_eq)
  then have put: "rq_put 0 r ?q = (enqueue r ?q, Put_Returned)" by (simp add: rq_put_def)
  have "queue_step ?q (QE_Put 0 r) (fst (rq_put 0 r ?q))" by (rule queue_step.put) (simp add: ex_writer_eq)
  then have "queue_step (dw_queue (?w\<lparr>dw_running := True, dw_stopped := False\<rparr>)) (QE_Put 0 r) (enqueue r ?q)"
    by (simp add: put ex_gateway_writer_def)
  from writer_trace.producer [OF run this] show ?thesis
    by (simp add: room ex_gateway_writer_def ex_gateway_fed_def)
qed


end
